(* ===== verification/Prelude.thy ===== *)
theory Prelude
  imports Main "HOL-Library.Word" "HOL-Library.Sublist"
begin

text \<open>
  Shared vocabulary of the development: the names of the machine types, C++ exceptions and
  effectful calls as values, call logs for the firmware, generic state machines, and the lemmas on
  lists, words and results that the component theories use.
\<close>

unbundle bit_operations_syntax

section \<open>Machine types\<close>

type_synonym u8 = "8 word"
type_synonym u16 = "16 word"
type_synonym u32 = "32 word"
type_synonym u64 = "64 word"
type_synonym bytes = "u8 list"

abbreviation INT64_MAX :: int where
  "INT64_MAX \<equiv> 9223372036854775807"

section \<open>Lemma collections\<close>

named_theorems io_simps \<open>one step of an effectful computation\<close>
named_theorems frame_simps \<open>fields an operation leaves alone\<close>
named_theorems inv_intros \<open>an operation keeps its component's invariant\<close>

section \<open>C++ exceptions and effectful computations\<close>

text \<open>
  A C++ function that may throw returns \<open>exn + 'a\<close>.  A computation that also calls an interface
  the program does not implement itself (a cloud API, a clock) threads a world: the history of the
  calls made so far together with their outcomes.  What the outside answers is a function of that
  history, so nothing is assumed about it beyond its type.
\<close>

datatype exn = InvalidArgument string | RuntimeError string | LogicError string

type_synonym ('w, 'a) io = "'w \<Rightarrow> (exn + 'a) \<times> 'w"

definition io_return :: "'a \<Rightarrow> ('w, 'a) io" where
  "io_return x w = (Inr x, w)"

definition io_throw :: "exn \<Rightarrow> ('w, 'a) io" where
  "io_throw e w = (Inl e, w)"

definition io_bind :: "('w, 'a) io \<Rightarrow> ('a \<Rightarrow> ('w, 'b) io) \<Rightarrow> ('w, 'b) io" where
  "io_bind m k w = (case m w of (Inl e, w') \<Rightarrow> (Inl e, w') | (Inr x, w') \<Rightarrow> k x w')"

text \<open>\<^verbatim>\<open>try ... catch (const std::exception& err)\<close>, and \<^verbatim>\<open>err.what()\<close>.\<close>

definition io_catch :: "('w, 'a) io \<Rightarrow> (exn \<Rightarrow> ('w, 'a) io) \<Rightarrow> ('w, 'a) io" where
  "io_catch m h w = (case m w of (Inl e, w') \<Rightarrow> h e w' | (Inr x, w') \<Rightarrow> (Inr x, w'))"

fun what :: "exn \<Rightarrow> string" where
  "what (InvalidArgument s) = s"
| "what (RuntimeError s) = s"
| "what (LogicError s) = s"

definition io_get :: "('w \<Rightarrow> 'a) \<Rightarrow> ('w, 'a) io" where
  "io_get f w = (Inr (f w), w)"

definition io_update :: "('w \<Rightarrow> 'w) \<Rightarrow> ('w, unit) io" where
  "io_update f w = (Inr (), f w)"

text \<open>One call of the outside: ask it with the history so far, and record call and answer.\<close>

definition io_call :: "('e list \<Rightarrow> exn + 'a) \<Rightarrow> (exn + 'a \<Rightarrow> 'e) \<Rightarrow> ('e list, 'a) io" where
  "io_call ask ev h = (ask h, h @ [ev (ask h)])"

text \<open>
  \<open>io_wp m Q w\<close>: run from \<open>w\<close>, the outcome of \<open>m\<close> and the world it leaves satisfy \<open>Q\<close>.  The
  equations below are the verification-condition generator of the effectful components.
\<close>

definition io_wp :: "('w, 'a) io \<Rightarrow> (exn + 'a \<Rightarrow> 'w \<Rightarrow> bool) \<Rightarrow> 'w \<Rightarrow> bool" where
  "io_wp m Q w \<longleftrightarrow> Q (fst (m w)) (snd (m w))"

lemma io_wp_return [io_simps]: "io_wp (io_return x) Q w = Q (Inr x) w"
  by (simp add: io_wp_def io_return_def)

lemma io_wp_throw [io_simps]: "io_wp (io_throw e) Q w = Q (Inl e) w"
  by (simp add: io_wp_def io_throw_def)

lemma io_wp_bind [io_simps]:
  "io_wp (io_bind m k) Q w =
     io_wp m (\<lambda>r w'. case r of Inl e \<Rightarrow> Q (Inl e) w' | Inr x \<Rightarrow> io_wp (k x) Q w') w"
  by (simp add: io_wp_def io_bind_def split: prod.splits sum.splits)

lemma io_wp_catch [io_simps]:
  "io_wp (io_catch m h) Q w =
     io_wp m (\<lambda>r w'. case r of Inl e \<Rightarrow> io_wp (h e) Q w' | Inr x \<Rightarrow> Q (Inr x) w') w"
  by (simp add: io_wp_def io_catch_def split: prod.splits sum.splits)

lemma io_wp_get [io_simps]: "io_wp (io_get f) Q w = Q (Inr (f w)) w"
  by (simp add: io_wp_def io_get_def)

lemma io_wp_update [io_simps]: "io_wp (io_update f) Q w = Q (Inr ()) (f w)"
  by (simp add: io_wp_def io_update_def)

lemma io_wp_call [io_simps]: "io_wp (io_call ask ev) Q h = Q (ask h) (h @ [ev (ask h)])"
  by (simp add: io_wp_def io_call_def)

lemma io_wp_pair [io_simps]: "io_wp (Pair r) Q w = Q r w"
  by (simp add: io_wp_def)

lemma io_wp_if [io_simps]:
  "io_wp (if b then m else n) Q w = (if b then io_wp m Q w else io_wp n Q w)"
  by simp

lemma io_wpD: "io_wp m Q w \<Longrightarrow> m w = (r, w') \<Longrightarrow> Q r w'"
  by (simp add: io_wp_def)

lemma io_wpI: "(\<And>r w'. m w = (r, w') \<Longrightarrow> Q r w') \<Longrightarrow> io_wp m Q w"
  by (simp add: io_wp_def)

lemma io_wp_mono: "io_wp m Q w \<Longrightarrow> (\<And>r w'. Q r w' \<Longrightarrow> Q' r w') \<Longrightarrow> io_wp m Q' w"
  by (simp add: io_wp_def)

lemma io_wp_bindI:
  "io_wp m P w \<Longrightarrow> (\<And>e w'. P (Inl e) w' \<Longrightarrow> Q (Inl e) w') \<Longrightarrow>
   (\<And>x w'. P (Inr x) w' \<Longrightarrow> io_wp (k x) Q w') \<Longrightarrow> io_wp (io_bind m k) Q w"
  unfolding io_wp_bind by (erule io_wp_mono) (auto split: sum.split)

lemma io_wp_catchI:
  "io_wp m P w \<Longrightarrow> (\<And>e w'. P (Inl e) w' \<Longrightarrow> io_wp (h e) Q w') \<Longrightarrow> (\<And>x w'. P (Inr x) w' \<Longrightarrow> Q (Inr x) w') \<Longrightarrow>
   io_wp (io_catch m h) Q w"
  unfolding io_wp_catch by (erule io_wp_mono) (auto split: sum.split)

lemma io_return_apply [io_simps]: "io_return x w = (Inr x, w)"
  by (simp add: io_return_def)

lemma io_throw_apply [io_simps]: "io_throw e w = (Inl e, w)"
  by (simp add: io_throw_def)

lemma io_bind_apply [io_simps]:
  "m w = (Inr x, w') \<Longrightarrow> io_bind m k w = k x w'"
  "m w = (Inl e, w') \<Longrightarrow> io_bind m k w = (Inl e, w')"
  by (simp_all add: io_bind_def)

lemma io_call_apply [io_simps]: "io_call ask ev h = (ask h, h @ [ev (ask h)])"
  by (simp add: io_call_def)

text \<open>A predicate on the world that a computation keeps, however it ends; the rules follow the syntax.\<close>

definition io_keeps :: "('w \<Rightarrow> bool) \<Rightarrow> ('w, 'a) io \<Rightarrow> bool" where
  "io_keeps I m \<longleftrightarrow> (\<forall>w. I w \<longrightarrow> io_wp m (\<lambda>_. I) w)"

lemma io_keepsI: "(\<And>w. I w \<Longrightarrow> io_wp m (\<lambda>_. I) w) \<Longrightarrow> io_keeps I m"
  by (simp add: io_keeps_def)

lemma io_keepsD: "io_keeps I m \<Longrightarrow> I w \<Longrightarrow> io_wp m (\<lambda>_. I) w"
  by (simp add: io_keeps_def)

lemma io_keeps_return: "io_keeps I (io_return x)"
  and io_keeps_throw: "io_keeps I (io_throw e)"
  and io_keeps_get: "io_keeps I (io_get f)"
  by (simp_all add: io_keeps_def io_simps)

lemma io_keeps_update: "(\<And>w. I w \<Longrightarrow> I (f w)) \<Longrightarrow> io_keeps I (io_update f)"
  by (simp add: io_keeps_def io_simps)

lemma io_keeps_bind: "io_keeps I m \<Longrightarrow> (\<And>x. io_keeps I (k x)) \<Longrightarrow> io_keeps I (io_bind m k)"
  by (auto simp: io_keeps_def intro: io_wp_bindI)

lemma io_keeps_catch: "io_keeps I m \<Longrightarrow> (\<And>e. io_keeps I (h e)) \<Longrightarrow> io_keeps I (io_catch m h)"
  unfolding io_keeps_def by (blast intro: io_wp_catchI)

lemma io_keeps_if: "io_keeps I m \<Longrightarrow> io_keeps I n \<Longrightarrow> io_keeps I (if b then m else n)"
  by simp

lemma io_keeps_sum: "(\<And>e. io_keeps I (f e)) \<Longrightarrow> (\<And>x. io_keeps I (g x)) \<Longrightarrow> io_keeps I (case_sum f g r)"
  by (cases r) simp_all

lemmas io_keeps_rules = io_keeps_return io_keeps_throw io_keeps_get io_keeps_bind io_keeps_catch
  io_keeps_if io_keeps_sum

text \<open>A bound on the number of calls that a computation makes.\<close>

definition calls_le :: "('e list, 'a) io \<Rightarrow> nat \<Rightarrow> bool" where
  "calls_le m n \<longleftrightarrow> (\<forall>h. length (snd (m h)) \<le> length h + n)"

lemma calls_le_return: "calls_le (io_return x) 0"
  by (simp add: calls_le_def io_return_def)

lemma calls_le_throw: "calls_le (io_throw e) 0"
  by (simp add: calls_le_def io_throw_def)

lemma calls_le_call: "calls_le (io_call ask ev) 1"
  by (simp add: calls_le_def io_call_def)

lemma calls_le_bind:
  assumes "calls_le m i" and "\<And>x. calls_le (k x) j"
  shows "calls_le (io_bind m k) (i + j)"
  unfolding calls_le_def
proof
  fix h
  obtain r h' where m: "m h = (r, h')" by fastforce
  with assms(1) have "length h' \<le> length h + i" by (metis calls_le_def snd_conv)
  moreover have "length (snd (k x h')) \<le> length h' + j" for x
    using assms(2) by (simp add: calls_le_def)
  ultimately have "length (snd (k x h')) \<le> length h + (i + j)" "length h' \<le> length h + (i + j)" for x
    by (force intro: le_trans)+
  then show "length (snd (io_bind m k h)) \<le> length h + (i + j)"
    using m by (simp add: io_bind_def split: sum.split)
qed

lemma calls_le_mono: "calls_le m i \<Longrightarrow> i \<le> n \<Longrightarrow> calls_le m n"
  unfolding calls_le_def by (meson add_left_mono le_trans)

lemma calls_le_if: "calls_le m i \<Longrightarrow> calls_le n j \<Longrightarrow> calls_le (if c then m else n) (max i j)"
  by (auto elim: calls_le_mono)

lemma calls_le_option:
  "calls_le m i \<Longrightarrow> (\<And>x. calls_le (f x) j) \<Longrightarrow> calls_le (case_option m f x) (max i j)"
  by (cases x) (simp_all, (meson calls_le_mono max.cobounded1 max.cobounded2)+)

lemma calls_le_sum:
  "(\<And>e. calls_le (f e) i) \<Longrightarrow> (\<And>x. calls_le (g x) j) \<Longrightarrow> calls_le (case_sum f g x) (max i j)"
  by (cases x) (simp_all, (meson calls_le_mono max.cobounded1 max.cobounded2)+)

lemma calls_le_prod: "(\<And>x y. calls_le (f x y) i) \<Longrightarrow> calls_le (case_prod f x) i"
  by (cases x) auto

lemmas calls_le_rules = calls_le_return calls_le_throw calls_le_call calls_le_bind calls_le_if
  calls_le_option calls_le_sum calls_le_prod

section \<open>State machines\<close>

text \<open>
  A component that reacts to events is a step function (or relation) on its state.  The contract
  shared by all of them: the initial states satisfy the invariant and every event keeps it.
\<close>

inductive steps :: "('s \<Rightarrow> 'e \<Rightarrow> 's \<Rightarrow> bool) \<Rightarrow> 's \<Rightarrow> 'e list \<Rightarrow> 's \<Rightarrow> bool" for step s where
  steps_nil: "steps step s [] s"
| steps_snoc: "steps step s es t \<Longrightarrow> step t e u \<Longrightarrow> steps step s (es @ [e]) u"

inductive_cases steps_nilE [elim!]: "steps step s [] t"

lemma steps_single: "step s e t \<Longrightarrow> steps step s [e] t"
  using steps_snoc [OF steps_nil] by fastforce

lemma steps_trans: "steps step t es' u \<Longrightarrow> steps step s es t \<Longrightarrow> steps step s (es @ es') u"
  by (induction rule: steps.induct) (auto simp flip: append_assoc intro: steps.intros)

lemma steps_Cons: "step s e t \<Longrightarrow> steps step t es u \<Longrightarrow> steps step s (e # es) u"
  using steps_trans [of step t es u s "[e]"] steps_single [of step s e t] by simp

locale event_system =
  fixes init :: "'s \<Rightarrow> bool"
    and step :: "'s \<Rightarrow> 'e \<Rightarrow> 's \<Rightarrow> bool"
    and inv :: "'s \<Rightarrow> bool"
  assumes init_inv: "init s \<Longrightarrow> inv s"
    and step_inv: "inv s \<Longrightarrow> step s e t \<Longrightarrow> inv t"
begin

lemma steps_inv: "steps step s es t \<Longrightarrow> inv s \<Longrightarrow> inv t"
  by (induction rule: steps.induct) (auto intro: step_inv)

lemma run_inv: "init s \<Longrightarrow> steps step s es t \<Longrightarrow> inv t"
  by (blast intro: init_inv steps_inv)

end

text \<open>
  A second shared contract: a property of single states that, once true, stays true until an
  event of a given kind.
\<close>

locale latching_system =
  fixes step :: "'s \<Rightarrow> 'e \<Rightarrow> 's \<Rightarrow> bool"
    and latched :: "'s \<Rightarrow> bool"
    and unlocks :: "'e \<Rightarrow> bool"
  assumes step_latched: "latched s \<Longrightarrow> step s e t \<Longrightarrow> \<not> unlocks e \<Longrightarrow> latched t"
begin

lemma steps_latched:
  "steps step s es t \<Longrightarrow> latched s \<Longrightarrow> list_all (\<lambda>e. \<not> unlocks e) es \<Longrightarrow> latched t"
  by (induction rule: steps.induct) (auto intro: step_latched)

end

section \<open>Conditions on call histories\<close>

text \<open>Every call of a history satisfies a condition on the calls made before it.\<close>

definition checked :: "('e list \<Rightarrow> 'e \<Rightarrow> bool) \<Rightarrow> 'e list \<Rightarrow> bool" where
  "checked chk h \<longleftrightarrow> (\<forall>es1 e es2. h = es1 @ e # es2 \<longrightarrow> chk es1 e)"

lemma checked_Nil [simp]: "checked chk []"
  by (simp add: checked_def)

lemma checked_snoc [simp]: "checked chk (h @ [e]) \<longleftrightarrow> checked chk h \<and> chk h e"
proof
  assume "checked chk (h @ [e])"
  then show "checked chk h \<and> chk h e"
    by (fastforce simp: checked_def)
next
  assume ok: "checked chk h \<and> chk h e"
  show "checked chk (h @ [e])"
    unfolding checked_def
  proof (intro allI impI)
    fix es1 x es2
    assume "h @ [e] = es1 @ x # es2"
    then show "chk es1 x"
      using ok by (cases es2 rule: rev_cases) (auto simp: checked_def)
  qed
qed

lemma checkedD: "checked chk (es1 @ e # es2) \<Longrightarrow> chk es1 e"
  by (simp add: checked_def)

section \<open>Strings\<close>

text \<open>\<^verbatim>\<open>find_first_not_of(set) == npos\<close>: every character is one of \<open>set\<close>.\<close>

definition only_of :: "string \<Rightarrow> string \<Rightarrow> bool" where
  "only_of cs s = list_all (\<lambda>c. c \<in> set cs) s"

definition digit_chars :: string where
  "digit_chars = ''0123456789''"

text \<open>\<^verbatim>\<open>std::to_string\<close> of an unsigned number.\<close>

fun decimal_string :: "nat \<Rightarrow> string" where
  "decimal_string n = (if n < 10 then [char_of (48 + n)]
     else decimal_string (n div 10) @ [char_of (48 + n mod 10)])"

declare decimal_string.simps [simp del]

lemma decimal_string_0 [simp]: "decimal_string 0 = ''0''"
  by (simp add: decimal_string.simps [of 0] char_of_eq_iff)

text \<open>The value of a hexadecimal digit.\<close>

definition hex_value :: "char \<Rightarrow> nat option" where
  "hex_value c = (let n = of_char c :: nat in
     if 48 \<le> n \<and> n \<le> 57 then Some (n - 48)
     else if 65 \<le> n \<and> n \<le> 70 then Some (n - 55)
     else if 97 \<le> n \<and> n \<le> 102 then Some (n - 87) else None)"

section \<open>Results\<close>

text \<open>Sequencing of computations that may fail with an error value.\<close>

definition res_bind :: "'e + 'a \<Rightarrow> ('a \<Rightarrow> 'e + 'b) \<Rightarrow> 'e + 'b" where
  "res_bind r k = (case r of Inl e \<Rightarrow> Inl e | Inr x \<Rightarrow> k x)"

lemma res_bind_simps [simp]: "res_bind (Inl e) k = Inl e" "res_bind (Inr x) k = k x"
  by (simp_all add: res_bind_def)

lemma res_bind_Inr: "res_bind r k = Inr y \<longleftrightarrow> (\<exists>x. r = Inr x \<and> k x = Inr y)"
  by (cases r) simp_all

lemma res_bind_Inl: "res_bind r k = Inl e \<longleftrightarrow> r = Inl e \<or> (\<exists>x. r = Inr x \<and> k x = Inl e)"
  by (cases r) simp_all

section \<open>Words\<close>

lemma of_nat_word_inj:
  fixes m n :: nat
  assumes "(of_nat m :: 'a::len word) = of_nat n" and "m < 2 ^ LENGTH('a)" and "n < 2 ^ LENGTH('a)"
  shows "m = n"
  using arg_cong [OF assms(1), of unat] assms(2,3) by (simp add: unat_of_nat take_bit_nat_eq_self)

text \<open>Words of the widths that the firmware uses, as natural numbers.\<close>

lemma unat_bounds: "unat (a :: u8) < 256" "unat (b :: u16) < 65536" "unat (c :: u32) < 4294967296"
  using unsigned_less [of a, where ?'a = nat] unsigned_less [of b, where ?'a = nat]
    unsigned_less [of c, where ?'a = nat] by simp_all

lemma unat_ucast_mod: "unat (ucast (w :: 'a::len word) :: 'b::len word) = unat w mod 2 ^ LENGTH('b)"
  by (simp add: unsigned_ucast_eq take_bit_eq_mod)

lemma unat_widen [simp]:
  "unat (ucast (a :: u8) :: u16) = unat a" "unat (ucast (a :: u8) :: u32) = unat a"
  "unat (ucast (b :: u16) :: u32) = unat b"
  using unat_bounds(1) [of a] unat_bounds(2) [of b] by (simp_all add: unat_ucast_mod)

lemma unat_plus_mod: "unat (a + b :: 'a::len word) = (unat a + unat b) mod 2 ^ LENGTH('a)"
  by (subst word_arith_nat_add) (simp only: unat_of_nat)

lemma unat_times_mod: "unat (a * b :: 'a::len word) = (unat a * unat b) mod 2 ^ LENGTH('a)"
  by (subst word_arith_nat_mult) (simp only: unat_of_nat)

end
