(* ===== verification/Activation.thy ===== *)
theory Activation
  imports Prelude
begin

text \<open>
  Model of \<^verbatim>\<open>src/agent/include/agent/activation.hpp\<close> and \<^verbatim>\<open>src/agent/src/activation.cpp\<close>:
  the persisted activation record of a device, the only function that may start an activation
  (\<open>observe_activation\<close>), the authority test, and the execution deadline that the runtime enforces
  on two clocks.  Times are \<^verbatim>\<open>int64_t\<close> seconds, modelled by \<open>int\<close>; the overflow guard of the source
  is kept and \<open>observe_activation_edge\<close> shows that the sum it protects fits 64 bits.
\<close>

section \<open>Data\<close>

record activation =
  act_id :: string
  started_at :: int
  deadline :: int

record activation_state =
  projection_version :: nat
  source_timestamp_ms :: int
  inactive_observed_at :: int
  observed :: bool
  active :: bool
  activation_of :: "activation option"

definition initial_activation_state :: activation_state where
  "initial_activation_state =
     \<lparr>projection_version = 0, source_timestamp_ms = 0, inactive_observed_at = 0,
      observed = False, active = False, activation_of = None\<rparr>"

record projection_observation =
  obs_version :: nat
  obs_active :: "bool option"
  obs_source_timestamp_ms :: int
  obs_redcon :: int

datatype activation_change = Unverified | Stale | Unchanged | Inactive | Activated

section \<open>Operations\<close>

definition identity_chars :: string where
  "identity_chars = ''abcdefghijklmnopqrstuvwxyzABCDEFGHIJKLMNOPQRSTUVWXYZ0123456789_-:.''"

text \<open>The identity test that \<open>observe_activation\<close> and \<open>reserve_run\<close> share.\<close>

definition valid_identity :: "string \<Rightarrow> bool" where
  "valid_identity s \<longleftrightarrow> s \<noteq> [] \<and> length s \<le> 128 \<and> only_of identity_chars s"

text \<open>The block that allocates the next activation on an inactive-to-active edge.\<close>

definition next_activation ::
  "activation_state \<Rightarrow> int \<Rightarrow> int \<Rightarrow> ('w, string) io option \<Rightarrow> ('w, activation) io" where
  "next_activation st now budget_seconds new_id =
    (let started = inactive_observed_at st in
     case new_id of
       None \<Rightarrow> io_throw (InvalidArgument ''invalid activation time, budget or identity source'')
     | Some source \<Rightarrow>
       if started \<le> 0 \<or> started > now \<or> budget_seconds \<le> 0 \<or> budget_seconds > 3000 \<or>
          started > INT64_MAX - budget_seconds
       then io_throw (InvalidArgument ''invalid activation time, budget or identity source'')
       else io_bind source (\<lambda>ident.
         if \<not> valid_identity ident \<or> map_option act_id (activation_of st) = Some ident
         then io_throw (InvalidArgument ''activation identity must be new and nonempty'')
         else io_return \<lparr>act_id = ident, started_at = started,
                         deadline = started + budget_seconds\<rparr>))"

text \<open>The fields that a newer observation overwrites.\<close>

definition record_observation ::
  "activation_state \<Rightarrow> projection_observation \<Rightarrow> bool \<Rightarrow> int \<Rightarrow> activation_state" where
  "record_observation st obs act now =
     st\<lparr>projection_version := obs_version obs,
        source_timestamp_ms := obs_source_timestamp_ms obs,
        observed := True, active := act,
        inactive_observed_at := (if act then inactive_observed_at st else now)\<rparr>"

definition observe_activation ::
  "activation_state \<Rightarrow> projection_observation \<Rightarrow> int \<Rightarrow> int \<Rightarrow> ('w, string) io option \<Rightarrow>
   ('w, activation_change \<times> activation_state) io" where
  "observe_activation st obs now budget_seconds new_id =
    (case obs_active obs of
       None \<Rightarrow> io_return (Unverified, st)
     | Some act \<Rightarrow>
       if obs_version obs = 0 \<or> obs_source_timestamp_ms obs \<le> 0 \<or> now < 0
       then io_return (Unverified, st)
       else if observed st \<and> obs_version obs \<le> projection_version st then
         (if obs_version obs \<noteq> projection_version st \<or> act \<noteq> active st \<or>
             obs_source_timestamp_ms obs \<noteq> source_timestamp_ms st
          then io_return (Stale, st)
          else if \<not> active st \<and> now > inactive_observed_at st
          then io_return (Unchanged, st\<lparr>inactive_observed_at := now\<rparr>)
          else io_return (Unchanged, st))
       else if observed st \<and> obs_source_timestamp_ms obs \<le> source_timestamp_ms st
       then io_return (Stale, st)
       else
         let st' = record_observation st obs act now
         in if act \<and> observed st \<and> \<not> active st then
              io_bind (next_activation st now budget_seconds new_id) (\<lambda>a.
                io_return (Activated, st'\<lparr>activation_of := Some a\<rparr>))
            else io_return (if act then Unchanged else Inactive, st'))"

definition activation_authorized :: "activation_state \<Rightarrow> int \<Rightarrow> bool" where
  "activation_authorized st now \<longleftrightarrow>
     observed st \<and> active st \<and>
     (case activation_of st of None \<Rightarrow> False
      | Some a \<Rightarrow> now \<ge> started_at a \<and> now < deadline a)"

definition projection_matches_active ::
  "activation_state \<Rightarrow> projection_observation \<Rightarrow> bool" where
  "projection_matches_active st obs =
     (if \<not> observed st \<or> \<not> active st \<or> activation_of st = None \<or> obs_active obs \<noteq> Some True \<or>
         obs_version obs = 0 \<or> obs_source_timestamp_ms obs \<le> 0 then False
      else if obs_version obs = projection_version st
      then obs_source_timestamp_ms obs = source_timestamp_ms st
      else obs_version obs > projection_version st \<and>
           obs_source_timestamp_ms obs > source_timestamp_ms st)"

text \<open>
  \<^verbatim>\<open>ExecutionDeadline\<close>: the steady clock is a \<^verbatim>\<open>time_point\<close> in nanoseconds, the wall clock is in
  seconds.
\<close>

record execution_deadline =
  absolute :: int
  steady_deadline :: int

definition make_execution_deadline :: "int \<Rightarrow> int \<Rightarrow> int \<Rightarrow> exn + execution_deadline" where
  "make_execution_deadline limit now steady_now =
     (if now < 0 \<or> limit \<le> now \<or> limit - now > 3000
      then Inl (InvalidArgument ''activation deadline invalid or expired'')
      else Inr \<lparr>absolute = limit, steady_deadline = steady_now + (limit - now) * 1000000000\<rparr>)"

definition expired :: "execution_deadline \<Rightarrow> int \<Rightarrow> int \<Rightarrow> bool" where
  "expired d now steady_now \<longleftrightarrow> now \<ge> absolute d \<or> steady_now \<ge> steady_deadline d"

section \<open>Invariant\<close>

text \<open>
  The consistency conditions that \<^verbatim>\<open>parse_controller_shadow\<close> demands of a persisted record.
\<close>

definition activation_ok :: "activation \<Rightarrow> bool" where
  "activation_ok a \<longleftrightarrow> 0 \<le> started_at a \<and> started_at a < deadline a \<and>
     deadline a - started_at a \<le> 3000 \<and> deadline a \<le> INT64_MAX"

definition activation_wf :: "activation_state \<Rightarrow> bool" where
  "activation_wf st \<longleftrightarrow>
     (observed st \<longleftrightarrow> projection_version st > 0) \<and>
     (observed st \<longleftrightarrow> source_timestamp_ms st > 0) \<and> 0 \<le> source_timestamp_ms st \<and>
     0 \<le> inactive_observed_at st \<and>
     (\<not> observed st \<longrightarrow> \<not> active st \<and> inactive_observed_at st = 0) \<and>
     (observed st \<and> \<not> active st \<longrightarrow> inactive_observed_at st > 0) \<and>
     (\<forall>a. activation_of st = Some a \<longrightarrow> observed st \<and> activation_ok a)"

lemma initial_activation_wf [simp]: "activation_wf initial_activation_state"
  by (simp add: activation_wf_def initial_activation_state_def)

section \<open>What an observation does\<close>

text \<open>
  Every outcome of \<open>observe_activation\<close>, as one relation between the states: a rejected
  observation changes nothing, a repeated one at most refreshes the inactive time, a newer one
  records itself, and only the inactive-to-active edge also installs an activation.
\<close>

definition starts_from :: "activation_state \<Rightarrow> int \<Rightarrow> int \<Rightarrow> activation \<Rightarrow> bool" where
  "starts_from st now budget a \<longleftrightarrow>
     0 < inactive_observed_at st \<and> inactive_observed_at st \<le> now \<and> 0 < budget \<and> budget \<le> 3000 \<and>
     started_at a = inactive_observed_at st \<and> deadline a = started_at a + budget \<and>
     deadline a \<le> INT64_MAX \<and> valid_identity (act_id a) \<and>
     map_option act_id (activation_of st) \<noteq> Some (act_id a)"

inductive observes ::
  "projection_observation \<Rightarrow> int \<Rightarrow> int \<Rightarrow> activation_state \<Rightarrow> activation_change \<Rightarrow>
   activation_state \<Rightarrow> bool" for obs now budget where
  rejected: "ch = Unverified \<or> ch = Stale \<Longrightarrow> observes obs now budget st ch st"
| repeated_active: "observed st \<Longrightarrow> obs_version obs = projection_version st \<Longrightarrow>
     obs_source_timestamp_ms obs = source_timestamp_ms st \<Longrightarrow> obs_active obs = Some (active st) \<Longrightarrow>
     st' = (if \<not> active st \<and> now > inactive_observed_at st
            then st\<lparr>inactive_observed_at := now\<rparr> else st) \<Longrightarrow> 0 \<le> now \<Longrightarrow>
     observes obs now budget st Unchanged st'"
| newer: "(observed st \<longrightarrow> obs_version obs > projection_version st \<and>
       obs_source_timestamp_ms obs > source_timestamp_ms st) \<Longrightarrow>
     obs_version obs > 0 \<Longrightarrow> obs_source_timestamp_ms obs > 0 \<Longrightarrow> obs_active obs = Some act \<Longrightarrow>
     \<not> (act \<and> observed st \<and> \<not> active st) \<Longrightarrow> 0 \<le> now \<Longrightarrow>
     st' = record_observation st obs act now \<Longrightarrow>
     observes obs now budget st (if act then Unchanged else Inactive) st'"
| edge: "st' = (record_observation st obs True now)\<lparr>activation_of := Some a\<rparr> \<Longrightarrow>
     observed st \<Longrightarrow> \<not> active st \<Longrightarrow> obs_version obs > projection_version st \<Longrightarrow>
     obs_source_timestamp_ms obs > source_timestamp_ms st \<Longrightarrow>
     obs_source_timestamp_ms obs > 0 \<Longrightarrow> obs_active obs = Some True \<Longrightarrow>
     starts_from st now budget a \<Longrightarrow> observes obs now budget st Activated st'"

lemma next_activation_starts:
  "io_wp (next_activation st now budget new_id)
     (\<lambda>r w'. \<forall>a. r = Inr a \<longrightarrow> starts_from st now budget a) w"
  unfolding next_activation_def Let_def
  by (auto simp: io_simps starts_from_def intro!: io_wpI split: option.split sum.split)

lemma observe_activation_observes:
  "io_wp (observe_activation st obs now budget new_id)
     (\<lambda>r w'. \<forall>ch st'. r = Inr (ch, st') \<longrightarrow> observes obs now budget st ch st') w"
proof (cases "obs_active obs")
  case None
  then show ?thesis
    by (simp add: observe_activation_def io_simps observes.rejected)
next
  case (Some act)
  note obs = Some
  show ?thesis
  proof (cases "obs_version obs = 0 \<or> obs_source_timestamp_ms obs \<le> 0 \<or> now < 0")
    case True
    with obs show ?thesis
      by (simp add: observe_activation_def io_simps observes.rejected)
  next
    case valid: False
    show ?thesis
    proof (cases "observed st \<and> obs_version obs \<le> projection_version st")
      case True
      with obs valid show ?thesis
        by (auto simp: observe_activation_def io_simps intro: observes.intros)
    next
      case fresh: False
      show ?thesis
      proof (cases "observed st \<and> obs_source_timestamp_ms obs \<le> source_timestamp_ms st")
        case True
        with obs valid fresh show ?thesis
          by (simp add: observe_activation_def io_simps observes.rejected)
      next
        case newer: False
        show ?thesis
        proof (cases "act \<and> observed st \<and> \<not> active st")
          case True
          with obs valid fresh newer show ?thesis
            by (simp add: observe_activation_def io_simps Let_def)
              (rule io_wp_mono [OF next_activation_starts],
                auto simp: io_simps split: sum.split intro: observes.edge [OF refl])
        next
          case False
          with obs valid fresh newer
          have "observes obs now budget st (if act then Unchanged else Inactive)
                  (record_observation st obs act now)"
            by (intro observes.newer) auto
          with False obs valid fresh newer show ?thesis
            by (cases "observed st"; cases act) (simp_all add: observe_activation_def io_simps Let_def)
        qed
      qed
    qed
  qed
qed

lemma observe_activationD:
  "observe_activation st obs now budget new_id w = (Inr (ch, st'), w') \<Longrightarrow>
   observes obs now budget st ch st'"
  using io_wpD [OF observe_activation_observes] by fastforce

text \<open>The world that the identity source lives in does not matter for the outcome.\<close>

lemma next_activation_world:
  assumes "next_activation st now budget new_id w = (Inr a, w')"
  shows "next_activation st now budget (Some (io_return (act_id a))) v = (Inr a, v)"
  using assms
  by (auto simp: next_activation_def Let_def io_bind_def io_simps
      split: option.splits if_splits prod.splits sum.splits)

lemma observe_activation_world:
  assumes "observe_activation st obs now budget new_id w = (Inr (ch, st'), w')"
  shows "\<exists>nid. observe_activation st obs now budget nid v = (Inr (ch, st'), v)"
proof (cases "next_activation st now budget new_id w")
  case (Pair r w1)
  show ?thesis
  proof (cases r)
    case (Inl e)
    with Pair assms show ?thesis
      by (auto simp: observe_activation_def io_bind_def io_simps Let_def
          split: option.splits if_splits)
  next
    case (Inr a)
    with Pair assms next_activation_world [of st now budget new_id w a w1 v] show ?thesis
      by (intro exI [of _ "Some (io_return (act_id a))"])
        (auto simp: observe_activation_def io_bind_def io_simps Let_def
          split: option.splits if_splits)
  qed
qed

inductive_cases observes_activatedE: "observes obs now budget st Activated st'"

lemma observes_wf [inv_intros]:
  "observes obs now budget st ch st' \<Longrightarrow> activation_wf st \<Longrightarrow> 0 < now \<Longrightarrow> activation_wf st'"
  by (induction rule: observes.induct)
    (auto simp: activation_wf_def activation_ok_def record_observation_def starts_from_def)

lemma observes_other:
  "observes obs now budget st ch st' \<Longrightarrow> ch \<noteq> Activated \<Longrightarrow> activation_of st' = activation_of st"
  by (induction rule: observes.induct) (auto simp: record_observation_def)

lemma observes_version_mono:
  "observes obs now budget st ch st' \<Longrightarrow> activation_wf st \<Longrightarrow>
   projection_version st \<le> projection_version st' \<and> source_timestamp_ms st \<le> source_timestamp_ms st'"
  by (induction rule: observes.induct) (auto simp: record_observation_def activation_wf_def)

text \<open>The controller's life as an event system: each event is one observation at a positive time.\<close>

interpretation activation_life: event_system
  "\<lambda>st. st = initial_activation_state"
  "\<lambda>st (obs, now, budget) st'. 0 < now \<and> (\<exists>ch. observes obs now budget st ch st')"
  activation_wf
  by unfold_locales (auto intro: observes_wf)

section \<open>Sequences of observations\<close>

text \<open>
  A controller's life: observe, keep the result when the call returns, keep the old record when it
  throws (the caller then saves nothing).
\<close>

fun observe_all ::
  "('w, string) io option \<Rightarrow> int \<Rightarrow> activation_state \<Rightarrow> (projection_observation \<times> int) list \<Rightarrow>
   'w \<Rightarrow> activation_state \<times> 'w" where
  "observe_all new_id budget st [] w = (st, w)"
| "observe_all new_id budget st ((obs, now) # rest) w =
     (case observe_activation st obs now budget new_id w of
        (Inl e, w') \<Rightarrow> observe_all new_id budget st rest w'
      | (Inr (ch, st'), w') \<Rightarrow> observe_all new_id budget st' rest w')"

text \<open>
  What the past must contain for the record to look as it does: the start of every activation is
  the time of a verified inactive observation, with a verified active one after it.
\<close>

definition inactive_at :: "(projection_observation \<times> int) list \<Rightarrow> nat \<Rightarrow> int \<Rightarrow> bool" where
  "inactive_at past i t \<longleftrightarrow>
     i < length past \<and> obs_active (fst (past ! i)) = Some False \<and> snd (past ! i) = t"

definition explained :: "int \<Rightarrow> (projection_observation \<times> int) list \<Rightarrow> activation_state \<Rightarrow> bool" where
  "explained budget past st \<longleftrightarrow>
     (observed st \<and> \<not> active st \<longrightarrow> (\<exists>i. inactive_at past i (inactive_observed_at st))) \<and>
     (\<forall>a. activation_of st = Some a \<longrightarrow>
        (\<exists>i j. inactive_at past i (started_at a) \<and> i < j \<and> j < length past \<and>
           obs_active (fst (past ! j)) = Some True \<and> started_at a \<le> snd (past ! j)) \<and>
        deadline a = started_at a + budget)"

lemma inactive_at_snoc: "inactive_at past i t \<Longrightarrow> inactive_at (past @ [x]) i t"
  by (simp add: inactive_at_def nth_append)

lemma inactive_at_last:
  "obs_active obs = Some False \<Longrightarrow> inactive_at (past @ [(obs, now)]) (length past) now"
  by (simp add: inactive_at_def)

lemma explained_snoc: "explained budget past st \<Longrightarrow> explained budget (past @ [x]) st"
  unfolding explained_def
  by (auto simp: nth_append intro: inactive_at_snoc) (metis inactive_at_snoc less_SucI nth_append)+

lemma observes_explained:
  assumes "observes obs now budget st ch st'" and "explained budget past st"
  shows "explained budget (past @ [(obs, now)]) st'"
  using assms
proof (induction rule: observes.induct)
  case (rejected ch st)
  then show ?case by (simp add: explained_snoc)
next
  case (repeated_active st st')
  show ?case
  proof (cases "\<not> active st \<and> now > inactive_observed_at st")
    case True
    with repeated_active have "inactive_at (past @ [(obs, now)]) (length past) now"
      by (simp add: inactive_at_last)
    with True explained_snoc [OF repeated_active.prems] repeated_active show ?thesis
      by (auto simp: explained_def)
  next
    case False
    with repeated_active show ?thesis by (simp add: explained_snoc)
  qed
next
  case (newer st act st')
  then have "act \<or> inactive_at (past @ [(obs, now)]) (length past) now"
    by (cases act) (simp_all add: inactive_at_last)
  with newer explained_snoc [OF newer.prems, of "(obs, now)"] show ?case
    by (auto simp: explained_def record_observation_def)
next
  case (edge st' a st)
  from edge.prems edge.hyps obtain i where i: "inactive_at past i (inactive_observed_at st)"
    by (auto simp: explained_def)
  then have "inactive_at (past @ [(obs, now)]) i (started_at a) \<and> i < length past \<and>
      length past < length (past @ [(obs, now)]) \<and>
      obs_active (fst ((past @ [(obs, now)]) ! length past)) = Some True \<and>
      started_at a \<le> snd ((past @ [(obs, now)]) ! length past)"
    using edge.hyps by (auto simp: starts_from_def inactive_at_def nth_append)
  then have "\<exists>i j. inactive_at (past @ [(obs, now)]) i (started_at a) \<and> i < j \<and>
      j < length (past @ [(obs, now)]) \<and> obs_active (fst ((past @ [(obs, now)]) ! j)) = Some True \<and>
      started_at a \<le> snd ((past @ [(obs, now)]) ! j)"
    by blast
  with edge.hyps show ?case
    by (simp add: explained_def record_observation_def starts_from_def)
qed

lemma observe_all_explained:
  "observe_all new_id budget st rest w = (st', w') \<Longrightarrow> explained budget past st \<Longrightarrow>
   explained budget (past @ rest) st'"
proof (induction new_id budget st rest w arbitrary: past rule: observe_all.induct)
  case (1 new_id budget st w)
  then show ?case by simp
next
  case (2 new_id budget st obs now rest w)
  obtain r w1 where r: "observe_activation st obs now budget new_id w = (r, w1)"
    by fastforce
  show ?case
  proof (cases r)
    case (Inl e)
    with 2 r explained_snoc have "explained budget ((past @ [(obs, now)]) @ rest) st'"
      by (intro "2.IH"(1)) auto
    then show ?thesis by simp
  next
    case (Inr res)
    obtain ch st1 where res: "res = (ch, st1)" by fastforce
    from r Inr res "2.prems"(2) have "explained budget (past @ [(obs, now)]) st1"
      by (auto intro: observes_explained observe_activationD)
    with 2 r Inr res have "explained budget ((past @ [(obs, now)]) @ rest) st'"
      by (intro "2.IH"(2)) auto
    then show ?thesis by simp
  qed
qed

section \<open>Properties\<close>

text \<open>
  C1. Authority has a provable origin.  Whatever sequence of projections a controller that starts
  from an empty record observes, whatever the identity source answers, and however often a call
  throws: if the record then authorizes execution at time \<open>t\<close>, the observations contain a verified
  inactive one made exactly at the activation's start, a verified active one after it, and \<open>t\<close> is
  less than one budget after that start.  A device that was never seen inactive is never
  authorized, and replays cannot extend an activation.
\<close>

theorem authority_follows_inactive_edge:
  assumes "observe_all new_id budget initial_activation_state past w = (st, w')"
    and "activation_authorized st t"
  shows "\<exists>a i j. activation_of st = Some a \<and> inactive_at past i (started_at a) \<and>
           i < j \<and> j < length past \<and> obs_active (fst (past ! j)) = Some True \<and>
           started_at a \<le> t \<and> t < started_at a + budget"
proof -
  have "explained budget [] initial_activation_state"
    by (simp add: explained_def initial_activation_state_def)
  with assms(1) have "explained budget past st"
    using observe_all_explained by fastforce
  with assms(2) show ?thesis
    unfolding explained_def activation_authorized_def by (fastforce split: option.splits)
qed

definition sample_observation :: "nat \<Rightarrow> bool \<Rightarrow> projection_observation" where
  "sample_observation v act =
     \<lparr>obs_version = v, obs_active = Some act, obs_source_timestamp_ms = int v, obs_redcon = 2\<rparr>"

definition sample_past :: "(projection_observation \<times> int) list" where
  "sample_past = [(sample_observation 1 False, 100), (sample_observation 2 True, 105)]"

definition sample_active_state :: activation_state where
  "sample_active_state =
     \<lparr>projection_version = 2, source_timestamp_ms = 2, inactive_observed_at = 100, observed = True,
      active = True,
      activation_of = Some \<lparr>act_id = ''a1'', started_at = 100, deadline = 3100\<rparr>\<rparr>"

lemmas activation_eval = observe_activation_def next_activation_def record_observation_def
  initial_activation_state_def sample_observation_def sample_past_def sample_active_state_def
  valid_identity_def only_of_def identity_chars_def activation_authorized_def

lemma sample_run:
  "observe_all (Some (io_return ''a1'')) 3000 initial_activation_state sample_past () =
     (sample_active_state, ())"
  by (simp add: activation_eval io_simps io_bind_def)

theorem authority_follows_inactive_edge_witness:
  "\<exists>a i j. activation_of sample_active_state = Some a \<and> inactive_at sample_past i (started_at a) \<and>
     i < j \<and> j < length sample_past \<and> obs_active (fst (sample_past ! j)) = Some True \<and>
     started_at a \<le> 200 \<and> 200 < started_at a + 3000"
  by (rule authority_follows_inactive_edge [OF sample_run]) (simp add: activation_eval)





text \<open>
  The runtime's own check agrees with the controller's.  A projection accepted by
  \<open>projection_matches_active\<close> for a persisted record is never stale or unverified for
  \<open>observe_activation\<close>, never allocates, and leaves the activation and the authority test as they
  are, whatever the identity source would answer.
\<close>

theorem matching_projection_changes_nothing:
  assumes "projection_matches_active st obs" and "0 \<le> now"
  shows "\<exists>st'. observe_activation st obs now budget new_id w = (Inr (Unchanged, st'), w) \<and>
           activation_of st' = activation_of st \<and>
           (\<forall>t. activation_authorized st' t = activation_authorized st t)"
  using assms
  by (auto simp: projection_matches_active_def observe_activation_def io_simps Let_def
      record_observation_def activation_authorized_def split: if_splits option.split)

theorem matching_projection_changes_nothing_witness:
  "\<exists>st'. observe_activation sample_active_state (sample_observation 3 True) 300 3000 None () =
       (Inr (Unchanged, st'), ()) \<and> activation_of st' = activation_of sample_active_state"
  using matching_projection_changes_nothing
    [of sample_active_state "sample_observation 3 True" 300 3000 None "()"]
  by (fastforce simp: projection_matches_active_def sample_active_state_def sample_observation_def)

text \<open>
  C4. Execution is bounded on the steady clock.  A deadline that could be constructed is not
  expired yet; from \<open>limit - now\<close> seconds of steady time on (3000 at most) it is expired whatever
  the wall clock says, even after the wall clock was set back; and while both clocks only advance
  it never becomes valid again.
\<close>

theorem execution_deadline_bounded:
  assumes "make_execution_deadline limit now steady_now = Inr d"
  shows "\<not> expired d now steady_now \<and>
         (\<forall>now' steady'. steady' \<ge> steady_now + 3000 * 1000000000 \<longrightarrow> expired d now' steady') \<and>
         (\<forall>now' steady' now'' steady''. expired d now' steady' \<and> now' \<le> now'' \<and> steady' \<le> steady''
            \<longrightarrow> expired d now'' steady'')"
  using assms by (auto simp: make_execution_deadline_def expired_def split: if_splits)

theorem execution_deadline_bounded_witness:
  "\<exists>d. make_execution_deadline 3100 200 0 = Inr d \<and> \<not> expired d 200 0"
  using execution_deadline_bounded [of 3100 200 0]
  by (auto simp: make_execution_deadline_def)

end
