(* ===== verification/Controller.thy ===== *)
theory Controller
  imports Activation
begin

text \<open>
  Model of \<^verbatim>\<open>src/agent/include/agent/controller.hpp\<close> and \<^verbatim>\<open>src/agent/src/controller.cpp\<close>: the run
  reservation of a device, the operations that reserve, accept, fence and clear it, and the
  release-number check.  A C++ reference parameter that an operation changes is the last component
  of the model's result.
\<close>

section \<open>Data\<close>

datatype run_phase = Reserved | Running | Stopping

record run_reservation =
  run_id :: string
  activation_id :: string
  release :: string
  request :: string
  microvm_id :: string
  phase :: run_phase

record controller_state =
  activation :: activation_state
  run :: "run_reservation option"

datatype current_lifecycle = LifecycleActive | LifecycleInactive | LifecycleUnavailable

datatype launch_result = Accepted | AlreadyKnown | PendingVerification | StopUnassigned

section \<open>Operations\<close>

text \<open>
  The loop of \<^verbatim>\<open>valid_release\<close> over the text from \<^verbatim>\<open>start\<close> on; \<open>parts\<close> is the \<^verbatim>\<open>unsigned\<close> counter.
\<close>

definition canonical_number :: "string \<Rightarrow> bool" where
  "canonical_number p \<longleftrightarrow> p \<noteq> [] \<and> \<not> (length p > 1 \<and> hd p = CHR ''0'') \<and> only_of digit_chars p"

function valid_release_from :: "u32 \<Rightarrow> string \<Rightarrow> bool" where
  "valid_release_from parts s =
    (if s = [] then False
     else if \<not> canonical_number (takeWhile (\<lambda>c. c \<noteq> CHR ''.'') s) then False
     else case dropWhile (\<lambda>c. c \<noteq> CHR ''.'') s of
            [] \<Rightarrow> parts + 1 = 3
          | _ # rest \<Rightarrow> valid_release_from (parts + 1) rest)"
  by pat_completeness auto
termination
proof (relation "measure (length \<circ> snd)")
  show "wf (measure (length \<circ> snd))" by simp
next
  fix parts :: u32 and s rest :: string and c
  assume "dropWhile (\<lambda>c. c \<noteq> CHR ''.'') s = c # rest"
  moreover have "length (dropWhile (\<lambda>c. c \<noteq> CHR ''.'') s) \<le> length s"
    by (rule length_dropWhile_le)
  ultimately have "length rest < length s" by simp
  then show "((parts + 1, rest), (parts, s)) \<in> measure (length \<circ> snd)" by simp
qed

declare valid_release_from.simps [simp del]

definition valid_release :: "string \<Rightarrow> bool" where
  "valid_release s = valid_release_from 0 s"

definition reserve_run ::
  "controller_state \<Rightarrow> current_lifecycle \<Rightarrow> int \<Rightarrow> string \<Rightarrow> string \<Rightarrow> string \<Rightarrow>
   exn + bool \<times> controller_state" where
  "reserve_run st current now rid rel exact_request =
    (if run st \<noteq> None \<or> current \<noteq> LifecycleActive \<or> \<not> activation_authorized (activation st) now
     then Inr (False, st)
     else if \<not> valid_identity rid \<or> \<not> valid_release rel \<or> exact_request = [] \<or>
             length exact_request > 2048
     then Inl (InvalidArgument
       ''valid run identity, semver release and bounded launch request are required'')
     else case activation_of (activation st) of
            None \<Rightarrow> Inr (False, st)
          | Some a \<Rightarrow> Inr (True, st\<lparr>run := Some \<lparr>run_id = rid, activation_id = act_id a,
                release = rel, request = exact_request, microvm_id = [], phase = Reserved\<rparr>\<rparr>))"

text \<open>The fencing condition that \<^verbatim>\<open>fence_run\<close> and \<^verbatim>\<open>accept_launch\<close> share.\<close>

definition run_unauthorized ::
  "controller_state \<Rightarrow> run_reservation \<Rightarrow> current_lifecycle \<Rightarrow> int \<Rightarrow> bool" where
  "run_unauthorized st r current now \<longleftrightarrow>
     current = LifecycleInactive \<or> \<not> activation_authorized (activation st) now \<or>
     map_option act_id (activation_of (activation st)) \<noteq> Some (activation_id r)"

definition accept_launch ::
  "controller_state \<Rightarrow> string \<Rightarrow> string \<Rightarrow> bool \<Rightarrow> current_lifecycle \<Rightarrow> int \<Rightarrow>
   exn + launch_result \<times> controller_state" where
  "accept_launch st rid vm host_running current now =
    (if vm = [] then Inl (InvalidArgument ''MicroVM identity required'')
     else case run st of
       None \<Rightarrow> Inr (StopUnassigned, st)
     | Some r \<Rightarrow>
       if run_id r \<noteq> rid \<or> (microvm_id r \<noteq> [] \<and> microvm_id r \<noteq> vm)
       then Inr (StopUnassigned, st)
       else let r' = r\<lparr>microvm_id := vm\<rparr> in
         if run_unauthorized st r current now \<or> phase r = Stopping
         then Inr (StopUnassigned, st\<lparr>run := Some (r'\<lparr>phase := Stopping\<rparr>)\<rparr>)
         else if current = LifecycleUnavailable \<or> \<not> host_running
         then Inr (PendingVerification, st\<lparr>run := Some r'\<rparr>)
         else if microvm_id r = vm \<and> phase r = Running
         then Inr (AlreadyKnown, st\<lparr>run := Some r'\<rparr>)
         else Inr (Accepted, st\<lparr>run := Some (r'\<lparr>phase := Running\<rparr>)\<rparr>))"

definition fence_run :: "controller_state \<Rightarrow> current_lifecycle \<Rightarrow> int \<Rightarrow> controller_state" where
  "fence_run st current now =
    (case run st of
       None \<Rightarrow> st
     | Some r \<Rightarrow> if run_unauthorized st r current now
                 then st\<lparr>run := Some (r\<lparr>phase := Stopping\<rparr>)\<rparr> else st)"

definition confirm_run_stopped ::
  "controller_state \<Rightarrow> string \<Rightarrow> string \<Rightarrow> bool \<times> controller_state" where
  "confirm_run_stopped st rid vm =
    (case run st of
       None \<Rightarrow> (False, st)
     | Some r \<Rightarrow>
       if run_id r \<noteq> rid \<or> phase r \<noteq> Stopping \<or> microvm_id r = [] \<or> microvm_id r \<noteq> vm
       then (False, st) else (True, st\<lparr>run := None\<rparr>))"

section \<open>Release numbers\<close>

text \<open>Reference reading of a release: its dot-separated parts.\<close>

fun dotted :: "string list \<Rightarrow> string" where
  "dotted [] = []"
| "dotted [p] = p"
| "dotted (p # ps) = p @ CHR ''.'' # dotted ps"

lemma canonical_no_dot:
  assumes "canonical_number p"
  shows "CHR ''.'' \<notin> set p"
proof -
  have "CHR ''.'' \<notin> set digit_chars" by (simp add: digit_chars_def)
  moreover from assms have "\<forall>c \<in> set p. c \<in> set digit_chars"
    by (simp add: canonical_number_def only_of_def list_all_iff)
  ultimately show ?thesis by blast
qed

lemma takeWhile_no_dot:
  "CHR ''.'' \<notin> set p \<Longrightarrow> takeWhile (\<lambda>c. c \<noteq> CHR ''.'') (p @ CHR ''.'' # rest) = p"
  "CHR ''.'' \<notin> set p \<Longrightarrow> dropWhile (\<lambda>c. c \<noteq> CHR ''.'') (p @ CHR ''.'' # rest) = CHR ''.'' # rest"
  "CHR ''.'' \<notin> set p \<Longrightarrow> takeWhile (\<lambda>c. c \<noteq> CHR ''.'') p = p"
  "CHR ''.'' \<notin> set p \<Longrightarrow> dropWhile (\<lambda>c. c \<noteq> CHR ''.'') p = []"
  by (induction p) (auto simp: takeWhile_eq_all_conv)

lemma dotted_nonempty: "ps \<noteq> [] \<Longrightarrow> list_all canonical_number ps \<Longrightarrow> dotted ps \<noteq> []"
  by (cases ps rule: dotted.cases) (auto simp: canonical_number_def)

lemma length_dotted: "list_all canonical_number ps \<Longrightarrow> length ps \<le> length (dotted ps)"
proof (induction ps rule: dotted.induct)
  case (2 p)
  then show ?case by (cases p) (auto simp: canonical_number_def)
qed auto

lemma valid_release_dotted:
  "ps \<noteq> [] \<Longrightarrow> list_all canonical_number ps \<Longrightarrow>
   valid_release_from k (dotted ps) \<longleftrightarrow> k + of_nat (length ps) = 3"
proof (induction ps arbitrary: k rule: dotted.induct)
  case (2 p)
  then show ?case
    by (subst valid_release_from.simps)
      (auto simp: takeWhile_no_dot canonical_no_dot, auto simp: canonical_number_def)
next
  case (3 p q ps)
  then have "valid_release_from k (dotted (p # q # ps)) = valid_release_from (k + 1) (dotted (q # ps))"
    by (subst valid_release_from.simps) (simp add: takeWhile_no_dot canonical_no_dot)
  with 3 show ?case by (simp add: algebra_simps)
qed simp

lemma valid_release_parts:
  "valid_release_from k s \<Longrightarrow> \<exists>ps. ps \<noteq> [] \<and> list_all canonical_number ps \<and> s = dotted ps"
proof (induction k s rule: valid_release_from.induct)
  case (1 k s)
  let ?p = "takeWhile (\<lambda>c. c \<noteq> CHR ''.'') s" and ?d = "dropWhile (\<lambda>c. c \<noteq> CHR ''.'') s"
  from "1.prems" have s: "s \<noteq> []" and p: "canonical_number ?p"
    by (subst (asm) valid_release_from.simps, simp split: if_splits)+
  show ?case
  proof (cases ?d)
    case Nil
    then have "?p = s" by (metis append_Nil2 takeWhile_dropWhile_id)
    with p show ?thesis by (intro exI [of _ "[s]"]) simp
  next
    case (Cons c rest)
    then have c: "c = CHR ''.''" using hd_dropWhile [of "\<lambda>c. c \<noteq> CHR ''.''" s] by simp
    from "1.prems" s p Cons have "valid_release_from (k + 1) rest"
      by (subst (asm) valid_release_from.simps) simp
    with "1.IH" [OF s _ Cons] p
    obtain qs where qs: "qs \<noteq> []" "list_all canonical_number qs" "rest = dotted qs"
      by blast
    have "s = ?p @ c # rest" using Cons by (metis takeWhile_dropWhile_id)
    also have "\<dots> = dotted (?p # qs)" using qs c by (cases qs) auto
    finally show ?thesis using p qs by (intro exI [of _ "?p # qs"]) simp
  qed
qed

section \<open>The controller as an event system\<close>

datatype controller_event =
  Observe projection_observation int int
| Reserve current_lifecycle int string string string
| Launched string string bool current_lifecycle int
| Fence current_lifecycle int
| Stopped string string

inductive controller_step ::
  "controller_state \<Rightarrow> controller_event \<Rightarrow> controller_state \<Rightarrow> bool" where
  observe: "observe_activation (activation s) obs now budget new_id (w :: string list) =
       (Inr (ch, a), w') \<Longrightarrow> 0 < now \<Longrightarrow>
     controller_step s (Observe obs now budget) (s\<lparr>activation := a\<rparr>)"
| reserve: "reserve_run s current now rid rel req = Inr (ok, t) \<Longrightarrow>
     controller_step s (Reserve current now rid rel req) t"
| launched: "accept_launch s rid vm host_running current now = Inr (res, t) \<Longrightarrow>
     controller_step s (Launched rid vm host_running current now) t"
| fence: "controller_step s (Fence current now) (fence_run s current now)"
| stopped: "confirm_run_stopped s rid vm = (ok, t) \<Longrightarrow> controller_step s (Stopped rid vm) t"

inductive_cases controller_observeE [elim!]: "controller_step s (Observe obs now budget) t"
inductive_cases controller_reserveE [elim!]: "controller_step s (Reserve current now rid rel req) t"
inductive_cases controller_launchedE [elim!]:
  "controller_step s (Launched rid vm host_running current now) t"
inductive_cases controller_fenceE [elim!]: "controller_step s (Fence current now) t"
inductive_cases controller_stoppedE [elim!]: "controller_step s (Stopped rid vm) t"

definition initial_controller_state :: controller_state where
  "initial_controller_state = \<lparr>activation = initial_activation_state, run = None\<rparr>"

definition run_ok :: "run_reservation \<Rightarrow> bool" where
  "run_ok r \<longleftrightarrow> valid_identity (run_id r) \<and> valid_release (release r) \<and> request r \<noteq> [] \<and>
     length (request r) \<le> 2048 \<and> (phase r = Running \<longrightarrow> microvm_id r \<noteq> [])"

definition controller_wf :: "controller_state \<Rightarrow> bool" where
  "controller_wf s \<longleftrightarrow> activation_wf (activation s) \<and>
     (\<forall>r. run s = Some r \<longrightarrow> run_ok r \<and> activation_of (activation s) \<noteq> None)"

lemma initial_controller_wf [simp]: "controller_wf initial_controller_state"
  by (simp add: controller_wf_def initial_controller_state_def)

lemmas controller_defs = reserve_run_def accept_launch_def fence_run_def confirm_run_stopped_def

lemma observe_keeps_some:
  assumes "observe_activation st obs now budget new_id w = (Inr (ch, st'), w')"
    and "activation_of st \<noteq> None"
  shows "activation_of st' \<noteq> None"
  using observe_activationD [OF assms(1)] assms(2)
  by (cases "ch = Activated") (auto simp: observes_other elim!: observes_activatedE split: if_splits)

lemma controller_step_wf [inv_intros]:
  assumes "controller_step s e t" and "controller_wf s"
  shows "controller_wf t"
  using assms
proof (induction rule: controller_step.induct)
  case (observe s obs now budget new_id w ch a w')
  have "activation_wf a"
    using observe observes_wf [OF observe_activationD [OF observe(1)]] by (simp add: controller_wf_def)
  with observe observe_keeps_some [OF observe(1)] show ?case
    by (auto simp: controller_wf_def)
next
  case (reserve s current now rid rel req ok t)
  then show ?case
    by (auto simp: controller_wf_def run_ok_def reserve_run_def activation_authorized_def
        split: if_splits option.splits)
next
  case (launched s rid vm host_running current now res t)
  then show ?case
    by (auto simp: controller_wf_def run_ok_def accept_launch_def Let_def
        split: if_splits option.splits)
next
  case (fence s current now)
  then show ?case
    by (auto simp: controller_wf_def run_ok_def fence_run_def split: option.splits)
next
  case (stopped s rid vm ok t)
  then show ?case
    by (auto simp: controller_wf_def confirm_run_stopped_def split: if_splits option.splits)
qed

interpretation controller_life: event_system
  "\<lambda>s. s = initial_controller_state" controller_step controller_wf
  by unfold_locales (auto intro: controller_step_wf)

text \<open>A run that is stopping stays so, under the same identity, until it is confirmed stopped.\<close>

definition stopping_run :: "string \<Rightarrow> controller_state \<Rightarrow> bool" where
  "stopping_run rid s \<longleftrightarrow> (\<exists>r. run s = Some r \<and> run_id r = rid \<and> phase r = Stopping)"

lemma controller_step_stopping:
  "controller_step s e t \<Longrightarrow> stopping_run rid s \<Longrightarrow> (\<forall>vm. e \<noteq> Stopped rid vm) \<Longrightarrow> stopping_run rid t"
  by (induction rule: controller_step.induct)
    (auto simp: stopping_run_def controller_defs Let_def split: if_splits option.splits)

interpretation controller_stopping: latching_system
  controller_step "stopping_run rid" "\<lambda>e. \<exists>vm. e = Stopped rid vm" for rid
  by unfold_locales (auto intro: controller_step_stopping)

text \<open>The steps that can put a run into the running phase.\<close>

definition accepts :: "controller_state \<Rightarrow> run_reservation \<Rightarrow> controller_event \<Rightarrow> bool" where
  "accepts s r e \<longleftrightarrow> (\<exists>now. e = Launched (run_id r) (microvm_id r) True LifecycleActive now \<and>
     activation_authorized (activation s) now \<and>
     map_option act_id (activation_of (activation s)) = Some (activation_id r))"

lemma accept_launch_running:
  assumes "accept_launch s rid vm host_running current now = Inr (res, t)" and "controller_wf s"
    and "run t = Some r" and "phase r = Running"
  shows "run s = Some r \<or> accepts s r (Launched rid vm host_running current now)"
proof (cases "run s")
  case None
  with assms show ?thesis by (simp add: accept_launch_def split: if_splits)
next
  case (Some q)
  with assms(2) have "phase q = Running \<Longrightarrow> microvm_id q \<noteq> []"
    by (simp add: controller_wf_def run_ok_def)
  with Some assms(1,3,4) show ?thesis
    by (cases current; cases "phase q")
      (auto simp: accept_launch_def accepts_def run_unauthorized_def Let_def split: if_splits)
qed

lemma controller_step_running:
  assumes "controller_step s e t" and "controller_wf s" and "run t = Some r" and "phase r = Running"
  shows "run s = Some r \<or> accepts s r e"
  using assms
proof (induction rule: controller_step.induct)
  case (launched s rid vm host_running current now res t)
  then show ?case by (rule accept_launch_running)
qed (auto simp: controller_defs split: if_splits option.splits)

section \<open>Properties\<close>

text \<open>
  C5. A run is marked running only for an authorized launch.  After any sequence of controller
  operations from an empty record, a reservation in phase \<open>Running\<close> goes back to one accepted
  launch report for exactly that run and MicroVM: the host was running, the lifecycle was verified
  active, and the record authorized that very activation at the time of the report.
\<close>

theorem running_was_accepted:
  assumes "steps controller_step initial_controller_state es t"
    and "run t = Some r" and "phase r = Running"
  shows "\<exists>es1 e es2 s. es = es1 @ e # es2 \<and>
           steps controller_step initial_controller_state es1 s \<and> accepts s r e"
  using assms
proof (induction arbitrary: r rule: steps.induct)
  case (steps_nil)
  then show ?case by (simp add: initial_controller_state_def)
next
  case (steps_snoc es t e u)
  have "controller_wf t" by (rule controller_life.run_inv [OF refl steps_snoc(1)])
  from controller_step_running [OF steps_snoc(2) this steps_snoc.prems] show ?case
  proof
    assume "run t = Some r"
    with steps_snoc.IH steps_snoc.prems obtain es1 e' es2 s where
      "es = es1 @ e' # es2" "steps controller_step initial_controller_state es1 s" "accepts s r e'"
      by blast
    then show ?thesis by fastforce
  next
    assume "accepts t r e"
    with steps_snoc(1) show ?thesis by blast
  qed
qed

definition sample_run_reservation :: "run_phase \<Rightarrow> string \<Rightarrow> run_reservation" where
  "sample_run_reservation ph vm =
     \<lparr>run_id = ''r1'', activation_id = ''a1'', release = ''1.2.3'', request = ''{}'',
      microvm_id = vm, phase = ph\<rparr>"

definition sample_controller :: "run_reservation option \<Rightarrow> controller_state" where
  "sample_controller r = \<lparr>activation = sample_active_state, run = r\<rparr>"

definition sample_events :: "controller_event list" where
  "sample_events =
     [Observe (sample_observation 1 False) 100 3000, Observe (sample_observation 2 True) 105 3000,
      Reserve LifecycleActive 106 ''r1'' ''1.2.3'' ''{}'',
      Launched ''r1'' ''vm1'' True LifecycleActive 110]"

lemmas controller_eval = activation_eval controller_defs run_unauthorized_def
  initial_controller_state_def sample_run_reservation_def sample_controller_def Let_def

lemma valid_release_123: "valid_release ''1.2.3''"
  by (simp add: valid_release_def valid_release_from.simps canonical_number_def only_of_def
      digit_chars_def)

lemma sample_events_run:
  "steps controller_step initial_controller_state sample_events
     (sample_controller (Some (sample_run_reservation Running ''vm1'')))"
proof -
  let ?idle = "\<lparr>activation = initial_activation_state\<lparr>projection_version := 1,
       source_timestamp_ms := 1, inactive_observed_at := 100, observed := True\<rparr>, run = None\<rparr>"
  have s1: "controller_step initial_controller_state (Observe (sample_observation 1 False) 100 3000)
      ?idle"
    using controller_step.observe [where new_id = None and s = initial_controller_state and w = "[]"
        and obs = "sample_observation 1 False" and now = 100 and budget = 3000]
    by (simp add: controller_eval io_simps)
  have s2: "controller_step ?idle (Observe (sample_observation 2 True) 105 3000)
      (sample_controller None)"
    using controller_step.observe [where new_id = "Some (io_return ''a1'')" and s = "?idle"
        and w = "[]" and obs = "sample_observation 2 True" and now = 105 and budget = 3000]
    by (simp add: controller_eval io_simps io_bind_def)
  have s3: "controller_step (sample_controller None)
      (Reserve LifecycleActive 106 ''r1'' ''1.2.3'' ''{}'')
      (sample_controller (Some (sample_run_reservation Reserved [])))"
    by (rule controller_step.reserve [where ok = True])
      (simp add: controller_eval valid_release_123)
  have s4: "controller_step (sample_controller (Some (sample_run_reservation Reserved [])))
      (Launched ''r1'' ''vm1'' True LifecycleActive 110)
      (sample_controller (Some (sample_run_reservation Running ''vm1'')))"
    by (rule controller_step.launched [where res = Accepted]) (simp add: controller_eval)
  show ?thesis
    unfolding sample_events_def
    by (intro steps_Cons [of controller_step, OF s1] steps_Cons [of controller_step, OF s2]
        steps_Cons [of controller_step, OF s3] steps_Cons [of controller_step, OF s4] steps_nil)
qed

theorem running_was_accepted_witness:
  "\<exists>es1 e es2 s. sample_events = es1 @ e # es2 \<and>
     steps controller_step initial_controller_state es1 s \<and>
     accepts s (sample_run_reservation Running ''vm1'') e"
  by (rule running_was_accepted [OF sample_events_run])
    (simp_all add: sample_controller_def sample_run_reservation_def)

text \<open>
  C6. Stopping is final.  Once a run is stopping, no sequence of operations that does not confirm
  the stop of that very run can release it, replace it or let it run again, whatever is observed,
  reserved, reported or fenced in between; and every record on the way satisfies the consistency
  conditions of persisted records.
\<close>

theorem stopping_is_final:
  assumes "steps controller_step s es t" and "controller_wf s" and "stopping_run rid s"
    and "list_all (\<lambda>e. \<not> (\<exists>vm. e = Stopped rid vm)) es"
  shows "stopping_run rid t \<and> controller_wf t"
  using controller_stopping.steps_latched [OF assms(1,3,4)] controller_life.steps_inv [OF assms(1,2)]
  by blast

theorem stopping_is_final_witness:
  "stopping_run ''r1'' (fence_run (sample_controller (Some (sample_run_reservation Stopping ''vm1'')))
      LifecycleActive 110)"
proof -
  let ?s = "sample_controller (Some (sample_run_reservation Stopping ''vm1''))"
  have "controller_wf ?s"
    by (simp add: controller_wf_def run_ok_def controller_eval activation_wf_def activation_ok_def
        valid_release_123)
  moreover have "stopping_run ''r1'' ?s"
    by (simp add: stopping_run_def sample_controller_def sample_run_reservation_def)
  ultimately show ?thesis
    using stopping_is_final [of ?s "[Fence LifecycleActive 110]" "fence_run ?s LifecycleActive 110"
        "''r1''"] steps_single [of controller_step, OF controller_step.fence] by simp
qed



text \<open>
  Release numbers.  On texts shorter than the range of its part counter, \<open>valid_release\<close>
  accepts exactly three dot-separated decimal numbers without superfluous leading zeros.
\<close>

theorem valid_release_iff:
  assumes "length s < 2 ^ 32"
  shows "valid_release s \<longleftrightarrow>
     (\<exists>a b c. s = a @ ''.'' @ b @ ''.'' @ c \<and>
        canonical_number a \<and> canonical_number b \<and> canonical_number c)"
proof
  assume s: "valid_release s"
  then obtain ps where ps: "ps \<noteq> []" "list_all canonical_number ps" "s = dotted ps"
    using valid_release_parts unfolding valid_release_def by blast
  with s have three: "(of_nat (length ps) :: u32) = of_nat 3"
    using valid_release_dotted [of ps 0] by (simp add: valid_release_def)
  from ps assms length_dotted [of ps] have "length ps < 2 ^ 32" by simp
  with three have "length ps = 3"
    by (intro of_nat_word_inj [where 'a = 32]) simp_all
  then obtain a b c where "ps = [a, b, c]"
    by (auto simp: numeral_3_eq_3 length_Suc_conv)
  with ps show "\<exists>a b c. s = a @ ''.'' @ b @ ''.'' @ c \<and>
        canonical_number a \<and> canonical_number b \<and> canonical_number c"
    by (intro exI [of _ a] exI [of _ b] exI [of _ c]) simp
next
  assume "\<exists>a b c. s = a @ ''.'' @ b @ ''.'' @ c \<and>
        canonical_number a \<and> canonical_number b \<and> canonical_number c"
  then obtain a b c where "s = dotted [a, b, c]" "list_all canonical_number [a, b, c]"
    by fastforce
  then show "valid_release s"
    using valid_release_dotted [of "[a, b, c]" 0] by (simp add: valid_release_def)
qed

theorem valid_release_iff_witness: "valid_release ''10.0.7'' \<and> \<not> valid_release ''1.02.3''"
  using valid_release_iff [of "''10.0.7''"]
  by (simp add: valid_release_def valid_release_from.simps canonical_number_def only_of_def
      digit_chars_def)

end
