(* ===== verification/Reconcile.thy ===== *)
theory Reconcile
  imports Controller
begin

text \<open>
  Model of one reconciliation pass, \<^verbatim>\<open>reconcile\<close> in \<^verbatim>\<open>src/agent/src/reconcile.cpp\<close>, statement by
  statement: read the record, observe the lifecycle, fence, reserve, save conditionally, and only
  then launch, inspect or terminate a MicroVM.  Every call of the \<^verbatim>\<open>ReconcileBackend\<close>, of the wall
  clock and of the steady clock is recorded with its outcome; a backend answers as an arbitrary
  function of the calls made so far, so it may fail or lie at any point.
\<close>

section \<open>Data\<close>

record controller_snapshot =
  shadow_version :: int
  verified_at :: int
  unverified_since :: int
  stop_requested_at :: int
  last_error :: string
  state :: controller_state

record cloud_run =
  host_id :: string
  host_state :: string
  host_endpoint :: string

datatype reconcile_result = Settled | Again | Conflict

datatype (discs_sels) call =
  Read "exn + controller_snapshot"
| Save controller_snapshot int int "exn + bool"
| Supported "exn + bool option"
| Projection "exn + projection_observation option"
| RuntimeVerified controller_snapshot "exn + bool option"
| Identity "exn + string"
| Request string activation int "exn + string"
| Launch run_reservation "exn + cloud_run"
| Get string "exn + cloud_run"
| Terminate string "exn + unit"
| Clock "exn + int"
| Steady "exn + int"

type_synonym history = "call list"

record reconcile_backend =
  on_read :: "history \<Rightarrow> exn + controller_snapshot"
  on_save :: "history \<Rightarrow> controller_snapshot \<Rightarrow> int \<Rightarrow> int \<Rightarrow> exn + bool"
  on_supported :: "history \<Rightarrow> exn + bool option"
  on_projection :: "history \<Rightarrow> exn + projection_observation option"
  on_runtime_verified :: "history \<Rightarrow> controller_snapshot \<Rightarrow> exn + bool option"
  on_identity :: "history \<Rightarrow> exn + string"
  on_request :: "history \<Rightarrow> string \<Rightarrow> activation \<Rightarrow> int \<Rightarrow> exn + string"
  on_launch :: "history \<Rightarrow> run_reservation \<Rightarrow> exn + cloud_run"
  on_get :: "history \<Rightarrow> string \<Rightarrow> exn + cloud_run"
  on_terminate :: "history \<Rightarrow> string \<Rightarrow> exn + unit"
  on_clock :: "(history \<Rightarrow> exn + int) option"
  on_steady :: "history \<Rightarrow> int"

section \<open>Calls\<close>

definition call_read :: "reconcile_backend \<Rightarrow> (history, controller_snapshot) io" where
  "call_read b = io_call (on_read b) Read"

definition call_save ::
  "reconcile_backend \<Rightarrow> controller_snapshot \<Rightarrow> int \<Rightarrow> int \<Rightarrow> (history, bool) io" where
  "call_save b s now v = io_call (\<lambda>h. on_save b h s now v) (Save s now v)"

definition call_supported :: "reconcile_backend \<Rightarrow> (history, bool option) io" where
  "call_supported b = io_call (on_supported b) Supported"

definition call_projection :: "reconcile_backend \<Rightarrow> (history, projection_observation option) io" where
  "call_projection b = io_call (on_projection b) Projection"

definition call_runtime_verified ::
  "reconcile_backend \<Rightarrow> controller_snapshot \<Rightarrow> (history, bool option) io" where
  "call_runtime_verified b s = io_call (\<lambda>h. on_runtime_verified b h s) (RuntimeVerified s)"

definition call_identity :: "reconcile_backend \<Rightarrow> (history, string) io" where
  "call_identity b = io_call (on_identity b) Identity"

definition call_request ::
  "reconcile_backend \<Rightarrow> string \<Rightarrow> activation \<Rightarrow> int \<Rightarrow> (history, string) io" where
  "call_request b rid a now = io_call (\<lambda>h. on_request b h rid a now) (Request rid a now)"

definition call_launch :: "reconcile_backend \<Rightarrow> run_reservation \<Rightarrow> (history, cloud_run) io" where
  "call_launch b r = io_call (\<lambda>h. on_launch b h r) (Launch r)"

definition call_get :: "reconcile_backend \<Rightarrow> string \<Rightarrow> (history, cloud_run) io" where
  "call_get b vm = io_call (\<lambda>h. on_get b h vm) (Get vm)"

definition call_terminate :: "reconcile_backend \<Rightarrow> string \<Rightarrow> (history, unit) io" where
  "call_terminate b vm = io_call (\<lambda>h. on_terminate b h vm) (Terminate vm)"

definition call_steady :: "reconcile_backend \<Rightarrow> (history, int) io" where
  "call_steady b = io_call (\<lambda>h. Inr (on_steady b h)) Steady"

text \<open>The two anchors of \<^verbatim>\<open>current_time\<close>: wall clock in seconds, steady clock in nanoseconds.\<close>

record anchors =
  anchor_wall :: int
  anchor_steady :: int

text \<open>\<^verbatim>\<open>duration_cast<seconds>\<close> truncates towards zero.\<close>

definition cast_seconds :: "int \<Rightarrow> int" where
  "cast_seconds ns = (if 0 \<le> ns then ns div 1000000000 else - ((- ns) div 1000000000))"

definition sample_clock :: "reconcile_backend \<Rightarrow> int \<Rightarrow> (history, int) io" where
  "sample_clock b now =
     (case on_clock b of None \<Rightarrow> io_return now | Some clock \<Rightarrow> io_call clock Clock)"

definition current_time :: "reconcile_backend \<Rightarrow> int \<Rightarrow> anchors \<Rightarrow> (history, int \<times> anchors) io" where
  "current_time b now anc =
     io_bind (sample_clock b now) (\<lambda>sampled.
       if sampled \<le> 0 then io_throw (RuntimeError ''controller clock unavailable'')
       else io_bind (call_steady b) (\<lambda>steady_now.
         let elapsed = cast_seconds (steady_now - anchor_steady anc) in
         if elapsed < 0 \<or> anchor_wall anc > INT64_MAX - elapsed
         then io_throw (RuntimeError ''controller clock overflow'')
         else let projected = anchor_wall anc + elapsed in
           if sampled > projected
           then io_return (sampled, \<lparr>anchor_wall = sampled, anchor_steady = steady_now\<rparr>)
           else io_return (projected, anc)))"

section \<open>One pass\<close>

definition with_run :: "controller_snapshot \<Rightarrow> run_reservation option \<Rightarrow> controller_snapshot" where
  "with_run s r = s\<lparr>state := (state s)\<lparr>run := r\<rparr>\<rparr>"

text \<open>\<^verbatim>\<open>state.run->phase = RunPhase::stopping\<close>, for a record that has a run.\<close>

definition stop_run :: "controller_snapshot \<Rightarrow> controller_snapshot" where
  "stop_run s = with_run s (map_option (\<lambda>r. r\<lparr>phase := Stopping\<rparr>) (run (state s)))"

abbreviation runs :: "controller_snapshot \<Rightarrow> string \<Rightarrow> bool" where
  "runs s rid \<equiv> map_option run_id (run (state s)) = Some rid"

abbreviation runs_on :: "controller_snapshot \<Rightarrow> string \<Rightarrow> string \<Rightarrow> bool" where
  "runs_on s rid vm \<equiv>
     map_option (\<lambda>r. (run_id r, microvm_id r)) (run (state s)) = Some (rid, vm)"

text \<open>Lines 25 to 37: what the registry and the projection say now.\<close>

definition observe_lifecycle ::
  "reconcile_backend \<Rightarrow> int \<Rightarrow> int \<Rightarrow> controller_snapshot \<Rightarrow>
   (history, controller_snapshot \<times> current_lifecycle \<times> bool option) io" where
  "observe_lifecycle b now budget s =
     io_bind (call_supported b) (\<lambda>supports.
       if supports = None then io_return (s, LifecycleUnavailable, supports)
       else if supports = Some False then io_return (s, LifecycleInactive, supports)
       else io_bind (call_projection b) (\<lambda>projection.
         case projection of None \<Rightarrow> io_return (s, LifecycleUnavailable, supports)
         | Some obs \<Rightarrow>
           case obs_active obs of None \<Rightarrow> io_return (s, LifecycleUnavailable, supports)
           | Some act \<Rightarrow>
             io_bind (observe_activation (activation (state s)) obs now budget
                        (Some (call_identity b))) (\<lambda>(change, a).
               let s' = s\<lparr>state := (state s)\<lparr>activation := a\<rparr>\<rparr> in
               if change \<noteq> Unverified \<and> change \<noteq> Stale
               then io_return (s'\<lparr>verified_at := now\<rparr>,
                      (if act then LifecycleActive else LifecycleInactive), supports)
               else io_return (s', LifecycleUnavailable, supports))))"

text \<open>Lines 38 to 40.\<close>

definition describe_error ::
  "controller_snapshot \<Rightarrow> current_lifecycle \<Rightarrow> bool option \<Rightarrow> controller_snapshot" where
  "describe_error s current supports =
     s\<lparr>last_error :=
        (if current = LifecycleUnavailable
         then ''registry or lifecycle verification unavailable or stale''
         else if supports = Some False then ''agent capability is not declared''
         else [])\<rparr>"

text \<open>
  Lines 41 to 57: a run whose lifecycle cannot be verified is stopped 15 seconds after the first
  failed verification, unless the runtime itself proves that it still verifies.
\<close>

definition may_defer ::
  "reconcile_backend \<Rightarrow> controller_snapshot \<Rightarrow> run_reservation \<Rightarrow> int \<Rightarrow> (history, bool) io" where
  "may_defer b s r t =
     (if phase r = Running \<and> activation_authorized (activation (state s)) t
      then io_bind (call_runtime_verified b s) (\<lambda>v. io_return (v = Some True))
      else io_return False)"

definition check_unverified ::
  "reconcile_backend \<Rightarrow> int \<Rightarrow> anchors \<Rightarrow> controller_snapshot \<Rightarrow> current_lifecycle \<Rightarrow>
   (history, controller_snapshot \<times> int \<times> anchors) io" where
  "check_unverified b now anc s current =
     (case (current, run (state s)) of
        (LifecycleUnavailable, Some r) \<Rightarrow>
          io_bind (current_time b now anc) (\<lambda>(t, anc).
            if unverified_since s = 0 then io_return (s\<lparr>unverified_since := t\<rparr>, t, anc)
            else if t < unverified_since s then io_return (stop_run s, t, anc)
            else if t - unverified_since s \<ge> 15 then
              io_bind (may_defer b s r t) (\<lambda>defer.
                io_bind (current_time b now anc) (\<lambda>(t, anc).
                  io_return (if defer then s else stop_run s, t, anc)))
            else io_return (s, t, anc))
      | _ \<Rightarrow> io_return (s\<lparr>unverified_since := 0\<rparr>, now, anc))"

text \<open>Lines 58 to 73: fence the run, and drop one that a new activation supersedes.\<close>

definition superseded :: "controller_state \<Rightarrow> current_lifecycle \<Rightarrow> int \<Rightarrow> bool" where
  "superseded st current t \<longleftrightarrow>
     (case run st of None \<Rightarrow> False
      | Some r \<Rightarrow> phase r = Stopping \<and> microvm_id r = [] \<and> current = LifecycleActive \<and>
          activation_authorized (activation st) t \<and>
          map_option act_id (activation_of (activation st)) \<noteq> Some (activation_id r))"

definition fence_decision ::
  "controller_snapshot \<Rightarrow> current_lifecycle \<Rightarrow> int \<Rightarrow> controller_snapshot" where
  "fence_decision s current t =
     (let s1 = (if verified_at s > t then (stop_run s)\<lparr>verified_at := 0\<rparr> else s);
          s2 = s1\<lparr>state := fence_run (state s1) current t\<rparr>
      in if superseded (state s2) current t
         then (with_run s2 None)\<lparr>stop_requested_at := 0\<rparr> else s2)"

text \<open>
  Lines 74 to 78: reserve a run for an authorized activation.  The activation that the source
  dereferences exists because the authority test has passed.
\<close>

definition reserve_next ::
  "reconcile_backend \<Rightarrow> string \<Rightarrow> controller_snapshot \<Rightarrow> current_lifecycle \<Rightarrow> int \<Rightarrow>
   (history, controller_snapshot) io" where
  "reserve_next b rel s current t =
     (case (run (state s), activation_of (activation (state s))) of
        (None, Some a) \<Rightarrow>
          if current = LifecycleActive \<and> activation_authorized (activation (state s)) t then
            io_bind (call_identity b) (\<lambda>rid.
              io_bind (call_request b rid a t) (\<lambda>exact.
                case reserve_run (state s) current t rid rel exact of
                  Inl e \<Rightarrow> io_throw e
                | Inr (ok, st) \<Rightarrow> io_return (s\<lparr>state := st\<rparr>)))
          else io_return s
      | _ \<Rightarrow> io_return s)"

text \<open>Lines 101 to 114: record the launched MicroVM, with at most three attempts.\<close>

fun record_launch ::
  "reconcile_backend \<Rightarrow> int \<Rightarrow> run_reservation \<Rightarrow> string \<Rightarrow> nat \<Rightarrow> anchors \<Rightarrow>
   (history, reconcile_result) io" where
  "record_launch b now saved vm 0 anc = io_return Conflict"
| "record_launch b now saved vm (Suc attempts) anc =
     io_bind (call_read b) (\<lambda>latest.
       io_bind (current_time b now anc) (\<lambda>(t, anc).
         case accept_launch (state latest) (run_id saved) vm False LifecycleUnavailable t of
           Inl e \<Rightarrow> io_throw e
         | Inr (res, st) \<Rightarrow>
             let latest = latest\<lparr>state := st\<rparr> in
             if res = StopUnassigned \<and>
                (case run st of None \<Rightarrow> False
                 | Some r \<Rightarrow> run_id r \<noteq> run_id saved \<and> microvm_id r = vm)
             then io_return Again
             else io_bind (call_save b latest t (verified_at latest)) (\<lambda>ok.
               if \<not> ok then record_launch b now saved vm attempts anc
               else if res = StopUnassigned
               then io_bind (call_terminate b vm) (\<lambda>_. io_return Again)
               else io_return Again)))"

text \<open>Lines 83 to 115: the saved run has no MicroVM yet.\<close>

definition launch_reserved ::
  "reconcile_backend \<Rightarrow> int \<Rightarrow> anchors \<Rightarrow> controller_snapshot \<Rightarrow> current_lifecycle \<Rightarrow>
   run_reservation \<Rightarrow> (history, reconcile_result) io" where
  "launch_reserved b now anc s current saved =
     (if phase saved = Stopping \<or> current \<noteq> LifecycleActive then io_return Settled
      else io_bind (current_time b now anc) (\<lambda>(t, anc).
        if \<not> activation_authorized (activation (state s)) t then
          io_bind (call_read b) (\<lambda>latest.
            if \<not> runs latest (run_id saved) then io_return Again
            else let latest = stop_run latest in
              io_bind (call_save b latest t (verified_at latest)) (\<lambda>ok.
                io_return (if ok then Again else Conflict)))
        else io_bind (call_launch b saved) (\<lambda>launched.
          if host_id launched = []
          then io_throw (RuntimeError ''RunMicrovm returned no identity'')
          else record_launch b now saved (host_id launched) 3 anc)))"

text \<open>Lines 119 to 132: the host is gone; clear the run unless the record has moved on.\<close>

definition clear_terminated ::
  "reconcile_backend \<Rightarrow> int \<Rightarrow> controller_snapshot \<Rightarrow> run_reservation \<Rightarrow>
   (history, reconcile_result) io" where
  "clear_terminated b now s saved =
     (if \<not> fst (confirm_run_stopped (state (stop_run s)) (run_id saved) (microvm_id saved))
      then io_throw (LogicError ''could not clear terminal run'')
      else io_bind (call_read b) (\<lambda>latest.
        if \<not> runs_on latest (run_id saved) (microvm_id saved) then io_return Again
        else let latest = stop_run latest;
                 latest = latest\<lparr>state := snd (confirm_run_stopped (state latest) (run_id saved)
                                                 (microvm_id saved))\<rparr> in
          io_bind (call_save b latest now (verified_at latest)) (\<lambda>ok.
            io_return (if ok then Again else Conflict))))"

text \<open>Lines 133 to 142: the host suspends or terminates under a live run.\<close>

definition stop_suspended ::
  "reconcile_backend \<Rightarrow> int \<Rightarrow> run_reservation \<Rightarrow> string \<Rightarrow> (history, reconcile_result) io" where
  "stop_suspended b now saved hstate =
     io_bind (call_read b) (\<lambda>latest.
       if \<not> runs_on latest (run_id saved) (microvm_id saved) then io_return Again
       else let latest = stop_run latest in
         io_bind (call_save b latest now (verified_at latest)) (\<lambda>ok.
           if \<not> ok then io_return Conflict
           else if hstate \<noteq> ''TERMINATING''
           then io_bind (call_terminate b (microvm_id saved)) (\<lambda>_. io_return Again)
           else io_return Again))"

text \<open>Lines 147 to 169: the host runs; verify once more, then mark the run as running.\<close>

definition still_projected ::
  "controller_snapshot \<Rightarrow> bool option \<Rightarrow> projection_observation option \<Rightarrow> bool" where
  "still_projected s supports fresh \<longleftrightarrow>
     supports = Some True \<and>
     (case fresh of None \<Rightarrow> False
      | Some obs \<Rightarrow> obs_active obs = Some True \<and>
          obs_version obs = projection_version (activation (state s)) \<and>
          obs_source_timestamp_ms obs = source_timestamp_ms (activation (state s)))"

definition finish_assignment ::
  "reconcile_backend \<Rightarrow> controller_snapshot \<Rightarrow> run_reservation \<Rightarrow> current_lifecycle \<Rightarrow> int \<Rightarrow> int \<Rightarrow>
   (history, reconcile_result) io" where
  "finish_assignment b latest saved current assigned verified =
     (case accept_launch (state latest) (run_id saved) (microvm_id saved) True current assigned of
        Inl e \<Rightarrow> io_throw e
      | Inr (res, st) \<Rightarrow>
          io_bind (call_save b (latest\<lparr>state := st\<rparr>) assigned verified) (\<lambda>ok.
            if \<not> ok then io_return Conflict
            else if res = StopUnassigned
            then io_bind (call_terminate b (microvm_id saved)) (\<lambda>_. io_return Again)
            else io_return Again))"

definition assign_running ::
  "reconcile_backend \<Rightarrow> int \<Rightarrow> anchors \<Rightarrow> controller_snapshot \<Rightarrow> current_lifecycle \<Rightarrow>
   run_reservation \<Rightarrow> (history, reconcile_result) io" where
  "assign_running b now anc s current saved =
     io_bind (call_supported b) (\<lambda>supports.
       io_bind (call_projection b) (\<lambda>fresh.
         if \<not> still_projected s supports fresh then io_return Again
         else io_bind (current_time b now anc) (\<lambda>(verified, anc).
           io_bind (call_read b) (\<lambda>latest.
             if \<not> runs latest (run_id saved) \<or>
                projection_version (activation (state latest)) \<noteq>
                  projection_version (activation (state s))
             then io_return Again
             else io_bind (current_time b now anc) (\<lambda>(assigned, anc).
               if assigned - verified \<ge> 15 \<and>
                  activation_authorized (activation (state latest)) assigned
               then io_return Again
               else finish_assignment b latest saved current assigned verified)))))"

text \<open>Lines 117 to 170: the saved run names a MicroVM.\<close>

definition inspect_host ::
  "reconcile_backend \<Rightarrow> int \<Rightarrow> anchors \<Rightarrow> controller_snapshot \<Rightarrow> current_lifecycle \<Rightarrow>
   run_reservation \<Rightarrow> (history, reconcile_result) io" where
  "inspect_host b now anc s current saved =
     io_bind (call_get b (microvm_id saved)) (\<lambda>host.
       if host_id host \<noteq> microvm_id saved
       then io_throw (RuntimeError ''MicroVM lookup returned wrong identity'')
       else if host_state host = ''TERMINATED'' then clear_terminated b now s saved
       else if phase saved \<noteq> Stopping \<and>
               (host_state host = ''SUSPENDED'' \<or> host_state host = ''SUSPENDING'' \<or>
                host_state host = ''TERMINATING'')
       then stop_suspended b now saved (host_state host)
       else if phase saved = Stopping then
         (if host_state host \<noteq> ''TERMINATING''
          then io_bind (call_terminate b (microvm_id saved)) (\<lambda>_. io_return Again)
          else io_return Again)
       else if phase saved = Reserved \<and> host_state host = ''RUNNING'' \<and> current = LifecycleActive
       then assign_running b now anc s current saved
       else io_return (if phase saved = Reserved then Again else Settled))"

text \<open>Lines 79 to 171: commit the decision, then act on what was committed.\<close>

definition save_and_act ::
  "reconcile_backend \<Rightarrow> int \<Rightarrow> anchors \<Rightarrow> controller_snapshot \<Rightarrow> current_lifecycle \<Rightarrow> int \<Rightarrow>
   (history, reconcile_result) io" where
  "save_and_act b now anc s current t =
     io_bind (call_save b s t (verified_at s)) (\<lambda>ok.
       if \<not> ok then io_return Conflict
       else case run (state s) of None \<Rightarrow> io_return Settled
       | Some saved \<Rightarrow>
           if microvm_id saved = [] then launch_reserved b now anc s current saved
           else inspect_host b now anc s current saved)"

definition reconcile ::
  "reconcile_backend \<Rightarrow> int \<Rightarrow> string \<Rightarrow> int \<Rightarrow> (history, reconcile_result) io" where
  "reconcile b now rel budget =
     (if now \<le> 0 \<or> rel = [] \<or> budget < 1 \<or> budget > 3000
      then io_throw (InvalidArgument
        ''reconciliation requires time, release and a 1-3000 second activation budget'')
      else io_bind (call_steady b) (\<lambda>steady.
        io_bind (call_read b) (\<lambda>s.
          io_bind (observe_lifecycle b now budget s) (\<lambda>(s, current, supports).
            io_bind (check_unverified b now \<lparr>anchor_wall = now, anchor_steady = steady\<rparr>
                       (describe_error s current supports) current) (\<lambda>(s, t, anc).
              io_bind (reserve_next b rel (fence_decision s current t) current t) (\<lambda>s.
                save_and_act b now anc s current t))))))"

section \<open>The record between two saves\<close>

text \<open>
  What a pass may do to a record that it has read: the operations of the controller, and dropping
  a reservation that a new activation supersedes.
\<close>

inductive record_step ::
  "controller_state \<Rightarrow> controller_event option \<Rightarrow> controller_state \<Rightarrow> bool" where
  operation: "controller_step st e st' \<Longrightarrow> record_step st (Some e) st'"
| supersede: "superseded st current t \<Longrightarrow> record_step st None (st\<lparr>run := None\<rparr>)"

lemma record_step_wf: "record_step st e st' \<Longrightarrow> controller_wf st \<Longrightarrow> controller_wf st'"
proof (induction rule: record_step.induct)
  case (supersede st current t)
  then show ?case by (simp add: controller_wf_def)
qed (rule controller_step_wf)

interpretation record_life: event_system
  "\<lambda>st. st = initial_controller_state" record_step controller_wf
  by unfold_locales (auto intro: record_step_wf)

definition derived :: "history \<Rightarrow> controller_state \<Rightarrow> bool" where
  "derived h st \<longleftrightarrow> (\<exists>s es. Read (Inr s) \<in> set h \<and> steps record_step (state s) es st)"

lemma derived_read: "Read (Inr s) \<in> set h \<Longrightarrow> derived h (state s)"
  unfolding derived_def by (blast intro: steps_nil)

lemma derived_mono: "derived h st \<Longrightarrow> set h \<subseteq> set h' \<Longrightarrow> derived h' st"
  unfolding derived_def by blast

lemma derived_append: "derived h st \<Longrightarrow> derived (h @ es) st"
  by (erule derived_mono) simp

lemma derived_step: "derived h st \<Longrightarrow> record_step st e st' \<Longrightarrow> derived h st'"
  unfolding derived_def by (blast intro: steps_snoc)

lemma derived_observe:
  "derived h st \<Longrightarrow> observe_activation (activation st) obs now budget new_id w = (Inr (ch, a), w') \<Longrightarrow>
   0 < now \<Longrightarrow> derived h (st\<lparr>activation := a\<rparr>)"
  using observe_activation_world [of "activation st" obs now budget new_id w ch a w' "[] :: string list"]
  by (blast intro: derived_step record_step.operation controller_step.observe)

lemma derived_reserve:
  "derived h st \<Longrightarrow> reserve_run st current now rid rel req = Inr (ok, st') \<Longrightarrow> derived h st'"
  by (blast intro: derived_step record_step.operation controller_step.reserve)

lemma derived_accept:
  "derived h st \<Longrightarrow> accept_launch st rid vm host_running current now = Inr (res, st') \<Longrightarrow> derived h st'"
  by (blast intro: derived_step record_step.operation controller_step.launched)

lemma derived_fence: "derived h st \<Longrightarrow> derived h (fence_run st current now)"
  by (blast intro: derived_step record_step.operation controller_step.fence)

lemma derived_confirm: "derived h st \<Longrightarrow> derived h (snd (confirm_run_stopped st rid vm))"
  by (rule derived_step [OF _ record_step.operation [OF controller_step.stopped [of _ rid vm
          "fst (confirm_run_stopped st rid vm)"]]]) auto

lemma state_stop_run: "state (stop_run s) = fence_run (state s) LifecycleInactive 0"
  by (simp add: stop_run_def with_run_def fence_run_def run_unauthorized_def split: option.split)

lemma derived_stop: "derived h (state s) \<Longrightarrow> derived h (state (stop_run s))"
  by (simp add: state_stop_run derived_fence)

lemma derived_fence_decision:
  "derived h (state s) \<Longrightarrow> derived h (state (fence_decision s current t))"
  unfolding fence_decision_def Let_def
  by (auto simp: with_run_def intro: derived_fence derived_stop derived_step record_step.supersede)

lemmas derived_intros = derived_observe derived_reserve derived_accept derived_fence
  derived_confirm derived_stop derived_fence_decision

section \<open>Reading a history\<close>

definition last_saved :: "history \<Rightarrow> controller_snapshot option" where
  "last_saved h = foldl (\<lambda>acc c. case c of Save s t v res \<Rightarrow> if res = Inr True then Some s else acc
                               | _ \<Rightarrow> acc) None h"

definition last_clock :: "history \<Rightarrow> int option" where
  "last_clock h = foldl (\<lambda>acc c. case c of Clock (Inr t) \<Rightarrow> Some t | _ \<Rightarrow> acc) None h"

lemma last_saved_snoc [simp]:
  "last_saved (h @ [c]) =
     (case c of Save s t v res \<Rightarrow> if res = Inr True then Some s else last_saved h | _ \<Rightarrow> last_saved h)"
  by (cases c) (simp_all add: last_saved_def)

lemma last_saved_None: "list_all (\<lambda>c. \<not> is_Save c) h \<Longrightarrow> last_saved h = None"
  by (induction h rule: rev_induct) (auto simp: last_saved_def split: call.splits)

lemma last_clock_snoc [simp]:
  "last_clock (h @ [c]) = (case c of Clock (Inr t) \<Rightarrow> Some t | _ \<Rightarrow> last_clock h)"
  by (cases c) (simp_all add: last_clock_def split: sum.split)

text \<open>The registry and a projection have said, in this pass, that the device is active.\<close>

definition seen_active :: "history \<Rightarrow> bool" where
  "seen_active h \<longleftrightarrow> Supported (Inr (Some True)) \<in> set h \<and>
     (\<exists>obs. Projection (Inr (Some obs)) \<in> set h \<and> obs_active obs = Some True)"

lemma seen_active_mono: "seen_active h \<Longrightarrow> set h \<subseteq> set h' \<Longrightarrow> seen_active h'"
  unfolding seen_active_def by blast

text \<open>A time that is not before any sample of the clock.\<close>

definition fresh_time :: "reconcile_backend \<Rightarrow> int \<Rightarrow> history \<Rightarrow> int \<Rightarrow> bool" where
  "fresh_time b now h t \<longleftrightarrow> now \<le> t \<and> (on_clock b = None \<or> (\<exists>c. last_clock h = Some c \<and> c \<le> t))"

text \<open>The run of a record is stopping, or its own activation authorizes it.\<close>

definition fenced :: "controller_state \<Rightarrow> int \<Rightarrow> bool" where
  "fenced st t \<longleftrightarrow> (\<forall>r. run st = Some r \<longrightarrow> phase r = Stopping \<or>
     activation_authorized (activation st) t \<and>
     map_option act_id (activation_of (activation st)) = Some (activation_id r))"

definition save_ok :: "int \<Rightarrow> history \<Rightarrow> controller_snapshot \<Rightarrow> int \<Rightarrow> bool" where
  "save_ok now h s t \<longleftrightarrow> derived h (state s) \<and> now \<le> t \<and>
     (list_all (\<lambda>c. \<not> is_Save c) h \<longrightarrow> fenced (state s) t)"

definition launch_ok :: "reconcile_backend \<Rightarrow> int \<Rightarrow> history \<Rightarrow> run_reservation \<Rightarrow> bool" where
  "launch_ok b now h r \<longleftrightarrow>
     (\<exists>s t. last_saved h = Some s \<and> run (state s) = Some r \<and> phase r \<noteq> Stopping \<and> microvm_id r = [] \<and>
        map_option act_id (activation_of (activation (state s))) = Some (activation_id r) \<and>
        activation_authorized (activation (state s)) t \<and> fresh_time b now h t) \<and>
     seen_active h \<and> list_all (\<lambda>c. \<not> is_Launch c \<and> \<not> is_Terminate c) h"

definition releases :: "controller_snapshot \<Rightarrow> string \<Rightarrow> bool" where
  "releases s vm \<longleftrightarrow> (\<forall>r. run (state s) = Some r \<and> microvm_id r = vm \<longrightarrow> phase r = Stopping)"

definition terminate_ok :: "history \<Rightarrow> string \<Rightarrow> bool" where
  "terminate_ok h vm \<longleftrightarrow> vm \<noteq> [] \<and> (\<exists>s. last_saved h = Some s \<and> releases s vm) \<and>
     list_all (\<lambda>c. \<not> is_Terminate c) h"

definition pass_ok :: "reconcile_backend \<Rightarrow> int \<Rightarrow> history \<Rightarrow> call \<Rightarrow> bool" where
  "pass_ok b now h c =
     (case c of Save s t v res \<Rightarrow> save_ok now h s t
      | Launch r res \<Rightarrow> launch_ok b now h r
      | Terminate vm res \<Rightarrow> terminate_ok h vm
      | _ \<Rightarrow> True)"

lemma pass_ok_simps [simp]:
  "pass_ok b now h (Save s t v res) = save_ok now h s t"
  "pass_ok b now h (Launch r res') = launch_ok b now h r"
  "pass_ok b now h (Terminate vm res'') = terminate_ok h vm"
  by (simp_all add: pass_ok_def)

text \<open>Calls that only read.\<close>

definition quiet :: "history \<Rightarrow> history \<Rightarrow> bool" where
  "quiet h h' \<longleftrightarrow> (\<exists>es. h' = h @ es \<and> list_all (\<lambda>c. \<not> is_Save c \<and> \<not> is_Launch c \<and> \<not> is_Terminate c) es)"

lemma quiet_refl [simp]: "quiet h h"
  by (simp add: quiet_def)

lemma quiet_append [simp]:
  "quiet h (h @ es) \<longleftrightarrow> list_all (\<lambda>c. \<not> is_Save c \<and> \<not> is_Launch c \<and> \<not> is_Terminate c) es"
  by (simp add: quiet_def)

lemma quiet_snoc:
  "quiet h h' \<Longrightarrow> \<not> is_Save c \<Longrightarrow> \<not> is_Launch c \<Longrightarrow> \<not> is_Terminate c \<Longrightarrow> quiet h (h' @ [c])"
  unfolding quiet_def by force

lemma quiet_trans: "quiet h h' \<Longrightarrow> quiet h' h'' \<Longrightarrow> quiet h h''"
  unfolding quiet_def by fastforce

lemma quiet_set: "quiet h h' \<Longrightarrow> set h \<subseteq> set h'"
  unfolding quiet_def by auto

lemma quiet_all:
  assumes "quiet h h'" and "\<And>c. P c \<or> is_Save c \<or> is_Launch c \<or> is_Terminate c"
  shows "list_all P h' \<longleftrightarrow> list_all P h"
  using assms unfolding quiet_def by (fastforce simp: list_all_iff)

lemma quiet_checked: "quiet h h' \<Longrightarrow> checked (pass_ok b now) h' = checked (pass_ok b now) h"
proof -
  have "list_all (\<lambda>c. \<not> is_Save c \<and> \<not> is_Launch c \<and> \<not> is_Terminate c) es \<Longrightarrow>
      checked (pass_ok b now) (h @ es) = checked (pass_ok b now) h" for es
    by (induction es rule: rev_induct)
      (auto simp: pass_ok_def simp flip: append_assoc split: call.splits)
  then show "quiet h h' \<Longrightarrow> ?thesis" unfolding quiet_def by auto
qed

lemma quiet_last_saved: "quiet h h' \<Longrightarrow> last_saved h' = last_saved h"
proof -
  have "list_all (\<lambda>c. \<not> is_Save c \<and> \<not> is_Launch c \<and> \<not> is_Terminate c) es \<Longrightarrow>
      last_saved (h @ es) = last_saved h" for es
    by (induction es rule: rev_induct) (auto simp flip: append_assoc split: call.splits)
  then show "quiet h h' \<Longrightarrow> ?thesis" unfolding quiet_def by auto
qed

section \<open>Up to the first save\<close>

lemmas call_defs = call_read_def call_save_def call_supported_def call_projection_def
  call_runtime_verified_def call_identity_def call_request_def call_launch_def call_get_def
  call_terminate_def call_steady_def

lemma sample_clock_spec:
  "io_wp (sample_clock b now)
     (\<lambda>r h'. quiet h h' \<and> (\<forall>t. r = Inr t \<longrightarrow> on_clock b = None \<and> t = now \<or> last_clock h' = Some t)) h"
  by (auto simp: sample_clock_def io_simps intro: quiet_snoc split: option.split sum.split)

lemma current_time_spec:
  "io_wp (current_time b now anc)
     (\<lambda>r h'. quiet h h' \<and> (\<forall>t anc'. r = Inr (t, anc') \<longrightarrow> now \<le> anchor_wall anc \<longrightarrow>
        fresh_time b now h' t \<and> now \<le> anchor_wall anc')) h"
  unfolding current_time_def
proof (rule io_wp_bindI [OF sample_clock_spec], goal_cases)
  case (2 sampled h')
  then show ?case
    by (auto simp: io_simps call_steady_def Let_def fresh_time_def intro: quiet_snoc)
qed auto

lemma observe_activation_quiet:
  "observe_activation st obs now budget (Some (call_identity b)) h = (r, h') \<Longrightarrow> quiet h h'"
  by (auto simp: observe_activation_def next_activation_def call_identity_def io_bind_def io_simps
      Let_def intro!: quiet_snoc split: option.splits if_splits sum.splits)

lemma observe_lifecycle_spec:
  assumes "derived h (state s)" and "0 < now"
  shows "io_wp (observe_lifecycle b now budget s)
     (\<lambda>r h'. quiet h h' \<and> (\<forall>s' current supports. r = Inr (s', current, supports) \<longrightarrow>
        derived h' (state s') \<and> (current = LifecycleActive \<longrightarrow> seen_active h'))) h"
proof (cases "on_supported b h = Inr (Some True)")
  case False
  with assms show ?thesis
    by (auto simp: observe_lifecycle_def io_simps call_supported_def intro: quiet_snoc
        elim: derived_mono split: sum.split)
next
  case True
  let ?h = "(h @ [Supported (Inr (Some True))])"
  let ?p = "on_projection b ?h"
  let ?h' = "?h @ [Projection ?p]"
  have q: "quiet h ?h'" by (intro quiet_snoc) simp_all
  have d: "derived h'' (state s)" if "quiet ?h' h''" for h''
    using assms(1) quiet_set [OF quiet_trans [OF q that]] by (rule derived_mono)
  show ?thesis
  proof (cases "\<exists>obs act. ?p = Inr (Some obs) \<and> obs_active obs = Some act")
    case False
    with True q d [of ?h'] show ?thesis
      by (auto simp: observe_lifecycle_def io_simps call_supported_def call_projection_def
          split: sum.split option.split)
  next
    case proj: True
    then obtain obs act where obs: "?p = Inr (Some obs)" "obs_active obs = Some act" by blast
    obtain r h'' where r: "observe_activation (activation (state s)) obs now budget
        (Some (call_identity b)) ?h' = (r, h'')" by fastforce
    note q' = observe_activation_quiet [OF r]
    have seen: "act \<Longrightarrow> seen_active h''"
      using obs quiet_set [OF q'] by (auto simp: seen_active_def)
    have "derived h'' (state s\<lparr>activation := a\<rparr>)" if "r = Inr (ch, a)" for ch a
      using derived_observe [OF d [OF q'] r [unfolded that] assms(2)] .
    with True obs r seen quiet_trans [OF q q'] show ?thesis
      by (cases r) (auto simp: observe_lifecycle_def io_simps call_supported_def
          call_projection_def io_wp_def [of "observe_activation _ _ _ _ _"] Let_def)
  qed
qed

lemma may_defer_quiet: "io_wp (may_defer b s r t) (\<lambda>_ h'. quiet h h') h"
  by (auto simp: may_defer_def call_runtime_verified_def io_simps intro: quiet_snoc split: sum.split)

lemma check_unverified_spec:
  assumes "derived h (state s)" and "now \<le> anchor_wall anc"
  shows "io_wp (check_unverified b now anc s current)
     (\<lambda>r h'. quiet h h' \<and> (\<forall>s' t anc'. r = Inr (s', t, anc') \<longrightarrow>
        derived h' (state s') \<and> now \<le> t \<and> now \<le> anchor_wall anc')) h"
proof (cases "current = LifecycleUnavailable \<and> run (state s) \<noteq> None")
  case False
  with assms show ?thesis
    by (cases current) (auto simp: check_unverified_def io_simps split: option.split)
next
  case True
  then obtain r where r: "run (state s) = Some r" and current: "current = LifecycleUnavailable"
    by blast
  have d: "derived h' (state s)" "derived h' (state (stop_run s))" if "quiet h h'" for h'
    using derived_mono [OF assms(1) quiet_set [OF that]] by (auto intro: derived_stop)
  show ?thesis
    unfolding check_unverified_def r current prod.case option.case current_lifecycle.case
  proof (rule io_wp_bindI [OF current_time_spec], goal_cases)
    case (2 x h1)
    obtain t anc1 where x: "x = (t, anc1)" by fastforce
    with 2 assms(2) have q1: "quiet h h1" and t: "now \<le> t" and anc1: "now \<le> anchor_wall anc1"
      by (auto simp: fresh_time_def)
    have "io_wp (io_bind (may_defer b s r t) (\<lambda>defer. io_bind (current_time b now anc1)
        (\<lambda>(t, anc). io_return (if defer then s else stop_run s, t, anc))))
       (\<lambda>r h'. quiet h h' \<and> (\<forall>s' t anc'. r = Inr (s', t, anc') \<longrightarrow>
          derived h' (state s') \<and> now \<le> t \<and> now \<le> anchor_wall anc')) h1"
    proof (rule io_wp_bindI [OF may_defer_quiet], goal_cases)
      case (2 ok h2)
      have q2: "quiet h h2" using q1 2 by (rule quiet_trans)
      show ?case
      proof (rule io_wp_bindI [OF current_time_spec], goal_cases)
        case (2 y h3)
        with q2 have "quiet h h3" using quiet_trans by blast
        with 2 anc1 d show ?case by (cases y) (simp add: io_simps fresh_time_def)
      qed (use q2 quiet_trans in blast)
    qed (use q1 quiet_trans in blast)
    with x q1 t anc1 d [OF q1] show ?case
      by (auto simp: io_simps)
  qed auto
qed

lemma fence_decision_fenced: "fenced (state (fence_decision s current t)) t"
  by (auto simp: fence_decision_def Let_def fenced_def with_run_def fence_run_def
      run_unauthorized_def split: option.splits if_splits)

lemma reserve_next_spec:
  assumes "derived h (state s)" and "fenced (state s) t"
  shows "io_wp (reserve_next b rel s current t)
     (\<lambda>r h'. quiet h h' \<and> (\<forall>s'. r = Inr s' \<longrightarrow> derived h' (state s') \<and> fenced (state s') t)) h"
proof (cases "run (state s) = None \<and> (\<exists>a. activation_of (activation (state s)) = Some a) \<and>
    current = LifecycleActive \<and> activation_authorized (activation (state s)) t")
  case False
  with assms show ?thesis
    by (auto simp: reserve_next_def io_simps split: option.split)
next
  case True
  then obtain a where a: "activation_of (activation (state s)) = Some a" by blast
  have fence: "fenced st t" if "reserve_run (state s) LifecycleActive t rid rel exact = Inr (ok, st)"
    for rid exact ok st
    using that True by (auto simp: reserve_run_def fenced_def split: if_splits option.splits)
  from True a show ?thesis
    by (auto simp: reserve_next_def call_identity_def call_request_def io_simps fence
        intro: derived_reserve [OF derived_append [OF assms(1)]] split: sum.split)
qed

section \<open>After the first save\<close>

text \<open>The history right after a save of \<open>s\<close>, with no effect on a MicroVM yet.\<close>

definition committed ::
  "reconcile_backend \<Rightarrow> int \<Rightarrow> history \<Rightarrow> controller_snapshot \<Rightarrow> bool" where
  "committed b now h s \<longleftrightarrow> checked (pass_ok b now) h \<and> last_saved h = Some s \<and>
     list_all (\<lambda>c. \<not> is_Launch c \<and> \<not> is_Terminate c) h"

definition harmless :: "reconcile_backend \<Rightarrow> int \<Rightarrow> history \<Rightarrow> bool" where
  "harmless b now h \<longleftrightarrow> checked (pass_ok b now) h \<and> list_all (\<lambda>c. \<not> is_Terminate c) h \<and>
     \<not> list_all (\<lambda>c. \<not> is_Save c) h"

lemma quiet_committed: "committed b now h s \<Longrightarrow> quiet h h' \<Longrightarrow> committed b now h' s"
  using quiet_all [of h h' "\<lambda>c. \<not> is_Launch c \<and> \<not> is_Terminate c"]
  by (auto simp: committed_def quiet_checked quiet_last_saved)

lemma quiet_harmless: "harmless b now h \<Longrightarrow> quiet h h' \<Longrightarrow> harmless b now h'"
  using quiet_all [of h h' "\<lambda>c. \<not> is_Terminate c"] quiet_set [of h h']
  by (auto simp: harmless_def quiet_checked list_all_iff)

lemma committed_harmless: "committed b now h s \<Longrightarrow> harmless b now h"
  using last_saved_None [of h] by (auto simp: committed_def harmless_def list_all_iff)

lemma harmless_checked: "harmless b now h \<Longrightarrow> checked (pass_ok b now) h"
  by (simp add: harmless_def)

lemma harmless_save:
  "harmless b now h \<Longrightarrow> derived h (state s) \<Longrightarrow> now \<le> t \<Longrightarrow>
   harmless b now (h @ [Save s t v res]) \<and>
   (res = Inr True \<longrightarrow> last_saved (h @ [Save s t v res]) = Some s)"
  by (auto simp: harmless_def save_ok_def)

lemma harmless_terminate:
  "harmless b now h \<Longrightarrow> last_saved h = Some s \<Longrightarrow> releases s vm \<Longrightarrow> vm \<noteq> [] \<Longrightarrow>
   checked (pass_ok b now) (h @ [Terminate vm res])"
  by (simp add: harmless_def terminate_ok_def)

text \<open>A launch report that is turned down leaves no live run on that MicroVM.\<close>

lemma accept_launch_releases:
  assumes "accept_launch st rid vm host_running current t = Inr (StopUnassigned, st')"
    and "\<forall>r. run st' = Some r \<and> microvm_id r = vm \<longrightarrow> run_id r = rid"
  shows "releases (s\<lparr>state := st'\<rparr>) vm"
proof -
  show ?thesis
  proof (cases "run st")
    case None
    with assms(1) show ?thesis by (simp add: accept_launch_def releases_def split: if_splits)
  next
    case (Some q)
    show ?thesis
    proof (cases "run_id q \<noteq> rid \<or> (microvm_id q \<noteq> [] \<and> microvm_id q \<noteq> vm)")
      case True
      with Some assms show ?thesis by (auto simp: accept_launch_def releases_def split: if_splits)
    next
      case False
      with Some assms(1) have "run st' = Some (q\<lparr>microvm_id := vm, phase := Stopping\<rparr>)"
        by (auto simp: accept_launch_def Let_def split: if_splits)
      then show ?thesis by (simp add: releases_def)
    qed
  qed
qed

lemma record_launch_spec:
  assumes "harmless b now h" and "now \<le> anchor_wall anc"
  shows "io_wp (record_launch b now saved vm n anc) (\<lambda>r h'. checked (pass_ok b now) h') h"
  using assms
proof (induction n arbitrary: h anc)
  case 0
  then show ?case by (simp add: io_simps harmless_checked)
next
  case (Suc n)
  show ?case
    unfolding record_launch.simps
  proof (rule io_wp_bindI [where P = "\<lambda>r h'. quiet h h' \<and> (\<forall>s. r = Inr s \<longrightarrow> derived h' (state s))"],
      goal_cases)
    case 1
    then show ?case by (auto simp: call_read_def io_simps intro: derived_read)
  next
    case (2 e h1)
    then show ?case using quiet_harmless [OF Suc.prems(1)] harmless_checked by blast
  next
    case (3 latest h1)
    then have h1: "harmless b now h1" "derived h1 (state latest)"
      using quiet_harmless [OF Suc.prems(1)] by auto
    show ?case
    proof (rule io_wp_bindI [OF current_time_spec], goal_cases)
      case (1 e h2)
      then show ?case using quiet_harmless [OF h1(1)] harmless_checked by blast
    next
      case (2 x h2)
      obtain t anc2 where x: "x = (t, anc2)" by fastforce
      with 2 Suc.prems(2) h1 have h2: "harmless b now h2" "derived h2 (state latest)" "now \<le> t"
          "now \<le> anchor_wall anc2"
        using quiet_harmless quiet_set derived_mono by (auto simp: fresh_time_def)
      show ?case
      proof (cases "accept_launch (state latest) (run_id saved) vm False LifecycleUnavailable t")
        case (Inl e)
        with x h2 show ?thesis by (simp add: io_simps harmless_checked)
      next
        case (Inr y)
        obtain res st where y: "y = (res, st)" by fastforce
        note acc = Inr [unfolded y]
        have d: "derived h2 (state (latest\<lparr>state := st\<rparr>))"
          using derived_accept [OF h2(2) acc] by simp
        let ?ok = "on_save b h2 (latest\<lparr>state := st\<rparr>) t (verified_at latest)"
        let ?h3 = "h2 @ [Save (latest\<lparr>state := st\<rparr>) t (verified_at latest) ?ok]"
        note h3 = harmless_save [OF h2(1) d h2(3), of "verified_at latest" ?ok]
        have retry: "io_wp (record_launch b now saved vm n anc2) (\<lambda>r h'. checked (pass_ok b now) h') ?h3"
          using Suc.IH h3 h2(4) by blast
        show ?thesis
        proof (cases "res = StopUnassigned")
          case False
          with x y Inr h2 h3 retry show ?thesis
            by (auto simp: io_simps Let_def call_save_def harmless_checked
                simp del: checked_snoc split: sum.split)
        next
          case True
          have vm: "vm \<noteq> []" using acc by (auto simp: accept_launch_def)
          have rel: "releases (latest\<lparr>state := st\<rparr>) vm"
            if "\<not> (case run st of None \<Rightarrow> False | Some r \<Rightarrow> run_id r \<noteq> run_id saved \<and> microvm_id r = vm)"
            by (rule accept_launch_releases [OF acc [unfolded True]]) (use that in auto)
          show ?thesis
            using x y Inr True h2 h3 retry rel vm
            by (auto simp: io_simps Let_def call_save_def call_terminate_def harmless_checked
                simp del: checked_snoc append_assoc intro!: harmless_terminate split: sum.split)
        qed
      qed
    qed
  qed
qed

text \<open>A record that was just read is changed and saved; then its MicroVM may be terminated.\<close>

lemma read_save_terminate:
  assumes "harmless b now h" and "now \<le> t" and "derived (h @ [Read (Inr latest)]) (state s)"
  shows "checked (pass_ok b now) (h @ [Read (Inr latest), Save s t v res])"
    and "vm \<noteq> [] \<Longrightarrow> releases s vm \<Longrightarrow>
      checked (pass_ok b now) (h @ [Read (Inr latest), Save s t v (Inr True), Terminate vm res'])"
proof -
  have read: "harmless b now (h @ [Read (Inr latest)])"
    by (rule quiet_harmless [OF assms(1)]) simp
  note save = harmless_save [OF read assms(3,2)]
  then show "checked (pass_ok b now) (h @ [Read (Inr latest), Save s t v res])"
    by (simp add: harmless_checked)
  show "checked (pass_ok b now) (h @ [Read (Inr latest), Save s t v (Inr True), Terminate vm res'])"
    if "vm \<noteq> []" "releases s vm"
    using harmless_terminate [of b now "(h @ [Read (Inr latest)]) @ [Save s t v (Inr True)]" s vm res']
      save [of v "Inr True"] that by simp
qed

lemma read_checked: "harmless b now h \<Longrightarrow> checked (pass_ok b now) (h @ [Read r])"
  by (simp add: harmless_def pass_ok_def)

lemma releases_stop_run: "releases (stop_run s) vm"
  by (auto simp: releases_def stop_run_def with_run_def)

lemma derived_read_last: "derived (h @ [Read (Inr s)]) (state s)"
  by (simp add: derived_read)

lemma clear_terminated_spec:
  assumes "harmless b now h"
  shows "io_wp (clear_terminated b now s saved) (\<lambda>r h'. checked (pass_ok b now) h') h"
proof -
  have "derived (h @ [Read (Inr latest)])
      (state (stop_run latest\<lparr>state := snd (confirm_run_stopped (state (stop_run latest)) rid vm)\<rparr>))"
    for latest rid vm
    using derived_confirm [OF derived_stop [OF derived_read_last]] by simp
  note save = read_save_terminate(1) [OF assms order.refl this]
  show ?thesis
    by (auto simp: clear_terminated_def io_simps Let_def call_read_def call_save_def read_checked
        harmless_checked assms save simp del: checked_snoc split: sum.split)
qed

lemma stop_suspended_spec:
  assumes "harmless b now h" and "microvm_id saved \<noteq> []"
  shows "io_wp (stop_suspended b now saved hstate) (\<lambda>r h'. checked (pass_ok b now) h') h"
proof -
  have "derived (h @ [Read (Inr latest)]) (state (stop_run latest))" for latest
    by (intro derived_stop derived_read_last)
  note save = read_save_terminate [OF assms(1) order.refl this]
  show ?thesis
    by (auto simp: stop_suspended_def io_simps Let_def call_read_def call_save_def call_terminate_def
        read_checked assms save releases_stop_run simp del: checked_snoc split: sum.split)
qed

lemma launch_reserved_spec:
  assumes "committed b now h s" and "run (state s) = Some saved" and "microvm_id saved = []"
    and "fenced (state s) t0" and "now \<le> anchor_wall anc"
    and "current = LifecycleActive \<longrightarrow> seen_active h"
  shows "io_wp (launch_reserved b now anc s current saved) (\<lambda>r h'. checked (pass_ok b now) h') h"
proof (cases "phase saved = Stopping \<or> current \<noteq> LifecycleActive")
  case True
  with assms(1) show ?thesis by (simp add: launch_reserved_def io_simps committed_def)
next
  case live: False
  have match: "map_option act_id (activation_of (activation (state s))) = Some (activation_id saved)"
    using assms(2,4) live by (simp add: fenced_def)
  from live show ?thesis
    unfolding launch_reserved_def if_not_P [OF live]
  proof (rule_tac io_wp_bindI [OF current_time_spec], goal_cases)
    case (1 e h1)
    then show ?case using quiet_checked assms(1) by (auto simp: committed_def)
  next
    case (2 x h1)
    obtain t anc1 where x: "x = (t, anc1)" by fastforce
    with 2 assms(5) have q: "quiet h h1" and fresh: "fresh_time b now h1 t"
        and anc1: "now \<le> anchor_wall anc1" by auto
    have h1: "committed b now h1 s" "harmless b now h1"
      using quiet_committed [OF assms(1) q] committed_harmless by blast+
    have now: "now \<le> t" using fresh by (simp add: fresh_time_def)
    show ?case
    proof (cases "activation_authorized (activation (state s)) t")
      case False
      have "derived (h1 @ [Read (Inr latest)]) (state (stop_run latest))" for latest
        by (intro derived_stop derived_read_last)
      note save = read_save_terminate(1) [OF h1(2) now this]
      from False x save show ?thesis
        by (auto simp: io_simps Let_def call_read_def call_save_def read_checked h1
            simp del: checked_snoc split: sum.split)
    next
      case True
      have launch: "launch_ok b now h1 saved"
        using h1(1) assms live fresh True match seen_active_mono quiet_set [OF q]
        by (auto simp: launch_ok_def committed_def)
      have "harmless b now (h1 @ [Launch saved res])" for res
        using h1(2) launch by (auto simp: harmless_def)
      then show ?thesis
        using True x anc1
        by (auto simp: io_simps call_launch_def simp del: checked_snoc record_launch.simps
            intro: record_launch_spec harmless_checked split: sum.split)
    qed
  qed
qed

lemma finish_assignment_spec:
  assumes "harmless b now h" and "microvm_id saved \<noteq> []" and "derived h (state latest)"
    and "now \<le> t" and "runs latest (run_id saved)"
  shows "io_wp (finish_assignment b latest saved current t verified)
     (\<lambda>r h'. checked (pass_ok b now) h') h"
proof (cases "accept_launch (state latest) (run_id saved) (microvm_id saved) True current t")
  case (Inl e)
  then show ?thesis using assms(1) by (simp add: finish_assignment_def io_simps harmless_checked)
next
  case (Inr y)
  obtain res st where y: "y = (res, st)" by fastforce
  note acc = Inr [unfolded y]
  have "derived h (state (latest\<lparr>state := st\<rparr>))"
    using derived_accept [OF assms(3) acc] by simp
  note save = harmless_save [OF assms(1) this assms(4)]
  have "run_id r = run_id saved" if "run st = Some r" for r
    using acc assms(5) that by (auto simp: accept_launch_def Let_def split: if_splits option.splits)
  then have rel: "res = StopUnassigned \<Longrightarrow> releases (latest\<lparr>state := st\<rparr>) (microvm_id saved)"
    using accept_launch_releases [of "state latest" "run_id saved" "microvm_id saved" True current t st]
      acc by blast
  show ?thesis
    using acc y Inr save rel assms(2)
    by (auto simp: finish_assignment_def io_simps call_save_def call_terminate_def harmless_checked
        simp del: checked_snoc append_assoc intro!: harmless_terminate split: sum.split)
qed

lemma harmless_bindI:
  assumes "harmless b now h" and "io_wp m (\<lambda>r h'. quiet h h' \<and> P r h') h"
    and "\<And>x h'. harmless b now h' \<Longrightarrow> quiet h h' \<Longrightarrow> P (Inr x) h' \<Longrightarrow>
      io_wp (k x) (\<lambda>r h'. checked (pass_ok b now) h') h'"
  shows "io_wp (io_bind m k) (\<lambda>r h'. checked (pass_ok b now) h') h"
  using assms by (intro io_wp_bindI [OF assms(2)]) (auto intro: quiet_harmless harmless_checked)

lemma call_read_spec:
  "io_wp (call_read b) (\<lambda>r h'. quiet h h' \<and> (\<forall>s. r = Inr s \<longrightarrow> derived h' (state s))) h"
  by (auto simp: call_read_def io_simps intro: derived_read_last)

lemma current_time_bindI:
  assumes "harmless b now h" and "now \<le> anchor_wall anc"
    and "\<And>t anc' h'. harmless b now h' \<Longrightarrow> quiet h h' \<Longrightarrow> now \<le> t \<Longrightarrow> now \<le> anchor_wall anc' \<Longrightarrow>
      io_wp (k (t, anc')) (\<lambda>r h'. checked (pass_ok b now) h') h'"
  shows "io_wp (io_bind (current_time b now anc) k) (\<lambda>r h'. checked (pass_ok b now) h') h"
  by (rule harmless_bindI [OF assms(1) current_time_spec])
    (use assms(2,3) in \<open>auto simp: fresh_time_def\<close>)

lemma read_bindI:
  assumes "harmless b now h"
    and "\<And>s h'. harmless b now h' \<Longrightarrow> derived h' (state s) \<Longrightarrow>
      io_wp (k s) (\<lambda>r h'. checked (pass_ok b now) h') h'"
  shows "io_wp (io_bind (call_read b) k) (\<lambda>r h'. checked (pass_ok b now) h') h"
  by (rule harmless_bindI [OF assms(1), where P = "\<lambda>r h'. \<forall>s. r = Inr s \<longrightarrow> derived h' (state s)"])
    (use assms(2) in \<open>auto simp: call_read_def io_simps intro: derived_read_last\<close>)

lemma assign_running_spec:
  assumes "harmless b now h" and "now \<le> anchor_wall anc" and "microvm_id saved \<noteq> []"
  shows "io_wp (assign_running b now anc s current saved) (\<lambda>r h'. checked (pass_ok b now) h') h"
  unfolding assign_running_def
proof (rule harmless_bindI [OF assms(1), where P = "\<lambda>_ _. True"], goal_cases)
  case (2 supports h1)
  show ?case
  proof (rule harmless_bindI [OF 2(1), where P = "\<lambda>_ _. True"], goal_cases)
    case (2 fresh h2)
    have finish: "io_wp (io_bind (current_time b now anc') (\<lambda>(t, anc).
          if t - verified \<ge> 15 \<and> activation_authorized (activation (state latest)) t
          then io_return Again else finish_assignment b latest saved current t verified))
        (\<lambda>r h'. checked (pass_ok b now) h') h3"
      if "harmless b now h3" "derived h3 (state latest)" "now \<le> anchor_wall anc'"
        "runs latest (run_id saved)" for verified latest anc' h3
    proof (rule current_time_bindI [OF that(1,3)], goal_cases)
      case (1 t anc4 h4)
      then have "derived h4 (state latest)" using that(2) quiet_set derived_mono by blast
      with 1 that(4) assms(3) show ?case
        by (auto simp: io_wp_return harmless_checked intro: finish_assignment_spec)
    qed
    show ?case
      unfolding io_wp_if
      using 2(1) assms(2) finish
      by (auto simp: io_wp_return io_wp_if harmless_checked
          intro!: current_time_bindI read_bindI)
  qed (simp add: call_projection_def io_simps)
qed (simp add: call_supported_def io_simps)

lemma inspect_host_spec:
  assumes "committed b now h s" and "run (state s) = Some saved" and "microvm_id saved \<noteq> []"
    and "now \<le> anchor_wall anc"
  shows "io_wp (inspect_host b now anc s current saved) (\<lambda>r h'. checked (pass_ok b now) h') h"
  unfolding inspect_host_def
proof (rule harmless_bindI [OF committed_harmless [OF assms(1)], where P = "\<lambda>_ _. True"], goal_cases)
  case (2 host h1)
  have "committed b now h1 s" using assms(1) 2(2) by (rule quiet_committed)
  then have "checked (pass_ok b now) (h1 @ [Terminate (microvm_id saved) res])"
    if "phase saved = Stopping" for res
    using harmless_terminate [OF 2(1)] assms(2,3) that by (simp add: committed_def releases_def)
  with 2(1) assms(3,4) show ?case
    by (auto simp: io_simps call_terminate_def harmless_checked simp del: checked_snoc
        intro!: clear_terminated_spec stop_suspended_spec assign_running_spec split: sum.split)
qed (simp add: call_get_def io_simps)

lemma save_and_act_spec:
  assumes "quiet [] h" and "derived h (state s)" and "fenced (state s) t" and "now \<le> t"
    and "now \<le> anchor_wall anc" and "current = LifecycleActive \<longrightarrow> seen_active h"
  shows "io_wp (save_and_act b now anc s current t) (\<lambda>r h'. checked (pass_ok b now) h') h"
proof -
  let ?h = "\<lambda>res. h @ [Save s t (verified_at s) res]"
  have h: "checked (pass_ok b now) h" using quiet_checked [OF assms(1)] by simp
  then have saved: "checked (pass_ok b now) (?h res)" for res
    using assms by (simp add: save_ok_def)
  have "committed b now (?h (Inr True)) s"
    using saved assms(1) by (simp add: committed_def quiet_def list_all_iff)
  note act = launch_reserved_spec [OF this _ _ assms(3,5)] inspect_host_spec [OF this _ _ assms(5)]
  have "current = LifecycleActive \<longrightarrow> seen_active (?h res)" for res
    using assms(6) seen_active_mono [of h "?h res"] by auto
  then show ?thesis
    unfolding save_and_act_def
    using saved act
    by (auto simp: io_simps call_save_def simp del: checked_snoc split: sum.split option.split)
qed

lemma prefix_bindI:
  assumes "quiet [] h" and "io_wp m (\<lambda>r h'. quiet h h' \<and> P r h') h"
    and "\<And>x h'. quiet [] h' \<Longrightarrow> quiet h h' \<Longrightarrow> P (Inr x) h' \<Longrightarrow>
      io_wp (k x) (\<lambda>r h'. checked (pass_ok b now) h') h'"
  shows "io_wp (io_bind m k) (\<lambda>r h'. checked (pass_ok b now) h') h"
proof (rule io_wp_bindI [OF assms(2)])
  show "checked (pass_ok b now) h'" if "quiet h h' \<and> P (Inl e) h'" for e h'
    using quiet_checked [OF quiet_trans [OF assms(1)], of h'] that by simp
  show "io_wp (k x) (\<lambda>r h'. checked (pass_ok b now) h') h'" if "quiet h h' \<and> P (Inr x) h'" for x h'
    using assms(3) quiet_trans [OF assms(1)] that by blast
qed

lemma decide_spec:
  assumes "quiet [] h" and "derived h (state s)" and "now \<le> anchor_wall anc"
    and "current = LifecycleActive \<longrightarrow> seen_active h"
  shows "io_wp (io_bind (check_unverified b now anc s current) (\<lambda>(s, t, anc).
        io_bind (reserve_next b rel (fence_decision s current t) current t) (\<lambda>s.
          save_and_act b now anc s current t))) (\<lambda>r h'. checked (pass_ok b now) h') h"
proof (rule prefix_bindI [OF assms(1) check_unverified_spec [OF assms(2,3)]], goal_cases)
  case (1 x h1)
  obtain s1 t anc1 where x: "x = (s1, t, anc1)" by (cases x) auto
  with 1 have h1: "derived h1 (state (fence_decision s1 current t))" "now \<le> t" "now \<le> anchor_wall anc1"
    by (auto intro: derived_fence_decision)
  show ?case
    unfolding x prod.case
  proof (rule prefix_bindI [OF 1(1) reserve_next_spec [OF h1(1) fence_decision_fenced]], goal_cases)
    case (1 s2 h2)
    then have "set h \<subseteq> set h2" using quiet_set \<open>quiet h h1\<close> by blast
    with 1 h1 assms(4) show ?case
      by (intro save_and_act_spec) (auto intro: seen_active_mono)
  qed
qed

lemma reconcile_checked:
  "io_wp (reconcile b now rel budget) (\<lambda>r h'. checked (pass_ok b now) h') []"
proof (cases "now \<le> 0 \<or> rel = [] \<or> budget < 1 \<or> budget > 3000")
  case True
  then show ?thesis by (simp add: reconcile_def io_simps)
next
  case args: False
  then have now: "0 < now" by simp
  show ?thesis
    unfolding reconcile_def if_not_P [OF args]
  proof (rule prefix_bindI [where P = "\<lambda>_ _. True"], goal_cases)
    case (3 steady h0)
    show ?case
    proof (rule prefix_bindI [OF 3(1) call_read_spec], goal_cases)
      case (1 s0 h1)
      then have "derived h1 (state s0)" by simp
      show ?case
      proof (rule prefix_bindI [OF 1(1) observe_lifecycle_spec [OF \<open>derived h1 (state s0)\<close> now]],
          goal_cases)
        case (1 x h2)
        then show ?case
          by (cases x) (auto simp: describe_error_def intro!: decide_spec)
      qed
    qed
  qed (simp_all add: call_steady_def io_simps quiet_def)
qed

section \<open>Bounded work\<close>

lemma calls_le_lifecycle:
  "calls_le m i \<Longrightarrow> calls_le n i \<Longrightarrow> calls_le k i \<Longrightarrow> calls_le (case_current_lifecycle m n k x) i"
  by (cases x) auto

lemma calls_le_current_time: "calls_le (current_time b now anc) 2"
  unfolding current_time_def sample_clock_def call_steady_def Let_def
  by (rule calls_le_mono, (rule calls_le_rules)+) simp

lemma calls_le_observe_lifecycle: "calls_le (observe_lifecycle b now budget s) 3"
  unfolding observe_lifecycle_def observe_activation_def next_activation_def call_defs Let_def
    option.case
  by (rule calls_le_mono, (rule calls_le_rules)+) simp

lemma calls_le_check_unverified: "calls_le (check_unverified b now anc s current) 5"
proof -
  have "calls_le (may_defer b s r t) 1" for r t
    unfolding may_defer_def call_defs by (rule calls_le_mono, (rule calls_le_rules)+) simp
  note rules = this calls_le_current_time
  show ?thesis
  proof (cases "current = LifecycleUnavailable")
    case True
    show ?thesis
      unfolding check_unverified_def True prod.case current_lifecycle.case
      by (rule calls_le_mono, (rule rules calls_le_rules)+) simp
  next
    case False
    then show ?thesis
      by (cases current) (simp_all add: check_unverified_def calls_le_mono [OF calls_le_return])
  qed
qed

lemma calls_le_reserve_next: "calls_le (reserve_next b rel s current t) 2"
  unfolding reserve_next_def call_defs prod.case
  by (rule calls_le_mono, (rule calls_le_rules)+) simp

lemma calls_le_record_launch: "calls_le (record_launch b now saved vm n anc) (4 * n + 1)"
proof (induction n arbitrary: anc)
  case 0
  then show ?case by (simp add: calls_le_mono [OF calls_le_return])
next
  case (Suc n)
  show ?case
    unfolding record_launch.simps call_defs Let_def
    by (rule calls_le_mono, (rule Suc.IH calls_le_current_time calls_le_rules)+) simp
qed

lemma calls_le_launch_reserved: "calls_le (launch_reserved b now anc s current saved) 16"
  unfolding launch_reserved_def call_defs Let_def
  by (rule calls_le_mono, (rule calls_le_record_launch calls_le_current_time calls_le_rules)+) simp

lemma calls_le_inspect_host: "calls_le (inspect_host b now anc s current saved) 10"
  unfolding inspect_host_def clear_terminated_def stop_suspended_def assign_running_def
    finish_assignment_def call_defs Let_def
  by (rule calls_le_mono, (rule calls_le_current_time calls_le_rules)+) simp

lemma calls_le_reconcile: "calls_le (reconcile b now rel budget) 29"
  unfolding reconcile_def save_and_act_def call_defs Let_def
  by (rule calls_le_mono, (rule calls_le_launch_reserved calls_le_inspect_host
        calls_le_reserve_next calls_le_check_unverified calls_le_observe_lifecycle calls_le_rules)+) simp

section \<open>Properties\<close>

text \<open>
  A backend that behaves as the real services do on a good day: reads return the last saved
  record, writes succeed, the device is active, and its clock shows second 120.
\<close>

definition sample_snapshot :: "controller_state \<Rightarrow> controller_snapshot" where
  "sample_snapshot st = \<lparr>shadow_version = 1, verified_at = 0, unverified_since = 0,
     stop_requested_at = 0, last_error = [], state = st\<rparr>"

definition sample_backend :: "controller_state \<Rightarrow> string \<Rightarrow> reconcile_backend" where
  "sample_backend st host =
     \<lparr>on_read = (\<lambda>h. Inr (case last_saved h of None \<Rightarrow> sample_snapshot st | Some s \<Rightarrow> s)),
      on_save = (\<lambda>h s t v. Inr True), on_supported = (\<lambda>h. Inr (Some True)),
      on_projection = (\<lambda>h. Inr (Some (sample_observation 3 True))),
      on_runtime_verified = (\<lambda>h s. Inr None), on_identity = (\<lambda>h. Inr ''r1''),
      on_request = (\<lambda>h rid a t. Inr ''{}''),
      on_launch = (\<lambda>h r. Inr \<lparr>host_id = ''vm1'', host_state = ''PENDING'', host_endpoint = []\<rparr>),
      on_get = (\<lambda>h vm. Inr \<lparr>host_id = vm, host_state = host, host_endpoint = []\<rparr>),
      on_terminate = (\<lambda>h vm. Inr ()), on_clock = Some (\<lambda>h. Inr 120), on_steady = (\<lambda>h. 0)\<rparr>"

lemmas reconcile_eval = reconcile_def call_defs observe_lifecycle_def describe_error_def
  check_unverified_def fence_decision_def superseded_def with_run_def stop_run_def reserve_next_def
  save_and_act_def launch_reserved_def inspect_host_def stop_suspended_def current_time_def
  sample_clock_def cast_seconds_def sample_backend_def sample_snapshot_def last_saved_def
  controller_eval io_bind_def io_simps

text \<open>
  C8. Write-ahead launches.  In one pass against any backend, a MicroVM is launched only for the
  reservation in the record of the last successful save: it has no MicroVM yet and is not
  stopping, it belongs to the record's activation, and that activation authorizes execution at a
  time not before the pass began nor before the latest sample of the clock.  In the same pass the
  registry and a projection have said that the device is active, and no MicroVM has been launched
  or terminated before.
\<close>

theorem launch_is_write_ahead:
  assumes "reconcile b now rel budget [] = (out, es1 @ Launch r res # es2)"
  shows "(\<exists>s t. last_saved es1 = Some s \<and> run (state s) = Some r \<and>
            phase r \<noteq> Stopping \<and> microvm_id r = [] \<and>
            map_option act_id (activation_of (activation (state s))) = Some (activation_id r) \<and>
            activation_authorized (activation (state s)) t \<and> now \<le> t \<and>
            (on_clock b = None \<or> (\<exists>c. last_clock es1 = Some c \<and> c \<le> t))) \<and>
         seen_active es1 \<and> list_all (\<lambda>c. \<not> is_Launch c \<and> \<not> is_Terminate c) es1"
  using checkedD [OF io_wpD [OF reconcile_checked assms]]
  by (simp add: launch_ok_def fresh_time_def)

lemma performs:
  "list_ex P (snd (reconcile b now rel budget [])) \<Longrightarrow>
   \<exists>out es1 c es2. reconcile b now rel budget [] = (out, es1 @ c # es2) \<and> P c"
  by (metis list_ex_iff prod.collapse split_list)

lemma sample_launch:
  "list_ex is_Launch
     (snd (reconcile (sample_backend (sample_controller None) ''RUNNING'') 110 ''1.2.3'' 3000 []))"
  by (simp add: reconcile_eval valid_release_123 numeral_3_eq_3)

theorem launch_is_write_ahead_witness:
  "\<exists>out es1 r res es2 s.
     reconcile (sample_backend (sample_controller None) ''RUNNING'') 110 ''1.2.3'' 3000 [] =
       (out, es1 @ Launch r res # es2) \<and> last_saved es1 = Some s \<and> run (state s) = Some r"
proof -
  obtain out es1 r res es2 where
    r: "reconcile (sample_backend (sample_controller None) ''RUNNING'') 110 ''1.2.3'' 3000 [] =
       (out, es1 @ Launch r res # es2)"
    using performs [OF sample_launch] by (auto simp: is_Launch_def)
  from launch_is_write_ahead [OF r] r show ?thesis by blast
qed

text \<open>
  C9. Termination follows a durable release.  In one pass against any backend, a MicroVM is
  terminated only after a successful save, and the record of the last one does not name that
  MicroVM for a run that is not stopping.  At most one MicroVM is terminated per pass.
\<close>

theorem terminate_follows_release:
  assumes "reconcile b now rel budget [] = (out, es1 @ Terminate vm res # es2)"
  shows "vm \<noteq> [] \<and> list_all (\<lambda>c. \<not> is_Terminate c) es1 \<and>
         (\<exists>s. last_saved es1 = Some s \<and>
            (\<forall>r. run (state s) = Some r \<and> microvm_id r = vm \<longrightarrow> phase r = Stopping))"
  using checkedD [OF io_wpD [OF reconcile_checked assms]]
  by (simp add: terminate_ok_def releases_def)

lemma sample_terminate:
  "list_ex is_Terminate
     (snd (reconcile (sample_backend (sample_controller (Some (sample_run_reservation Running ''vm1'')))
        ''SUSPENDED'') 110 ''1.2.3'' 3000 []))"
  by (simp add: reconcile_eval)

theorem terminate_follows_release_witness:
  "\<exists>out es1 vm res es2 s.
     reconcile (sample_backend (sample_controller (Some (sample_run_reservation Running ''vm1'')))
        ''SUSPENDED'') 110 ''1.2.3'' 3000 [] = (out, es1 @ Terminate vm res # es2) \<and>
     vm \<noteq> [] \<and> last_saved es1 = Some s"
proof -
  obtain out es1 vm res es2 where
    r: "reconcile (sample_backend (sample_controller (Some (sample_run_reservation Running ''vm1'')))
        ''SUSPENDED'') 110 ''1.2.3'' 3000 [] = (out, es1 @ Terminate vm res # es2)"
    using performs [OF sample_terminate] by (auto simp: is_Terminate_def)
  from terminate_follows_release [OF r] r show ?thesis by blast
qed

text \<open>
  C10. What is saved is lawful.  Every record that a pass saves arises, by operations of the
  controller or by dropping a superseded reservation, from a record that it has read before; it is
  consistent when the records read are.  In the record of the first save a run that is not
  stopping is authorized by its own activation at the time of the save, so a run outlives neither
  its deadline nor its activation.
\<close>

theorem saved_record_is_derived:
  assumes "reconcile b now rel budget [] = (out, es1 @ Save s t v res # es2)"
    and "\<forall>s0. Read (Inr s0) \<in> set es1 \<longrightarrow> controller_wf (state s0)"
  shows "(\<exists>s0 es. Read (Inr s0) \<in> set es1 \<and> steps record_step (state s0) es (state s)) \<and>
         controller_wf (state s) \<and> now \<le> t \<and>
         (\<forall>r. list_all (\<lambda>c. \<not> is_Save c) es1 \<and> run (state s) = Some r \<and> phase r \<noteq> Stopping \<longrightarrow>
            activation_authorized (activation (state s)) t \<and>
            map_option act_id (activation_of (activation (state s))) = Some (activation_id r))"
proof -
  have "save_ok now es1 s t"
    using checkedD [OF io_wpD [OF reconcile_checked assms(1)]] by simp
  then show ?thesis
    using assms(2) record_life.steps_inv by (fastforce simp: save_ok_def derived_def fenced_def)
qed

lemma sample_save:
  "list_ex is_Save
     (snd (reconcile (sample_backend initial_controller_state ''RUNNING'') 110 ''1.2.3'' 3000 []))"
  by (simp add: reconcile_eval)

lemma sample_reads:
  "list_all (\<lambda>c. case c of Read (Inr s0) \<Rightarrow> controller_wf (state s0) | _ \<Rightarrow> True)
     (snd (reconcile (sample_backend initial_controller_state ''RUNNING'') 110 ''1.2.3'' 3000 []))"
  by (simp add: reconcile_eval controller_wf_def activation_wf_def)

theorem saved_record_is_derived_witness:
  "\<exists>out es1 s t v res es2.
     reconcile (sample_backend initial_controller_state ''RUNNING'') 110 ''1.2.3'' 3000 [] =
       (out, es1 @ Save s t v res # es2) \<and> controller_wf (state s) \<and> 110 \<le> t"
proof -
  obtain out es1 s t v res es2 where
    r: "reconcile (sample_backend initial_controller_state ''RUNNING'') 110 ''1.2.3'' 3000 [] =
       (out, es1 @ Save s t v res # es2)"
    using performs [OF sample_save] by (auto simp: is_Save_def)
  have "\<forall>s0. Read (Inr s0) \<in> set es1 \<longrightarrow> controller_wf (state s0)"
    using sample_reads [unfolded r] by (auto simp: list_all_iff dest!: bspec)
  from saved_record_is_derived [OF r this] r show ?thesis by blast
qed

text \<open>
  C11. Bounded work.  One pass makes at most 29 calls of the backend and the clocks, whatever they
  answer; with arguments out of range it makes none.
\<close>

theorem reconcile_bounded:
  "length (snd (reconcile b now rel budget [])) \<le>
     (if now \<le> 0 \<or> rel = [] \<or> budget < 1 \<or> budget > 3000 then 0 else 29)"
  using calls_le_reconcile [of b now rel budget]
  by (auto simp: calls_le_def reconcile_def io_simps dest: spec [of _ "[]"])

end
