(* ===== verification/Firmware.thy ===== *)
theory Firmware
  imports Prelude "HOL-Library.State_Monad"
begin

text \<open>
  The execution model of the Zephyr firmware sources (\<^verbatim>\<open>src/devices/**/mcu/**/*.c\<close>).  A C function is
  a computation of the state monad over the firmware's static variables.  Kernel, driver, Bluetooth
  and OpenThread calls are recorded with their replies; what they answer is an arbitrary function of
  the calls made so far.  Each work handler, callback and attribute access is one atomic step; the
  mutexes and atomic variables of the sources serialize exactly these accesses.
\<close>

section \<open>Calls\<close>

datatype pin = Led | PowerPin | BatteryEnable

datatype dev = PortOf pin | PdmImuPwr | VbatPwr | BatterySensor | BatteryAdc | Bme280

text \<open>The reply to a call: its return code, a number and bytes written through pointers.\<close>

record reply =
  code :: int
  out :: int
  data :: bytes

datatype gpio_call = GpioConfigureInactive pin | GpioSet pin bool

datatype driver_call =
  DeviceReady dev
| RegulatorEnable dev
| RegulatorDisable dev
| SaadcInitCheck
| SaadcInit
| SaadcUninit
| AdcChannelSetup
| AdcSequenceInit
| AdcRead
| AdcRawToMillivolts int
| PmSuspend
| PmResume
| SensorFetch
| SensorGet

datatype bus_call =
  I2cRead u8 nat
| I2cWrite u8 u8
| FlashOpen
| FlashRead nat nat
| FlashClose

datatype 'w kernel_call =
  Sleep int
| Uptime
| WorkSubmit 'w
| WorkSchedule 'w int
| WorkReschedule 'w int
| WorkCancel 'w

datatype bt_call =
  ConnRef nat
| ConnUnref nat
| ConnParamUpdate nat u16 u16 u16 u16
| GattNotify nat bytes
| GattRead nat nat bytes
| BtEnable
| BtSetName bytes
| HciCmdAlloc
| HciWriteTxPower int
| NetBufUnref
| AdvStart nat

datatype ot_call =
  OtInstance
| OtSetLinkMode bool
| OtGetRxOnWhenIdle
| OtSetPollPeriod
| OtSetEnabled bool
| OtDeviceRole
| OtDatasetSetActive bytes
| OtIp6SetEnabled
| OtCoapStart u16
| OtCoapAddResource string
| OtSrpSetCallback
| OtSrpSetHostName bytes
| OtMeshLocalEid
| OtSrpSetHostAddress bytes
| OtSrpAddService bytes u16
| OtSrpEnableAutoStart
| OtRegisterStateCallback

datatype coap_call =
  MessageCode
| MessageType
| MessageOffset
| MessageLength
| MessageRead nat nat
| NewMessage
| InitResponse int int
| AppendContentFormat
| SetPayloadMarker
| MessageAppend bytes
| SendResponse
| MessageFree

datatype psa_call =
  PsaGetKeyAttributes u32
| PsaExportPublicKey u32
| PsaSignHash u32
| PsaGenerateKey
| PsaDestroyKey u32
| EcdsaGenerateAndImportKey u32

datatype 'w zcall =
  Gpio gpio_call
| Driver driver_call
| Bus bus_call
| Kernel "'w kernel_call"
| Bt bt_call
| Ot ot_call
| Coap coap_call
| Psa psa_call

text \<open>The part of the state every firmware has: the calls made, and the work items that Zephyr
  holds for later.\<close>

record 'w firmware =
  calls :: "('w zcall \<times> reply) list"
  pending :: "'w set"

type_synonym 'w calls = "('w zcall \<times> reply) list"
type_synonym 'w kernel = "'w calls \<Rightarrow> 'w zcall \<Rightarrow> reply"

section \<open>Computations\<close>

abbreviation ret :: "'a \<Rightarrow> ('s, 'a) state" where
  "ret \<equiv> State_Monad.return"

definition gets :: "('s \<Rightarrow> 'a) \<Rightarrow> ('s, 'a) state" where
  "gets f = State (\<lambda>s. (f s, s))"

definition modify :: "('s \<Rightarrow> 's) \<Rightarrow> ('s, unit) state" where
  "modify f = State (\<lambda>s. ((), f s))"

definition doif :: "bool \<Rightarrow> ('s, unit) state \<Rightarrow> ('s, unit) state" where
  "doif b m = (if b then m else ret ())"

definition log_call :: "'w zcall \<Rightarrow> reply \<Rightarrow> ('w, 'x) firmware_scheme \<Rightarrow> ('w, 'x) firmware_scheme" where
  "log_call c r s = s\<lparr>calls := calls s @ [(c, r)]\<rparr>"

definition sys :: "'w kernel \<Rightarrow> 'w zcall \<Rightarrow> (('w, 'x) firmware_scheme, reply) state" where
  "sys k c = State (\<lambda>s. let r = k (calls s) c in (r, log_call c r s))"

definition sys_code :: "'w kernel \<Rightarrow> 'w zcall \<Rightarrow> (('w, 'x) firmware_scheme, int) state" where
  "sys_code k c = do { r \<leftarrow> sys k c; ret (code r) }"

definition sys_ok :: "'w kernel \<Rightarrow> 'w zcall \<Rightarrow> (('w, 'x) firmware_scheme, bool) state" where
  "sys_ok k c = do { r \<leftarrow> sys k c; ret (code r \<noteq> 0) }"

definition sys_void :: "'w kernel \<Rightarrow> 'w zcall \<Rightarrow> (('w, 'x) firmware_scheme, unit) state" where
  "sys_void k c = do { sys k c; ret () }"

text \<open>\<open>k_work_submit\<close>, \<open>k_work_schedule\<close>, \<open>k_work_reschedule\<close> and \<open>k_work_cancel_delayable\<close>.\<close>

definition work_submit :: "'w kernel \<Rightarrow> 'w \<Rightarrow> (('w, 'x) firmware_scheme, unit) state" where
  "work_submit k w = do { sys k (Kernel (WorkSubmit w)); modify (\<lambda>s. s\<lparr>pending := insert w (pending s)\<rparr>) }"

definition work_schedule :: "'w kernel \<Rightarrow> 'w \<Rightarrow> int \<Rightarrow> (('w, 'x) firmware_scheme, unit) state" where
  "work_schedule k w ms =
     do { sys k (Kernel (WorkSchedule w ms)); modify (\<lambda>s. s\<lparr>pending := insert w (pending s)\<rparr>) }"

definition work_reschedule :: "'w kernel \<Rightarrow> 'w \<Rightarrow> int \<Rightarrow> (('w, 'x) firmware_scheme, unit) state" where
  "work_reschedule k w ms =
     do { sys k (Kernel (WorkReschedule w ms)); modify (\<lambda>s. s\<lparr>pending := insert w (pending s)\<rparr>) }"

definition work_cancel :: "'w kernel \<Rightarrow> 'w \<Rightarrow> (('w, 'x) firmware_scheme, unit) state" where
  "work_cancel k w =
     do { sys k (Kernel (WorkCancel w)); modify (\<lambda>s. s\<lparr>pending := pending s - {w}\<rparr>) }"

text \<open>A buffer of \<open>n\<close> bytes after a driver has written \<open>bs\<close> to it.\<close>

definition buffer :: "nat \<Rightarrow> bytes \<Rightarrow> bytes" where
  "buffer n bs = take n (bs @ replicate n 0)"

lemma length_buffer [simp]: "length (buffer n bs) = n"
  by (simp add: buffer_def)

text \<open>Signed 32-bit arithmetic of the sources, wrapping as the compiled code does.\<close>

definition i32 :: "int \<Rightarrow> int" where
  "i32 x = sint (word_of_int x :: 32 word)"

lemma i32_id: "- 2147483648 \<le> x \<Longrightarrow> x < 2147483648 \<Longrightarrow> i32 x = x"
  by (simp add: i32_def signed_of_int signed_take_bit_int_eq_self)

lemma i32_range: "- 2147483648 \<le> i32 x" "i32 x < 2147483648"
  using sint_ge [of "word_of_int x :: 32 word"] sint_less [of "word_of_int x :: 32 word"]
  by (simp_all add: i32_def)

text \<open>\<open>errno\<close> values of Zephyr's C library.\<close>

definition EIO :: int where "EIO = 5"
definition EAGAIN :: int where "EAGAIN = 11"
definition ENOMEM :: int where "ENOMEM = 12"
definition ENODEV :: int where "ENODEV = 19"
definition EINVAL :: int where "EINVAL = 22"
definition ENOENT :: int where "ENOENT = 2"
definition EALREADY :: int where "EALREADY = 120"
definition EOPNOTSUPP :: int where "EOPNOTSUPP = 95"
definition ETIMEDOUT :: int where "ETIMEDOUT = 116"
definition ENOTSUP :: int where "ENOTSUP = 134"

lemmas errno_defs = EIO_def EAGAIN_def ENOMEM_def ENODEV_def EINVAL_def ENOENT_def EALREADY_def
  EOPNOTSUPP_def ETIMEDOUT_def ENOTSUP_def

section \<open>Weakest preconditions\<close>

named_theorems fw_simps \<open>one step of a firmware computation\<close>

definition wp :: "('s, 'a) state \<Rightarrow> ('a \<Rightarrow> 's \<Rightarrow> bool) \<Rightarrow> 's \<Rightarrow> bool" where
  "wp m Q s = (case run_state m s of (a, t) \<Rightarrow> Q a t)"

lemma wp_return [fw_simps]: "wp (ret x) Q s = Q x s"
  by (simp add: wp_def)

lemma wp_bind [fw_simps]: "wp (State_Monad.bind m f) Q s = wp m (\<lambda>a. wp (f a) Q) s"
  by (simp add: wp_def split: prod.split)

lemma wp_gets [fw_simps]: "wp (gets f) Q s = Q (f s) s"
  by (simp add: wp_def gets_def)

lemma wp_modify [fw_simps]: "wp (modify f) Q s = Q () (f s)"
  by (simp add: wp_def modify_def)

lemma wp_sys [fw_simps]: "wp (sys k c) Q s = Q (k (calls s) c) (log_call c (k (calls s) c) s)"
  by (simp add: wp_def sys_def Let_def)

lemma wp_if [fw_simps]: "wp (if b then m else n) Q s = (if b then wp m Q s else wp n Q s)"
  by simp

lemma wp_doif [fw_simps]: "wp (doif b m) Q s = (if b then wp m Q s else Q () s)"
  by (simp add: doif_def fw_simps)

lemma wp_sys_code [fw_simps]:
  "wp (sys_code k c) Q s = Q (code (k (calls s) c)) (log_call c (k (calls s) c) s)"
  by (simp add: sys_code_def fw_simps)

lemma wp_sys_ok [fw_simps]:
  "wp (sys_ok k c) Q s = Q (code (k (calls s) c) \<noteq> 0) (log_call c (k (calls s) c) s)"
  by (simp add: sys_ok_def fw_simps)

lemma wp_sys_void [fw_simps]: "wp (sys_void k c) Q s = Q () (log_call c (k (calls s) c) s)"
  by (simp add: sys_void_def fw_simps)

lemma wp_mono: "wp m Q s \<Longrightarrow> (\<And>a t. Q a t \<Longrightarrow> Q' a t) \<Longrightarrow> wp m Q' s"
  by (auto simp: wp_def split: prod.splits)

lemma wpD: "wp m Q s \<Longrightarrow> run_state m s = (a, t) \<Longrightarrow> Q a t"
  by (simp add: wp_def)

lemma wpI: "(\<And>a t. run_state m s = (a, t) \<Longrightarrow> Q a t) \<Longrightarrow> wp m Q s"
  by (simp add: wp_def split: prod.split)

lemma wp_bindI:
  "wp m P s \<Longrightarrow> (\<And>a t. P a t \<Longrightarrow> wp (f a) Q t) \<Longrightarrow> wp (State_Monad.bind m f) Q s"
  unfolding wp_bind by (erule wp_mono)

lemma wp_after: "(\<And>a t. wp (f a) Q t) \<Longrightarrow> wp (State_Monad.bind m f) Q s"
  by (rule wp_bindI [where P = "\<lambda>_ _. True"]) (simp_all add: wp_def)

lemma wp_conj: "wp m P s \<Longrightarrow> wp m Q s \<Longrightarrow> wp m (\<lambda>a t. P a t \<and> Q a t) s"
  by (auto simp: wp_def split: prod.splits)

lemma calls_log_call [simp]: "calls (log_call c r s) = calls s @ [(c, r)]"
  by (simp add: log_call_def)

lemma pending_log_call [simp]: "pending (log_call c r s) = pending s"
  by (simp add: log_call_def)

section \<open>Invariants of computations\<close>

text \<open>\<open>keeps I m\<close>: running \<open>m\<close> in a state with \<open>I\<close> ends in one.  The rules follow the syntax.\<close>

definition keeps :: "('s \<Rightarrow> bool) \<Rightarrow> ('s, 'a) state \<Rightarrow> bool" where
  "keeps I m \<longleftrightarrow> (\<forall>s. I s \<longrightarrow> wp m (\<lambda>_. I) s)"

named_theorems keeps_rules \<open>an invariant is kept by a firmware computation\<close>

lemma keepsD: "keeps I m \<Longrightarrow> I s \<Longrightarrow> wp m (\<lambda>_. I) s"
  by (simp add: keeps_def)

lemma keeps_run: "keeps I m \<Longrightarrow> I s \<Longrightarrow> run_state m s = (a, t) \<Longrightarrow> I t"
  by (blast dest: keepsD wpD)

lemma keeps_return [keeps_rules]: "keeps I (ret x)"
  by (simp add: keeps_def fw_simps)

lemma keeps_gets [keeps_rules]: "keeps I (gets f)"
  by (simp add: keeps_def fw_simps)

lemma keeps_bind [keeps_rules]: "keeps I m \<Longrightarrow> (\<And>x. keeps I (f x)) \<Longrightarrow> keeps I (State_Monad.bind m f)"
  unfolding keeps_def wp_bind by (meson wp_mono)

lemma keeps_if [keeps_rules]: "keeps I m \<Longrightarrow> keeps I n \<Longrightarrow> keeps I (if b then m else n)"
  by simp

lemma keeps_doif [keeps_rules]: "keeps I m \<Longrightarrow> keeps I (doif b m)"
  by (simp add: doif_def keeps_return)

lemma keeps_option [keeps_rules]:
  "keeps I m \<Longrightarrow> (\<And>x. keeps I (f x)) \<Longrightarrow> keeps I (case_option m f x)"
  by (cases x) simp_all

lemma keeps_prod [keeps_rules]: "(\<And>x y. keeps I (f x y)) \<Longrightarrow> keeps I (case_prod f x)"
  by (cases x) simp

lemma keeps_modify: "(\<And>s. I s \<Longrightarrow> I (f s)) \<Longrightarrow> keeps I (modify f)"
  by (simp add: keeps_def fw_simps)

lemma keeps_conj: "keeps I m \<Longrightarrow> keeps J m \<Longrightarrow> keeps (\<lambda>s. I s \<and> J s) m"
  by (auto simp: keeps_def intro: wp_conj)

text \<open>The contract of an invariant that speaks neither of the calls nor of the pending work.\<close>

locale static_invariant =
  fixes I :: "('w, 'x) firmware_scheme \<Rightarrow> bool"
  assumes ignores_calls: "I (s\<lparr>calls := cs\<rparr>) = I s"
    and ignores_pending: "I (s\<lparr>pending := ws\<rparr>) = I s"
begin

lemma keeps_sys: "keeps I (sys k c)"
  by (simp add: keeps_def fw_simps log_call_def ignores_calls)

lemma keeps_sys_variants: "keeps I (sys_code k c)" "keeps I (sys_ok k c)" "keeps I (sys_void k c)"
  unfolding sys_code_def sys_ok_def sys_void_def by (intro keeps_rules keeps_sys)+

lemma keeps_work:
  "keeps I (work_submit k w)" "keeps I (work_schedule k w ms)"
  "keeps I (work_reschedule k w ms)" "keeps I (work_cancel k w)"
  unfolding work_submit_def work_schedule_def work_reschedule_def work_cancel_def
  by (intro keeps_rules keeps_sys keeps_modify; simp add: ignores_pending)+

lemmas keeps_static = keeps_sys keeps_sys_variants keeps_work

end

section \<open>Computations that only make calls\<close>

definition only_calls ::
  "('w zcall \<Rightarrow> bool) \<Rightarrow> (('w, 'x) firmware_scheme, 'a) state \<Rightarrow> bool" where
  "only_calls P m \<longleftrightarrow>
     (\<forall>s. wp m (\<lambda>_ t. \<exists>cs. t = s\<lparr>calls := calls s @ cs\<rparr> \<and> list_all (\<lambda>c. P (fst c)) cs) s)"

named_theorems calls_rules \<open>a firmware computation only makes calls\<close>

lemma only_calls_return [calls_rules]: "only_calls P (ret x)"
  by (auto simp: only_calls_def fw_simps intro: exI [of _ "[]"])

lemma only_calls_gets [calls_rules]: "only_calls P (gets f)"
  by (auto simp: only_calls_def fw_simps intro: exI [of _ "[]"])

lemma only_calls_bind [calls_rules]:
  assumes "only_calls P m" and "\<And>x. only_calls P (f x)"
  shows "only_calls P (State_Monad.bind m f)"
  unfolding only_calls_def
proof
  fix s
  show "wp (State_Monad.bind m f) (\<lambda>_ t. \<exists>cs. t = s\<lparr>calls := calls s @ cs\<rparr> \<and>
      list_all (\<lambda>c. P (fst c)) cs) s"
  proof (rule wp_bindI)
    show "wp m (\<lambda>_ t. \<exists>cs. t = s\<lparr>calls := calls s @ cs\<rparr> \<and> list_all (\<lambda>c. P (fst c)) cs) s"
      using assms(1) by (simp add: only_calls_def)
  next
    fix a t
    assume "\<exists>cs. t = s\<lparr>calls := calls s @ cs\<rparr> \<and> list_all (\<lambda>c. P (fst c)) cs"
    then obtain cs where cs: "t = s\<lparr>calls := calls s @ cs\<rparr>" "list_all (\<lambda>c. P (fst c)) cs" by blast
    have "wp (f a) (\<lambda>_ u. \<exists>ds. u = t\<lparr>calls := calls t @ ds\<rparr> \<and> list_all (\<lambda>c. P (fst c)) ds) t"
      using assms(2) by (simp add: only_calls_def)
    then show "wp (f a) (\<lambda>_ t. \<exists>cs. t = s\<lparr>calls := calls s @ cs\<rparr> \<and>
        list_all (\<lambda>c. P (fst c)) cs) t"
    proof (rule wp_mono)
      fix b u
      assume "\<exists>ds. u = t\<lparr>calls := calls t @ ds\<rparr> \<and> list_all (\<lambda>c. P (fst c)) ds"
      then obtain ds where "u = t\<lparr>calls := calls t @ ds\<rparr>" "list_all (\<lambda>c. P (fst c)) ds" by blast
      with cs show "\<exists>cs. u = s\<lparr>calls := calls s @ cs\<rparr> \<and> list_all (\<lambda>c. P (fst c)) cs"
        by (intro exI [of _ "cs @ ds"]) simp
    qed
  qed
qed

lemma only_calls_if [calls_rules]: "only_calls P m \<Longrightarrow> only_calls P n \<Longrightarrow> only_calls P (if b then m else n)"
  by simp

lemma only_calls_doif [calls_rules]: "only_calls P m \<Longrightarrow> only_calls P (doif b m)"
  by (simp add: doif_def only_calls_return)

lemma only_calls_option [calls_rules]:
  "only_calls P m \<Longrightarrow> (\<And>x. only_calls P (f x)) \<Longrightarrow> only_calls P (case_option m f x)"
  by (cases x) simp_all

lemma only_calls_prod [calls_rules]: "(\<And>x y. only_calls P (f x y)) \<Longrightarrow> only_calls P (case_prod f x)"
  by (cases x) simp

lemma only_calls_sys: "P c \<Longrightarrow> only_calls P (sys k c)"
  by (auto simp: only_calls_def fw_simps log_call_def)

lemma only_calls_variants:
  "P c \<Longrightarrow> only_calls P (sys_code k c)" "P c \<Longrightarrow> only_calls P (sys_ok k c)"
  "P c \<Longrightarrow> only_calls P (sys_void k c)"
  unfolding sys_code_def sys_ok_def sys_void_def by (intro calls_rules only_calls_sys; simp)+

lemmas only_calls_calls = only_calls_sys only_calls_variants

lemma only_calls_mono: "only_calls P m \<Longrightarrow> (\<And>c. P c \<Longrightarrow> Q c) \<Longrightarrow> only_calls Q m"
  unfolding only_calls_def by (fast elim!: wp_mono intro: list.pred_mono_strong)

lemma only_calls_keeps:
  assumes "only_calls P m"
    and "\<And>s cs. I s \<Longrightarrow> list_all (\<lambda>c. P (fst c)) cs \<Longrightarrow> I (s\<lparr>calls := calls s @ cs\<rparr>)"
  shows "keeps I m"
  unfolding keeps_def
proof (intro allI impI)
  fix s
  assume I: "I s"
  have "wp m (\<lambda>_ t. \<exists>cs. t = s\<lparr>calls := calls s @ cs\<rparr> \<and> list_all (\<lambda>c. P (fst c)) cs) s"
    using assms(1) by (simp add: only_calls_def)
  then show "wp m (\<lambda>_. I) s"
    by (rule wp_mono) (use assms(2) I in blast)
qed

section \<open>Pins\<close>

text \<open>The level that the calls so far have driven a pin to: the last successful one counts.\<close>

definition drives :: "pin \<Rightarrow> 'w zcall \<times> reply \<Rightarrow> bool option \<Rightarrow> bool option" where
  "drives p c lvl =
     (case fst c of
        Gpio (GpioSet q v) \<Rightarrow> if p = q \<and> code (snd c) = 0 then Some v else lvl
      | Gpio (GpioConfigureInactive q) \<Rightarrow> if p = q \<and> code (snd c) = 0 then Some False else lvl
      | _ \<Rightarrow> lvl)"

definition pin_level :: "pin \<Rightarrow> 'w calls \<Rightarrow> bool option" where
  "pin_level p cs = foldl (\<lambda>lvl c. drives p c lvl) None cs"

lemma pin_level_append [simp]:
  "pin_level p (cs @ ds) = foldl (\<lambda>lvl c. drives p c lvl) (pin_level p cs) ds"
  by (simp add: pin_level_def)

lemma drives_simps [simp]:
  "drives p (Gpio (GpioSet q v), r) lvl = (if p = q \<and> code r = 0 then Some v else lvl)"
  "drives p (Gpio (GpioConfigureInactive q), r) lvl = (if p = q \<and> code r = 0 then Some False else lvl)"
  "drives p (Driver d, r) lvl = lvl" "drives p (Bus b, r) lvl = lvl"
  "drives p (Kernel kc, r) lvl = lvl" "drives p (Bt bt, r) lvl = lvl"
  "drives p (Ot ot, r) lvl = lvl" "drives p (Coap co, r) lvl = lvl" "drives p (Psa ps, r) lvl = lvl"
  by (simp_all add: drives_def)

text \<open>GPIO ports that are ready and accept every level.\<close>

definition gpio_works :: "'w kernel \<Rightarrow> bool" where
  "gpio_works k \<longleftrightarrow> (\<forall>cs p. code (k cs (Driver (DeviceReady (PortOf p)))) \<noteq> 0 \<and>
     (\<forall>v. code (k cs (Gpio (GpioSet p v))) = 0))"

end
