(* ===== verification/Redcon.thy ===== *)
theory Redcon
  imports Firmware
begin

text \<open>
  Model of \<^verbatim>\<open>src/devices/common/mcu/xiao_nrf54l15/src/redcon.c\<close> and \<^verbatim>\<open>include/txing_redcon.h\<close>: the
  Bluetooth firmware library of the nRF54L15 devices.  The static variables are the record
  \<open>redcon_state\<close>; the build configuration (Kconfig values, devicetree facts, the factory record in
  flash), the callbacks of the application and the kernel are the record \<open>redcon_env\<close>.  Functions
  keep their C names.
\<close>

section \<open>Constants\<close>

definition TXING_REDCON_PROTOCOL_VERSION :: u8 where "TXING_REDCON_PROTOCOL_VERSION = 2"
definition TXING_REDCON_LEVEL_1 :: u8 where "TXING_REDCON_LEVEL_1 = 1"
definition TXING_REDCON_IDLE :: u8 where "TXING_REDCON_IDLE = 4"
definition REDCON_FACTORY_DATA_MAGIC :: bytes where "REDCON_FACTORY_DATA_MAGIC = [0x54, 0x58, 0x52, 0x31]"
definition REDCON_FACTORY_DEVICE_NAME_SIZE :: nat where "REDCON_FACTORY_DEVICE_NAME_SIZE = 26"
definition TXING_REDCON_BLE_ADV_MAX_NAME_LEN :: nat where "TXING_REDCON_BLE_ADV_MAX_NAME_LEN = 26"

text \<open>The text \<^verbatim>\<open>txing-unconfigured\<close>.\<close>

definition REDCON_DEFAULT_DEVICE_NAME :: bytes where
  "REDCON_DEFAULT_DEVICE_NAME =
     [0x74, 0x78, 0x69, 0x6e, 0x67, 0x2d, 0x75, 0x6e, 0x63, 0x6f, 0x6e, 0x66, 0x69, 0x67, 0x75, 0x72,
      0x65, 0x64]"

lemmas redcon_constants = TXING_REDCON_PROTOCOL_VERSION_def TXING_REDCON_LEVEL_1_def
  TXING_REDCON_IDLE_def REDCON_FACTORY_DATA_MAGIC_def REDCON_FACTORY_DEVICE_NAME_SIZE_def
  TXING_REDCON_BLE_ADV_MAX_NAME_LEN_def REDCON_DEFAULT_DEVICE_NAME_def

section \<open>State and environment\<close>

datatype redcon_work =
  MeasurementNotifyWork | IdleMeasurementNotifyWork | RedconCommandWork | AdvertiseWork

record redcon_state = "redcon_work firmware" +
  device_name :: bytes
  ad_name_len :: nat
  current_redcon :: u8
  redcon_state_payload :: bytes
  power_measurement_payload :: bytes
  weather_measurement_payload :: bytes
  connected_conn :: "nat option"

definition initial_redcon_state :: redcon_state where
  "initial_redcon_state =
     \<lparr>calls = [], pending = {}, device_name = REDCON_DEFAULT_DEVICE_NAME,
      ad_name_len = length REDCON_DEFAULT_DEVICE_NAME, current_redcon = TXING_REDCON_IDLE,
      redcon_state_payload = [TXING_REDCON_PROTOCOL_VERSION, TXING_REDCON_IDLE],
      power_measurement_payload = [TXING_REDCON_PROTOCOL_VERSION, 0, 0],
      weather_measurement_payload = TXING_REDCON_PROTOCOL_VERSION # replicate 10 0,
      connected_conn = None\<rparr>"

text \<open>
  \<^verbatim>\<open>struct txing_redcon_ops\<close>.  The weather callback gets the payload buffer and returns its code and
  the buffer's new contents.
\<close>

record txing_redcon_ops =
  led :: "pin option"
  power :: "pin option"
  sample_weather_measurement :: "(bytes \<Rightarrow> (redcon_state, int \<times> bytes) state) option"
  before_idle_measurement :: "(redcon_state, unit) state option"
  after_idle_measurement :: "(redcon_state, unit) state option"
  app_init :: "(redcon_state, unit) state option"

record redcon_env =
  kernel :: "redcon_work kernel"
  redcon_ops :: txing_redcon_ops
  has_pdm_imu_pwr :: bool
  has_vbat_pwr :: bool
  weather_measurement :: bool
  preserve_level :: bool
  adc_differential :: bool
  command_levels_mask :: u32
  conn_interval_ms :: u16
  conn_latency :: u16
  conn_supervision_ms :: u16
  notify_interval_seconds :: int
  idle_interval_seconds :: int
  adc_settle_ms :: int
  adv_tx_power_dbm :: int
  device_name_max :: nat
  factory_data :: bytes
  crc32_ieee :: "bytes \<Rightarrow> u32"

type_synonym 'a redcon = "(redcon_state, 'a) state"

section \<open>Outputs\<close>

definition txing_redcon_configure_output_inactive :: "redcon_env \<Rightarrow> pin option \<Rightarrow> unit redcon" where
  "txing_redcon_configure_output_inactive E pin =
     (case pin of None \<Rightarrow> ret ()
      | Some p \<Rightarrow> do {
          ready \<leftarrow> sys_ok (kernel E) (Driver (DeviceReady (PortOf p)));
          doif ready (sys_void (kernel E) (Gpio (GpioConfigureInactive p))) })"

definition txing_redcon_set_output_active :: "redcon_env \<Rightarrow> pin option \<Rightarrow> bool \<Rightarrow> unit redcon" where
  "txing_redcon_set_output_active E pin act =
     (case pin of None \<Rightarrow> ret ()
      | Some p \<Rightarrow> do {
          ready \<leftarrow> sys_ok (kernel E) (Driver (DeviceReady (PortOf p)));
          doif ready (sys_void (kernel E) (Gpio (GpioSet p act))) })"

definition set_wakeup_hardware_state :: "redcon_env \<Rightarrow> bool \<Rightarrow> unit redcon" where
  "set_wakeup_hardware_state E act = do {
     txing_redcon_set_output_active E (led (redcon_ops E)) act;
     txing_redcon_set_output_active E (power (redcon_ops E)) act }"

definition disable_regulator :: "redcon_env \<Rightarrow> dev \<Rightarrow> unit redcon" where
  "disable_regulator E reg = do {
     ready \<leftarrow> sys_ok (kernel E) (Driver (DeviceReady reg));
     doif ready (sys_void (kernel E) (Driver (RegulatorDisable reg))) }"

definition disable_xiao_load_regulators :: "redcon_env \<Rightarrow> unit redcon" where
  "disable_xiao_load_regulators E = do {
     doif (has_pdm_imu_pwr E) (disable_regulator E PdmImuPwr);
     doif (has_vbat_pwr E) (disable_regulator E VbatPwr) }"

definition suspend_battery_adc :: "redcon_env \<Rightarrow> unit redcon" where
  "suspend_battery_adc E = do {
     on \<leftarrow> sys_ok (kernel E) (Driver SaadcInitCheck);
     doif on (sys_void (kernel E) (Driver SaadcUninit)) }"

definition resume_battery_adc :: "redcon_env \<Rightarrow> unit redcon" where
  "resume_battery_adc E = do {
     on \<leftarrow> sys_ok (kernel E) (Driver SaadcInitCheck);
     doif (\<not> on) (sys_void (kernel E) (Driver SaadcInit)) }"

definition enter_sleep_hardware_state :: "redcon_env \<Rightarrow> unit redcon" where
  "enter_sleep_hardware_state E = do {
     set_wakeup_hardware_state E False;
     suspend_battery_adc E;
     disable_xiao_load_regulators E }"

section \<open>Levels and the device name\<close>

definition redcon_is_wakeup :: "u8 \<Rightarrow> bool" where
  "redcon_is_wakeup redcon \<longleftrightarrow> redcon \<ge> TXING_REDCON_LEVEL_1 \<and> redcon < TXING_REDCON_IDLE"

definition redcon_command_level_is_supported :: "redcon_env \<Rightarrow> u8 \<Rightarrow> bool" where
  "redcon_command_level_is_supported E redcon =
     (if redcon < TXING_REDCON_LEVEL_1 \<or> redcon > TXING_REDCON_IDLE then False
      else command_levels_mask E AND push_bit (unat redcon) 1 \<noteq> 0)"

definition is_valid_device_name_byte :: "u8 \<Rightarrow> bool" where
  "is_valid_device_name_byte v \<longleftrightarrow> v \<ge> 0x21 \<and> v \<le> 0x7e"

definition set_device_name_from_bytes :: "redcon_env \<Rightarrow> bytes \<Rightarrow> u8 \<Rightarrow> bool redcon" where
  "set_device_name_from_bytes E name len =
     (if len = 0 \<or> unat len > device_name_max E \<or> unat len > TXING_REDCON_BLE_ADV_MAX_NAME_LEN
      then ret False
      else if \<not> list_all is_valid_device_name_byte (take (unat len) name) then ret False
      else do {
        modify (\<lambda>s. s\<lparr>device_name := take (unat len) name, ad_name_len := unat len\<rparr>);
        ret True })"

text \<open>
  \<^verbatim>\<open>struct redcon_factory_data\<close> at its byte offsets: magic, version, length, name, CRC (little endian).
\<close>

definition factory_crc_le :: "bytes \<Rightarrow> u32" where
  "factory_crc_le f =
     (ucast (f ! 32) :: u32) OR push_bit 8 (ucast (f ! 33)) OR push_bit 16 (ucast (f ! 34)) OR
     push_bit 24 (ucast (f ! 35))"

definition load_device_name_from_nve :: "redcon_env \<Rightarrow> bool redcon" where
  "load_device_name_from_nve E =
     (let f = buffer 36 (factory_data E) in
      if take 4 f \<noteq> REDCON_FACTORY_DATA_MAGIC \<or> f ! 4 \<noteq> 1 then ret False
      else if f ! 5 = 0 \<or> unat (f ! 5) > REDCON_FACTORY_DEVICE_NAME_SIZE then ret False
      else if crc32_ieee E (take 32 f) \<noteq> factory_crc_le f then ret False
      else set_device_name_from_bytes E (take 26 (drop 6 f)) (f ! 5))"

section \<open>Battery\<close>

text \<open>The doubling and saturation of \<^verbatim>\<open>val_mv\<close>.\<close>

definition doubled_mv :: "int \<Rightarrow> u16" where
  "doubled_mv val_mv =
     (let val_mv = i32 (val_mv * 2) in word_of_int (if val_mv > 65535 then 65535 else val_mv))"

text \<open>The part of \<^verbatim>\<open>sample_battery_mv\<close> between power-up and the label \<^verbatim>\<open>out\<close>.\<close>

definition convert_battery_mv :: "redcon_env \<Rightarrow> u16 redcon" where
  "convert_battery_mv E = do {
     err \<leftarrow> sys_code (kernel E) (Driver AdcChannelSetup);
     if err < 0 then ret 0
     else do {
       sys (kernel E) (Driver AdcSequenceInit);
       r \<leftarrow> sys (kernel E) (Driver AdcRead);
       if code r < 0 then ret 0
       else do {
         let raw = (word_of_int (out r) :: u16);
         let val = (if adc_differential E then sint raw else uint raw);
         r \<leftarrow> sys (kernel E) (Driver (AdcRawToMillivolts val));
         let val_mv = i32 (out r);
         if code r < 0 \<or> val_mv < 0 then ret 0
         else ret (doubled_mv val_mv) } } }"

definition sample_battery_mv :: "redcon_env \<Rightarrow> u16 redcon" where
  "sample_battery_mv E = do {
     ready \<leftarrow> sys_ok (kernel E) (Driver (DeviceReady BatteryAdc));
     if \<not> ready then do { suspend_battery_adc E; ret 0 }
     else do {
       resume_battery_adc E;
       doif (has_vbat_pwr E) (do {
         on \<leftarrow> sys_ok (kernel E) (Driver (DeviceReady VbatPwr));
         doif on (do {
           sys (kernel E) (Driver (RegulatorEnable VbatPwr));
           sys_void (kernel E) (Kernel (Sleep (adc_settle_ms E))) }) });
       result \<leftarrow> convert_battery_mv E;
       doif (has_vbat_pwr E) (disable_regulator E VbatPwr);
       suspend_battery_adc E;
       ret result } }"

section \<open>Payloads\<close>

definition encode_redcon_state :: "u8 \<Rightarrow> unit redcon" where
  "encode_redcon_state redcon =
     modify (\<lambda>s. s\<lparr>redcon_state_payload := [TXING_REDCON_PROTOCOL_VERSION, redcon]\<rparr>)"

definition get_current_redcon :: "u8 redcon" where
  "get_current_redcon = gets current_redcon"

definition set_current_redcon :: "u8 \<Rightarrow> unit redcon" where
  "set_current_redcon redcon = do {
     modify (\<lambda>s. s\<lparr>current_redcon := redcon\<rparr>);
     encode_redcon_state redcon }"

definition copy_redcon_state_payload :: "bytes redcon" where
  "copy_redcon_state_payload = gets redcon_state_payload"

definition put_le16 :: "u16 \<Rightarrow> bytes" where
  "put_le16 v = [ucast v, ucast (drop_bit 8 v)]"

definition encode_power_measurement :: "u16 \<Rightarrow> unit redcon" where
  "encode_power_measurement mv =
     modify (\<lambda>s. s\<lparr>power_measurement_payload := TXING_REDCON_PROTOCOL_VERSION # put_le16 mv\<rparr>)"

definition refresh_power_measurement_payload :: "redcon_env \<Rightarrow> unit redcon" where
  "refresh_power_measurement_payload E = do {
     mv \<leftarrow> sample_battery_mv E;
     encode_power_measurement mv }"

definition refresh_weather_measurement_payload :: "redcon_env \<Rightarrow> int redcon" where
  "refresh_weather_measurement_payload E =
     (case sample_weather_measurement (redcon_ops E) of
        None \<Rightarrow> ret (- ENOTSUP)
      | Some sample \<Rightarrow> do {
          payload \<leftarrow> gets weather_measurement_payload;
          (err, payload) \<leftarrow> sample payload;
          modify (\<lambda>s. s\<lparr>weather_measurement_payload := payload\<rparr>);
          ret err })"

section \<open>Connection parameters\<close>

definition conn_interval_units_from_ms :: "u16 \<Rightarrow> u16" where
  "conn_interval_units_from_ms ms = ucast (((ucast ms :: u32) * 4 + 2) div 5)"

definition conn_supervision_units_from_ms :: "u16 \<Rightarrow> u16" where
  "conn_supervision_units_from_ms ms = ucast ((ucast ms :: u32) div 10)"

definition validate_connection_params :: "u16 \<Rightarrow> u16 \<Rightarrow> u16 \<Rightarrow> bool" where
  "validate_connection_params interval_ms latency supervision_ms =
     (let interval_units = conn_interval_units_from_ms interval_ms;
          supervision_units = conn_supervision_units_from_ms supervision_ms;
          minimum_supervision_ms = (ucast interval_ms :: u32) * (ucast latency + 1) * 2
      in if interval_units < 6 \<or> interval_units > 3200 then False
         else if latency > 499 then False
         else if supervision_units < 10 \<or> supervision_units > 3200 then False
         else if (ucast supervision_ms :: u32) \<le> minimum_supervision_ms then False
         else True)"

definition request_connection_params :: "redcon_env \<Rightarrow> nat option \<Rightarrow> unit redcon" where
  "request_connection_params E conn =
     (case conn of None \<Rightarrow> ret ()
      | Some c \<Rightarrow>
        if \<not> validate_connection_params (conn_interval_ms E) (conn_latency E) (conn_supervision_ms E)
        then ret ()
        else let u = conn_interval_units_from_ms (conn_interval_ms E) in
          sys_void (kernel E) (Bt (ConnParamUpdate c u u (conn_latency E)
            (conn_supervision_units_from_ms (conn_supervision_ms E)))))"

section \<open>Attribute access\<close>

definition decode_redcon_command :: "redcon_env \<Rightarrow> bytes \<Rightarrow> u8 option" where
  "decode_redcon_command E bs =
     (case bs of
        [version, redcon] \<Rightarrow>
          if version \<noteq> TXING_REDCON_PROTOCOL_VERSION then None
          else if \<not> redcon_command_level_is_supported E redcon then None
          else Some redcon
      | _ \<Rightarrow> None)"

definition BT_ATT_ERR_INVALID_OFFSET :: int where "BT_ATT_ERR_INVALID_OFFSET = 0x07"
definition BT_ATT_ERR_UNLIKELY :: int where "BT_ATT_ERR_UNLIKELY = 0x0e"
definition BT_ATT_ERR_VALUE_NOT_ALLOWED :: int where "BT_ATT_ERR_VALUE_NOT_ALLOWED = 0x13"

lemmas att_error_defs = BT_ATT_ERR_INVALID_OFFSET_def BT_ATT_ERR_UNLIKELY_def
  BT_ATT_ERR_VALUE_NOT_ALLOWED_def

definition read_state :: "redcon_env \<Rightarrow> nat \<Rightarrow> nat \<Rightarrow> int redcon" where
  "read_state E len offset = do {
     payload \<leftarrow> copy_redcon_state_payload;
     sys_code (kernel E) (Bt (GattRead len offset payload)) }"

definition read_power_measurement :: "redcon_env \<Rightarrow> nat \<Rightarrow> nat \<Rightarrow> int redcon" where
  "read_power_measurement E len offset = do {
     refresh_power_measurement_payload E;
     payload \<leftarrow> gets power_measurement_payload;
     sys_code (kernel E) (Bt (GattRead len offset payload)) }"

definition read_weather_measurement :: "redcon_env \<Rightarrow> nat \<Rightarrow> nat \<Rightarrow> int redcon" where
  "read_weather_measurement E len offset = do {
     err \<leftarrow> refresh_weather_measurement_payload E;
     if err < 0 then ret (- BT_ATT_ERR_UNLIKELY)
     else do {
       payload \<leftarrow> gets weather_measurement_payload;
       sys_code (kernel E) (Bt (GattRead len offset payload)) } }"

definition write_command :: "redcon_env \<Rightarrow> bytes \<Rightarrow> nat \<Rightarrow> int redcon" where
  "write_command E bs offset =
     (if offset \<noteq> 0 then ret (- BT_ATT_ERR_INVALID_OFFSET)
      else case decode_redcon_command E bs of
             None \<Rightarrow> ret (- BT_ATT_ERR_VALUE_NOT_ALLOWED)
           | Some redcon \<Rightarrow> do {
               set_current_redcon redcon;
               work_submit (kernel E) RedconCommandWork;
               ret (int (length bs)) })"

section \<open>Notifications\<close>

text \<open>The attribute indices are those of \<^verbatim>\<open>redcon_svc\<close>.\<close>

definition notify_redcon_state :: "redcon_env \<Rightarrow> unit redcon" where
  "notify_redcon_state E = do {
     payload \<leftarrow> copy_redcon_state_payload;
     sys_void (kernel E) (Bt (GattNotify 4 payload)) }"

definition notify_power_measurement :: "redcon_env \<Rightarrow> unit redcon" where
  "notify_power_measurement E = do {
     payload \<leftarrow> gets power_measurement_payload;
     sys_void (kernel E) (Bt (GattNotify 7 payload)) }"

definition notify_weather_measurement :: "redcon_env \<Rightarrow> unit redcon" where
  "notify_weather_measurement E = do {
     payload \<leftarrow> gets weather_measurement_payload;
     sys_void (kernel E) (Bt (GattNotify 10 payload)) }"

definition call_hook :: "unit redcon option \<Rightarrow> unit redcon" where
  "call_hook hook = (case hook of None \<Rightarrow> ret () | Some m \<Rightarrow> m)"

definition sample_and_notify_measurements :: "redcon_env \<Rightarrow> bool \<Rightarrow> unit redcon" where
  "sample_and_notify_measurements E use_idle_hooks = do {
     doif use_idle_hooks (call_hook (before_idle_measurement (redcon_ops E)));
     refresh_power_measurement_payload E;
     weather_err \<leftarrow> (if weather_measurement E then refresh_weather_measurement_payload E
                     else ret (- ENOTSUP));
     doif use_idle_hooks (call_hook (after_idle_measurement (redcon_ops E)));
     notify_power_measurement E;
     doif (weather_measurement E \<and> weather_err = 0) (notify_weather_measurement E) }"

definition measurement_notify_work_handler :: "redcon_env \<Rightarrow> unit redcon" where
  "measurement_notify_work_handler E = do {
     redcon \<leftarrow> get_current_redcon;
     doif (redcon_is_wakeup redcon) (do {
       sample_and_notify_measurements E False;
       work_schedule (kernel E) MeasurementNotifyWork (notify_interval_seconds E * 1000) }) }"

section \<open>The connection\<close>

definition ref_connected_conn :: "redcon_env \<Rightarrow> nat option redcon" where
  "ref_connected_conn E = do {
     conn \<leftarrow> gets connected_conn;
     case conn of None \<Rightarrow> ret None
     | Some c \<Rightarrow> do { sys (kernel E) (Bt (ConnRef c)); ret (Some c) } }"

definition set_connected_conn :: "redcon_env \<Rightarrow> nat option \<Rightarrow> unit redcon" where
  "set_connected_conn E conn = do {
     (case conn of None \<Rightarrow> ret () | Some c \<Rightarrow> sys_void (kernel E) (Bt (ConnRef c)));
     previous \<leftarrow> gets connected_conn;
     modify (\<lambda>s. s\<lparr>connected_conn := conn\<rparr>);
     (case previous of None \<Rightarrow> ret () | Some c \<Rightarrow> sys_void (kernel E) (Bt (ConnUnref c))) }"

definition cancel_idle_measurement_notifications :: "redcon_env \<Rightarrow> unit redcon" where
  "cancel_idle_measurement_notifications E = work_cancel (kernel E) IdleMeasurementNotifyWork"

definition schedule_idle_measurement_notification :: "redcon_env \<Rightarrow> unit redcon" where
  "schedule_idle_measurement_notification E = do {
     redcon \<leftarrow> get_current_redcon;
     if redcon \<noteq> TXING_REDCON_IDLE then ret ()
     else do {
       conn \<leftarrow> ref_connected_conn E;
       case conn of None \<Rightarrow> ret ()
       | Some c \<Rightarrow> do {
           sys (kernel E) (Bt (ConnUnref c));
           work_schedule (kernel E) IdleMeasurementNotifyWork (idle_interval_seconds E * 1000) } } }"

definition idle_measurement_notify_work_handler :: "redcon_env \<Rightarrow> unit redcon" where
  "idle_measurement_notify_work_handler E = do {
     redcon \<leftarrow> get_current_redcon;
     if redcon \<noteq> TXING_REDCON_IDLE then ret ()
     else do {
       conn \<leftarrow> ref_connected_conn E;
       case conn of None \<Rightarrow> ret ()
       | Some c \<Rightarrow> do {
           sys (kernel E) (Bt (ConnUnref c));
           sample_and_notify_measurements E True;
           enter_sleep_hardware_state E;
           schedule_idle_measurement_notification E } } }"

definition enter_redcon_wakeup :: "redcon_env \<Rightarrow> nat option \<Rightarrow> unit redcon" where
  "enter_redcon_wakeup E conn = do {
     cancel_idle_measurement_notifications E;
     set_wakeup_hardware_state E True;
     request_connection_params E conn;
     notify_redcon_state E;
     sample_and_notify_measurements E False;
     work_reschedule (kernel E) MeasurementNotifyWork (notify_interval_seconds E * 1000) }"

definition enter_redcon_idle :: "redcon_env \<Rightarrow> unit redcon" where
  "enter_redcon_idle E = do {
     work_cancel (kernel E) MeasurementNotifyWork;
     enter_sleep_hardware_state E;
     notify_redcon_state E;
     sample_and_notify_measurements E False;
     enter_sleep_hardware_state E;
     schedule_idle_measurement_notification E }"

definition redcon_command_work_handler :: "redcon_env \<Rightarrow> unit redcon" where
  "redcon_command_work_handler E = do {
     redcon \<leftarrow> get_current_redcon;
     conn \<leftarrow> ref_connected_conn E;
     (if redcon_is_wakeup redcon then enter_redcon_wakeup E conn else enter_redcon_idle E);
     (case conn of None \<Rightarrow> ret () | Some c \<Rightarrow> sys_void (kernel E) (Bt (ConnUnref c))) }"

section \<open>Advertising and startup\<close>

definition set_adv_tx_power :: "redcon_env \<Rightarrow> int \<Rightarrow> int redcon" where
  "set_adv_tx_power E dbm = do {
     buf \<leftarrow> sys_ok (kernel E) (Bt HciCmdAlloc);
     if \<not> buf then ret (- ENOMEM)
     else do {
       r \<leftarrow> sys (kernel E) (Bt (HciWriteTxPower dbm));
       if code r < 0 then ret (code r)
       else do {
         let status = buffer 1 (data r) ! 0;
         sys (kernel E) (Bt NetBufUnref);
         ret (if status \<noteq> 0 \<or> out r \<noteq> dbm then - EIO else code r) } } }"

definition start_advertising :: "redcon_env \<Rightarrow> int redcon" where
  "start_advertising E = do {
     n \<leftarrow> gets ad_name_len;
     sys_code (kernel E) (Bt (AdvStart n)) }"

definition advertise_work_handler :: "redcon_env \<Rightarrow> unit redcon" where
  "advertise_work_handler E = do { start_advertising E; ret () }"

definition connected :: "redcon_env \<Rightarrow> nat \<Rightarrow> u8 \<Rightarrow> unit redcon" where
  "connected E conn err =
     (if err \<noteq> 0 then work_submit (kernel E) AdvertiseWork
      else do {
        set_connected_conn E (Some conn);
        redcon \<leftarrow> get_current_redcon;
        doif (redcon = TXING_REDCON_IDLE) (schedule_idle_measurement_notification E) })"

definition disconnected :: "redcon_env \<Rightarrow> unit redcon" where
  "disconnected E = do {
     cancel_idle_measurement_notifications E;
     set_connected_conn E None;
     redcon \<leftarrow> get_current_redcon;
     (if redcon_is_wakeup redcon \<and> preserve_level E
      then do {
        set_wakeup_hardware_state E True;
        work_reschedule (kernel E) MeasurementNotifyWork (notify_interval_seconds E * 1000) }
      else do {
        set_current_redcon TXING_REDCON_IDLE;
        work_cancel (kernel E) MeasurementNotifyWork;
        enter_sleep_hardware_state E });
     work_submit (kernel E) AdvertiseWork }"

text \<open>
  \<^verbatim>\<open>txing_redcon_run\<close> for an application that passes its callbacks; \<open>None\<close> stands for the endless
  sleep at its end.
\<close>

definition start_bluetooth :: "redcon_env \<Rightarrow> int option redcon" where
  "start_bluetooth E = do {
     err \<leftarrow> sys_code (kernel E) (Bt BtEnable);
     if err < 0 then ret (Some err)
     else do {
       name \<leftarrow> gets device_name;
       err \<leftarrow> sys_code (kernel E) (Bt (BtSetName name));
       if err < 0 then ret (Some err)
       else do {
         err \<leftarrow> set_adv_tx_power E (adv_tx_power_dbm E);
         if err < 0 then ret (Some err)
         else do {
           err \<leftarrow> start_advertising E;
           ret (if err < 0 then Some err else None) } } } }"

definition txing_redcon_run :: "redcon_env \<Rightarrow> int option redcon" where
  "txing_redcon_run E = do {
     load_device_name_from_nve E;
     call_hook (app_init (redcon_ops E));
     txing_redcon_configure_output_inactive E (led (redcon_ops E));
     txing_redcon_configure_output_inactive E (power (redcon_ops E));
     enter_sleep_hardware_state E;
     set_current_redcon TXING_REDCON_IDLE;
     start_bluetooth E }"

section \<open>Which functions only make calls\<close>

lemma redcon_log_call [simp]:
  "device_name (log_call c r s) = device_name s" "ad_name_len (log_call c r s) = ad_name_len s"
  "current_redcon (log_call c r s) = current_redcon s"
  "redcon_state_payload (log_call c r s) = redcon_state_payload s"
  "power_measurement_payload (log_call c r s) = power_measurement_payload s"
  "weather_measurement_payload (log_call c r s) = weather_measurement_payload s"
  "connected_conn (log_call c r s) = connected_conn s"
  by (simp_all add: log_call_def)

text \<open>What a callback of the application may do: read sensors, drive pins and sleep.\<close>

fun app_call :: "redcon_work zcall \<Rightarrow> bool" where
  "app_call (Gpio g) = True"
| "app_call (Driver d) = True"
| "app_call (Bus b) = True"
| "app_call (Kernel k) = (case k of Sleep ms \<Rightarrow> True | Uptime \<Rightarrow> True | _ \<Rightarrow> False)"
| "app_call (Bt b) = False"
| "app_call (Ot t) = False"
| "app_call (Coap c) = False"

lemma only_calls_output [calls_rules]:
  "only_calls app_call (txing_redcon_set_output_active E pin act)"
  "only_calls app_call (txing_redcon_configure_output_inactive E pin)"
  unfolding txing_redcon_set_output_active_def txing_redcon_configure_output_inactive_def
  by (intro calls_rules only_calls_calls; simp)+

lemma only_calls_set_wakeup [calls_rules]: "only_calls app_call (set_wakeup_hardware_state E act)"
  unfolding set_wakeup_hardware_state_def by (intro calls_rules)

lemma only_calls_adc [calls_rules]:
  "only_calls app_call (suspend_battery_adc E)" "only_calls app_call (resume_battery_adc E)"
  "only_calls app_call (disable_regulator E reg)"
  unfolding suspend_battery_adc_def resume_battery_adc_def disable_regulator_def
  by (intro calls_rules only_calls_calls; simp)+

lemma only_calls_enter_sleep [calls_rules]: "only_calls app_call (enter_sleep_hardware_state E)"
  unfolding enter_sleep_hardware_state_def disable_xiao_load_regulators_def by (intro calls_rules)

lemma only_calls_sample_battery [calls_rules]: "only_calls app_call (sample_battery_mv E)"
  unfolding sample_battery_mv_def convert_battery_mv_def Let_def
  by (intro calls_rules only_calls_calls; simp)

section \<open>Events\<close>

datatype redcon_event =
  WriteCommand bytes nat
| ReadState nat nat
| ReadPower nat nat
| ReadWeather nat nat
| Connected nat u8
| Disconnected
| RunWork redcon_work

definition work_handler :: "redcon_env \<Rightarrow> redcon_work \<Rightarrow> unit redcon" where
  "work_handler E w =
     (case w of
        MeasurementNotifyWork \<Rightarrow> measurement_notify_work_handler E
      | IdleMeasurementNotifyWork \<Rightarrow> idle_measurement_notify_work_handler E
      | RedconCommandWork \<Rightarrow> redcon_command_work_handler E
      | AdvertiseWork \<Rightarrow> advertise_work_handler E)"

fun redcon_handler :: "redcon_env \<Rightarrow> redcon_event \<Rightarrow> unit redcon" where
  "redcon_handler E (WriteCommand bs offset) = do { write_command E bs offset; ret () }"
| "redcon_handler E (ReadState len offset) = do { read_state E len offset; ret () }"
| "redcon_handler E (ReadPower len offset) = do { read_power_measurement E len offset; ret () }"
| "redcon_handler E (ReadWeather len offset) = do { read_weather_measurement E len offset; ret () }"
| "redcon_handler E (Connected conn err) = connected E conn err"
| "redcon_handler E Disconnected = disconnected E"
| "redcon_handler E (RunWork w) = work_handler E w"

text \<open>A work item runs only while Zephyr holds it, and is taken off before its handler runs.\<close>

inductive redcon_step :: "redcon_env \<Rightarrow> redcon_state \<Rightarrow> redcon_event \<Rightarrow> redcon_state \<Rightarrow> bool" for E where
  callback: "\<forall>w. ev \<noteq> RunWork w \<Longrightarrow> run_state (redcon_handler E ev) s = ((), t) \<Longrightarrow> redcon_step E s ev t"
| work: "w \<in> pending s \<Longrightarrow>
     run_state (redcon_handler E (RunWork w)) (s\<lparr>pending := pending s - {w}\<rparr>) = ((), t) \<Longrightarrow>
     redcon_step E s (RunWork w) t"

section \<open>The state invariant\<close>

definition name_ok :: "bytes \<Rightarrow> bool" where
  "name_ok name \<longleftrightarrow> name \<noteq> [] \<and> length name \<le> TXING_REDCON_BLE_ADV_MAX_NAME_LEN \<and>
     list_all is_valid_device_name_byte name"

definition redcon_ok :: "redcon_env \<Rightarrow> redcon_state \<Rightarrow> bool" where
  "redcon_ok E s \<longleftrightarrow>
     redcon_state_payload s = [TXING_REDCON_PROTOCOL_VERSION, current_redcon s] \<and>
     (current_redcon s = TXING_REDCON_IDLE \<or> redcon_command_level_is_supported E (current_redcon s)) \<and>
     (\<exists>mv. power_measurement_payload s = TXING_REDCON_PROTOCOL_VERSION # put_le16 mv) \<and>
     name_ok (device_name s) \<and> ad_name_len s = length (device_name s)"

interpretation redcon_ok: static_invariant "redcon_ok E" for E
  by unfold_locales (simp_all add: redcon_ok_def)

lemma app_keeps_ok: "only_calls app_call m \<Longrightarrow> keeps (redcon_ok E) m"
  by (erule only_calls_keeps) (simp add: redcon_ok.ignores_calls)

text \<open>References to connections that the firmware holds, by the calls it has made.\<close>

definition conn_refs :: "redcon_work calls \<Rightarrow> nat \<Rightarrow> int" where
  "conn_refs cs c = int (length (filter (\<lambda>x. fst x = Bt (ConnRef c)) cs)) -
     int (length (filter (\<lambda>x. fst x = Bt (ConnUnref c)) cs))"

lemma conn_refs_simps [simp]:
  "conn_refs [] c = 0"
  "conn_refs (x # cs) c = (if fst x = Bt (ConnRef c) then 1
     else if fst x = Bt (ConnUnref c) then - 1 else 0) + conn_refs cs c"
  "conn_refs (cs @ ds) c = conn_refs cs c + conn_refs ds c"
  by (simp_all add: conn_refs_def)

definition holds_refs :: "(nat \<Rightarrow> int) \<Rightarrow> nat option \<Rightarrow> redcon_state \<Rightarrow> bool" where
  "holds_refs f conn s \<longleftrightarrow> (\<forall>c. conn_refs (calls s) c = f c) \<and> connected_conn s = conn"

definition refs_ok :: "redcon_state \<Rightarrow> bool" where
  "refs_ok s \<longleftrightarrow> (\<forall>c. conn_refs (calls s) c = (if connected_conn s = Some c then 1 else 0))"

lemma conn_refs_app: "list_all (\<lambda>c. app_call (fst c)) ds \<Longrightarrow> conn_refs ds c = 0"
  by (induction ds) auto

lemma app_keeps_refs: "only_calls app_call m \<Longrightarrow> keeps (holds_refs f conn) m"
  by (erule only_calls_keeps) (simp add: holds_refs_def conn_refs_app)

lemma keeps_refs_sys [keeps_rules]:
  assumes "\<forall>n. c \<noteq> Bt (ConnRef n) \<and> c \<noteq> Bt (ConnUnref n)"
  shows "keeps (holds_refs f conn) (sys k c)"
  using assms by (simp add: keeps_def fw_simps holds_refs_def)

lemma keeps_refs_variants [keeps_rules]:
  assumes "\<forall>n. c \<noteq> Bt (ConnRef n) \<and> c \<noteq> Bt (ConnUnref n)"
  shows "keeps (holds_refs f conn) (sys_code k c)" "keeps (holds_refs f conn) (sys_void k c)"
  using assms unfolding sys_code_def sys_void_def by (intro keeps_rules; simp)+

lemma keeps_refs_work [keeps_rules]:
  "keeps (holds_refs f conn) (work_submit k w)" "keeps (holds_refs f conn) (work_schedule k w ms)"
  "keeps (holds_refs f conn) (work_reschedule k w ms)" "keeps (holds_refs f conn) (work_cancel k w)"
  unfolding work_submit_def work_schedule_def work_reschedule_def work_cancel_def
  by (intro keeps_rules keeps_modify; simp add: holds_refs_def)+

lemma keeps_refs_modify:
  "(\<And>s. calls (g s) = calls s \<and> connected_conn (g s) = connected_conn s) \<Longrightarrow>
   keeps (holds_refs f conn) (modify g)"
  by (intro keeps_modify) (simp add: holds_refs_def)

section \<open>The contract of an application\<close>

locale redcon_app =
  fixes E :: redcon_env
  assumes hook_calls:
      "before_idle_measurement (redcon_ops E) = Some m \<or> after_idle_measurement (redcon_ops E) = Some m \<or>
       app_init (redcon_ops E) = Some m \<Longrightarrow> only_calls app_call m"
    and weather_calls:
      "sample_weather_measurement (redcon_ops E) = Some f \<Longrightarrow> only_calls app_call (f payload)"
begin

lemma hooks [calls_rules]:
  "only_calls app_call (call_hook (before_idle_measurement (redcon_ops E)))"
  "only_calls app_call (call_hook (after_idle_measurement (redcon_ops E)))"
  "only_calls app_call (call_hook (app_init (redcon_ops E)))"
  unfolding call_hook_def by (auto split: option.split intro: hook_calls calls_rules)

lemma keeps_ok_refresh:
  "keeps (redcon_ok E) (refresh_power_measurement_payload E)"
  "keeps (redcon_ok E) (refresh_weather_measurement_payload E)"
proof -
  show "keeps (redcon_ok E) (refresh_power_measurement_payload E)"
    unfolding refresh_power_measurement_payload_def encode_power_measurement_def
    by (intro keeps_rules app_keeps_ok calls_rules keeps_modify) (auto simp: redcon_ok_def)
  show "keeps (redcon_ok E) (refresh_weather_measurement_payload E)"
    unfolding refresh_weather_measurement_payload_def
    by (cases "sample_weather_measurement (redcon_ops E)")
      (auto intro!: keeps_rules app_keeps_ok [OF weather_calls] keeps_modify simp: redcon_ok_def)
qed

lemma keeps_ok_sample: "keeps (redcon_ok E) (sample_and_notify_measurements E hk)"
  unfolding sample_and_notify_measurements_def notify_power_measurement_def
    notify_weather_measurement_def
  by (intro keeps_rules keeps_ok_refresh redcon_ok.keeps_static app_keeps_ok hooks)

lemma keeps_ok_set_conn: "keeps (redcon_ok E) (set_connected_conn E conn)"
  unfolding set_connected_conn_def
  by (intro keeps_rules redcon_ok.keeps_static keeps_modify) (simp add: redcon_ok_def)

lemma keeps_ok_set_redcon:
  "redcon = TXING_REDCON_IDLE \<or> redcon_command_level_is_supported E redcon \<Longrightarrow>
   keeps (redcon_ok E) (set_current_redcon redcon)"
  by (simp add: keeps_def set_current_redcon_def encode_redcon_state_def fw_simps redcon_ok_def)

lemma keeps_ok_schedule_idle: "keeps (redcon_ok E) (schedule_idle_measurement_notification E)"
  unfolding schedule_idle_measurement_notification_def get_current_redcon_def ref_connected_conn_def
  by (intro keeps_rules redcon_ok.keeps_static)

lemmas keeps_ok_rules = keeps_rules keeps_ok_refresh keeps_ok_sample keeps_ok_set_conn
  keeps_ok_set_redcon keeps_ok_schedule_idle redcon_ok.keeps_static app_keeps_ok calls_rules

lemma keeps_ok_wakeup: "keeps (redcon_ok E) (enter_redcon_wakeup E conn)"
  unfolding enter_redcon_wakeup_def cancel_idle_measurement_notifications_def
    request_connection_params_def notify_redcon_state_def copy_redcon_state_payload_def Let_def
  by (intro keeps_bind keeps_option keeps_if keeps_return keeps_gets redcon_ok.keeps_static
      keeps_ok_sample app_keeps_ok [OF only_calls_set_wakeup])

lemma keeps_ok_idle: "keeps (redcon_ok E) (enter_redcon_idle E)"
  unfolding enter_redcon_idle_def notify_redcon_state_def copy_redcon_state_payload_def
  by (intro keeps_bind keeps_gets redcon_ok.keeps_static keeps_ok_sample keeps_ok_schedule_idle
      app_keeps_ok [OF only_calls_enter_sleep])

lemma keeps_ok_work: "keeps (redcon_ok E) (work_handler E w)"
  unfolding work_handler_def measurement_notify_work_handler_def get_current_redcon_def
    idle_measurement_notify_work_handler_def redcon_command_work_handler_def
    advertise_work_handler_def start_advertising_def ref_connected_conn_def
  by (cases w)
    (simp_all, (intro keeps_rules redcon_ok.keeps_static keeps_ok_sample keeps_ok_schedule_idle
        keeps_ok_wakeup keeps_ok_idle app_keeps_ok [OF only_calls_enter_sleep])+)

lemma keeps_ok_access:
  "keeps (redcon_ok E) (read_state E len offset)"
  "keeps (redcon_ok E) (read_power_measurement E len offset)"
  "keeps (redcon_ok E) (read_weather_measurement E len offset)"
  unfolding read_state_def copy_redcon_state_payload_def read_power_measurement_def
    read_weather_measurement_def
  by (intro keeps_rules redcon_ok.keeps_static keeps_ok_refresh)+

lemma keeps_ok_write: "keeps (redcon_ok E) (write_command E bs offset)"
proof (cases "decode_redcon_command E bs")
  case None
  then show ?thesis by (simp add: write_command_def keeps_return)
next
  case (Some redcon)
  then have "redcon_command_level_is_supported E redcon"
    by (auto simp: decode_redcon_command_def split: list.splits if_splits)
  then have "keeps (redcon_ok E) (set_current_redcon redcon)"
    by (simp add: keeps_ok_set_redcon)
  with Some show ?thesis
    by (auto simp: write_command_def intro!: keeps_rules redcon_ok.keeps_static)
qed

lemma keeps_ok_connected: "keeps (redcon_ok E) (connected E conn err)"
  unfolding connected_def get_current_redcon_def
  by (intro keeps_rules redcon_ok.keeps_static keeps_ok_set_conn keeps_ok_schedule_idle)

lemma keeps_ok_disconnected: "keeps (redcon_ok E) (disconnected E)"
  unfolding disconnected_def get_current_redcon_def cancel_idle_measurement_notifications_def
  by (intro keeps_rules redcon_ok.keeps_static keeps_ok_set_conn keeps_ok_set_redcon
      app_keeps_ok [OF only_calls_enter_sleep] app_keeps_ok [OF only_calls_set_wakeup]) simp

lemma keeps_ok_handler: "keeps (redcon_ok E) (redcon_handler E ev)"
  by (cases ev)
    (auto intro!: keeps_rules keeps_ok_write keeps_ok_access keeps_ok_connected
      keeps_ok_disconnected keeps_ok_work)

subsection \<open>References\<close>

lemma keeps_refs_refresh:
  "keeps (holds_refs f conn) (refresh_power_measurement_payload E)"
  "keeps (holds_refs f conn) (refresh_weather_measurement_payload E)"
proof -
  show "keeps (holds_refs f conn) (refresh_power_measurement_payload E)"
    unfolding refresh_power_measurement_payload_def encode_power_measurement_def
    by (intro keeps_bind app_keeps_refs calls_rules keeps_refs_modify) simp
  show "keeps (holds_refs f conn) (refresh_weather_measurement_payload E)"
    unfolding refresh_weather_measurement_payload_def
    by (cases "sample_weather_measurement (redcon_ops E)")
      (auto intro!: keeps_rules app_keeps_refs [OF weather_calls] keeps_refs_modify)
qed

lemma keeps_refs_sample: "keeps (holds_refs f conn) (sample_and_notify_measurements E hk)"
  unfolding sample_and_notify_measurements_def notify_power_measurement_def
    notify_weather_measurement_def
  by (intro keeps_bind keeps_doif keeps_if keeps_gets keeps_return keeps_refs_variants
      keeps_refs_refresh app_keeps_refs [OF hooks(1)] app_keeps_refs [OF hooks(2)]) simp_all

lemma keeps_refs_schedule_idle:
  "keeps (holds_refs f conn) (schedule_idle_measurement_notification E)"
  unfolding keeps_def schedule_idle_measurement_notification_def get_current_redcon_def
    ref_connected_conn_def
  by (auto simp: fw_simps holds_refs_def work_schedule_def split: option.split)

lemma keeps_refs_wakeup: "keeps (holds_refs f conn) (enter_redcon_wakeup E c)"
  unfolding enter_redcon_wakeup_def cancel_idle_measurement_notifications_def
    request_connection_params_def notify_redcon_state_def copy_redcon_state_payload_def Let_def
  by (intro keeps_bind keeps_option keeps_if keeps_return keeps_gets keeps_refs_work
      keeps_refs_variants keeps_refs_sample app_keeps_refs [OF only_calls_set_wakeup]) simp_all

lemma keeps_refs_idle: "keeps (holds_refs f conn) (enter_redcon_idle E)"
  unfolding enter_redcon_idle_def notify_redcon_state_def copy_redcon_state_payload_def
  by (intro keeps_bind keeps_gets keeps_refs_work keeps_refs_variants keeps_refs_sample
      keeps_refs_schedule_idle app_keeps_refs [OF only_calls_enter_sleep]) simp_all

lemma keeps_refs_command: "keeps (holds_refs f conn) (redcon_command_work_handler E)"
proof (cases conn)
  case None
  have "keeps (holds_refs f None) (if redcon_is_wakeup r then enter_redcon_wakeup E None
      else enter_redcon_idle E)" for r
    by (intro keeps_if keeps_refs_wakeup keeps_refs_idle)
  then show ?thesis
    unfolding keeps_def redcon_command_work_handler_def get_current_redcon_def ref_connected_conn_def
    using None by (auto simp: fw_simps holds_refs_def keeps_def)
next
  case (Some c)
  have body: "keeps (holds_refs (f(c := f c + 1)) conn) (if redcon_is_wakeup r
      then enter_redcon_wakeup E (Some c) else enter_redcon_idle E)" for r
    by (intro keeps_if keeps_refs_wakeup keeps_refs_idle)
  show ?thesis
    unfolding keeps_def
  proof (intro allI impI)
    fix s
    assume s: "holds_refs f conn s"
    let ?c = "Bt (ConnRef c)"
    let ?s = "log_call ?c (kernel E (calls s) ?c) s"
    have "holds_refs (f(c := f c + 1)) conn ?s" using s by (auto simp: holds_refs_def)
    note b = keepsD [OF body this]
    have after: "wp (sys_void (kernel E) (Bt (ConnUnref c))) (\<lambda>_. holds_refs f conn) t"
      if "holds_refs (f(c := f c + 1)) conn t" for t
      using that by (auto simp: fw_simps holds_refs_def)
    have "wp (if redcon_is_wakeup (current_redcon s) then enter_redcon_wakeup E (Some c)
        else enter_redcon_idle E)
        (\<lambda>_. wp (sys_void (kernel E) (Bt (ConnUnref c))) (\<lambda>_. holds_refs f conn)) ?s"
      by (rule wp_mono [OF b]) (rule after)
    moreover have "connected_conn s = Some c" using s Some by (simp add: holds_refs_def)
    ultimately show "wp (redcon_command_work_handler E) (\<lambda>_. holds_refs f conn) s"
      unfolding redcon_command_work_handler_def get_current_redcon_def ref_connected_conn_def
      by (simp add: wp_bind wp_gets wp_sys wp_return)
  qed
qed

lemma keeps_refs_work_handler: "keeps (holds_refs f conn) (work_handler E w)"
proof (cases w)
  case IdleMeasurementNotifyWork
  have sleep: "keeps (holds_refs f conn) (do { sample_and_notify_measurements E True;
      enter_sleep_hardware_state E; schedule_idle_measurement_notification E })"
    by (intro keeps_bind keeps_refs_sample keeps_refs_schedule_idle
        app_keeps_refs [OF only_calls_enter_sleep])
  have "wp (idle_measurement_notify_work_handler E) (\<lambda>_. holds_refs f conn) s"
    if "holds_refs f conn s" for s
  proof (cases "connected_conn s")
    case None
    with that show ?thesis
      by (simp add: idle_measurement_notify_work_handler_def get_current_redcon_def
          ref_connected_conn_def fw_simps)
  next
    case (Some c)
    let ?r = "Bt (ConnRef c)" and ?u = "Bt (ConnUnref c)"
    let ?s = "log_call ?r (kernel E (calls s) ?r) s"
    have "holds_refs f conn (log_call ?u (kernel E (calls ?s) ?u) ?s)"
      using that by (auto simp: holds_refs_def)
    from keepsD [OF sleep this] that Some show ?thesis
      by (simp add: idle_measurement_notify_work_handler_def get_current_redcon_def
          ref_connected_conn_def fw_simps)
  qed
  with IdleMeasurementNotifyWork show ?thesis by (simp add: work_handler_def keeps_def)
next
  case MeasurementNotifyWork
  then show ?thesis
    by (simp add: work_handler_def measurement_notify_work_handler_def get_current_redcon_def)
      (intro keeps_rules keeps_refs_sample)
next
  case RedconCommandWork
  then show ?thesis by (simp add: work_handler_def keeps_refs_command)
next
  case AdvertiseWork
  then show ?thesis
    by (simp add: work_handler_def advertise_work_handler_def start_advertising_def)
      (intro keeps_rules, simp)
qed

lemma set_connected_conn_refs:
  "refs_ok s \<Longrightarrow> wp (set_connected_conn E conn) (\<lambda>_ t. refs_ok t) s"
  unfolding set_connected_conn_def refs_ok_def
  by (cases conn; cases "connected_conn s") (auto simp: fw_simps)

lemma refs_okI:
  assumes "\<And>f conn. keeps (holds_refs f conn) m"
  shows "keeps refs_ok m"
  unfolding keeps_def
proof (intro allI impI)
  fix s
  assume "refs_ok s"
  then have "holds_refs (\<lambda>c. if connected_conn s = Some c then 1 else 0) (connected_conn s) s"
    by (simp add: refs_ok_def holds_refs_def)
  from keepsD [OF assms this] show "wp m (\<lambda>_. refs_ok) s"
    by (rule wp_mono) (simp add: refs_ok_def holds_refs_def)
qed

lemma keeps_refs_access:
  "keeps (holds_refs f conn) (write_command E bs offset)"
  "keeps (holds_refs f conn) (read_state E len offset)"
  "keeps (holds_refs f conn) (read_power_measurement E len offset)"
  "keeps (holds_refs f conn) (read_weather_measurement E len offset)"
proof -
  show "keeps (holds_refs f conn) (write_command E bs offset)"
    unfolding write_command_def set_current_redcon_def encode_redcon_state_def
    by (intro keeps_rules keeps_refs_modify) simp_all
  show "keeps (holds_refs f conn) (read_state E len offset)"
    unfolding read_state_def copy_redcon_state_payload_def by (intro keeps_rules) simp
  show "keeps (holds_refs f conn) (read_power_measurement E len offset)"
    unfolding read_power_measurement_def by (intro keeps_rules keeps_refs_refresh) simp
  show "keeps (holds_refs f conn) (read_weather_measurement E len offset)"
    unfolding read_weather_measurement_def by (intro keeps_rules keeps_refs_refresh) simp
qed

lemma keeps_refs_connected: "keeps refs_ok (connected E conn err)"
proof -
  have set: "keeps refs_ok (set_connected_conn E c)" for c
    by (simp add: keeps_def set_connected_conn_refs)
  show ?thesis
    unfolding connected_def get_current_redcon_def
    by (intro keeps_if keeps_bind keeps_doif keeps_gets set refs_okI keeps_refs_work
        keeps_refs_schedule_idle)
qed

lemma keeps_refs_disconnected: "keeps refs_ok (disconnected E)"
proof -
  have set: "keeps refs_ok (set_connected_conn E c)" for c
    by (simp add: keeps_def set_connected_conn_refs)
  have level: "keeps refs_ok (set_current_redcon r)" for r
    unfolding set_current_redcon_def encode_redcon_state_def
    by (intro refs_okI keeps_bind keeps_refs_modify) simp_all
  show ?thesis
    unfolding disconnected_def get_current_redcon_def cancel_idle_measurement_notifications_def
    by (intro keeps_if keeps_bind keeps_doif keeps_gets set level refs_okI keeps_refs_work
        app_keeps_refs [OF only_calls_enter_sleep] app_keeps_refs [OF only_calls_set_wakeup])
qed

lemma keeps_refs_handler: "keeps refs_ok (redcon_handler E ev)"
proof (cases ev)
  case (RunWork w)
  then show ?thesis by (auto intro: refs_okI keeps_refs_work_handler)
qed (simp_all, (intro keeps_refs_connected keeps_refs_disconnected refs_okI keeps_bind
      keeps_return keeps_refs_access)+)

subsection \<open>All events, and startup\<close>

lemma step_inv:
  assumes "redcon_ok E s \<and> refs_ok s" and "redcon_step E s ev t"
  shows "redcon_ok E t \<and> refs_ok t"
  using assms(2)
proof cases
  case callback
  with assms(1) show ?thesis
    using keeps_run [OF keeps_ok_handler] keeps_run [OF keeps_refs_handler] by blast
next
  case (work w)
  have "redcon_ok E (s\<lparr>pending := pending s - {w}\<rparr>)" "refs_ok (s\<lparr>pending := pending s - {w}\<rparr>)"
    using assms(1) by (simp_all add: redcon_ok_def refs_ok_def)
  with work show ?thesis
    using keeps_run [OF keeps_ok_handler] keeps_run [OF keeps_refs_handler] by blast
qed

end

text \<open>The name that factory data may install satisfies the limits of advertising.\<close>

lemma keeps_ok_load_name: "keeps (redcon_ok E) (load_device_name_from_nve E)"
proof -
  have "keeps (redcon_ok E) (set_device_name_from_bytes E name len)"
    if "length name = 26" for name len
    using that
    by (auto simp: keeps_def set_device_name_from_bytes_def fw_simps redcon_ok_def name_ok_def
        unat_eq_0 TXING_REDCON_BLE_ADV_MAX_NAME_LEN_def)
  then show ?thesis
    by (simp add: load_device_name_from_nve_def Let_def keeps_return)
qed

lemma initial_redcon_ok: "redcon_ok E initial_redcon_state"
  by (auto simp: redcon_ok_def initial_redcon_state_def name_ok_def redcon_constants put_le16_def
      is_valid_device_name_byte_def intro: exI [of _ 0])

lemma initial_refs_ok: "refs_ok initial_redcon_state"
  by (simp add: refs_ok_def initial_redcon_state_def)

context redcon_app
begin

lemma keeps_ok_run: "keeps (redcon_ok E) (txing_redcon_run E)"
  unfolding txing_redcon_run_def start_bluetooth_def set_adv_tx_power_def start_advertising_def Let_def
  by (intro keeps_bind keeps_if keeps_return keeps_gets redcon_ok.keeps_static keeps_ok_load_name
      keeps_ok_set_redcon app_keeps_ok [OF hooks(3)] app_keeps_ok [OF only_calls_output(2)]
      app_keeps_ok [OF only_calls_enter_sleep]) simp

lemma keeps_refs_run: "keeps (holds_refs f conn) (txing_redcon_run E)"
proof -
  have "keeps (holds_refs f conn) (load_device_name_from_nve E)"
    unfolding load_device_name_from_nve_def set_device_name_from_bytes_def Let_def
    by (intro keeps_rules keeps_refs_modify) simp
  moreover have "keeps (holds_refs f conn) (set_current_redcon r)" for r
    unfolding set_current_redcon_def encode_redcon_state_def
    by (intro keeps_bind keeps_refs_modify) simp_all
  moreover have "keeps (holds_refs f conn) (start_bluetooth E)"
    unfolding start_bluetooth_def set_adv_tx_power_def start_advertising_def Let_def sys_ok_def
    by (intro keeps_rules) simp_all
  ultimately show ?thesis
    unfolding txing_redcon_run_def
    by (intro keeps_bind app_keeps_refs [OF hooks(3)] app_keeps_refs [OF only_calls_output(2)]
        app_keeps_refs [OF only_calls_enter_sleep])
qed

end

text \<open>The life of a device: events after a startup that did not return.\<close>

sublocale redcon_app \<subseteq> life: event_system
  "\<lambda>s. run_state (txing_redcon_run E) initial_redcon_state = (None, s)"
  "redcon_step E" "\<lambda>s. redcon_ok E s \<and> refs_ok s"
proof unfold_locales
  show "redcon_ok E s \<and> refs_ok s"
    if "run_state (txing_redcon_run E) initial_redcon_state = (None, s)" for s
    using keeps_run [OF keeps_ok_run initial_redcon_ok that]
      keeps_run [OF refs_okI [OF keeps_refs_run] initial_refs_ok that] by blast
qed (rule step_inv)

section \<open>The power and unit applications\<close>

text \<open>\<^verbatim>\<open>src/devices/power/mcu/src/main.c\<close> and \<^verbatim>\<open>src/devices/unit/mcu/src/main.c\<close>.\<close>

definition power_ops :: txing_redcon_ops where
  "power_ops = \<lparr>led = Some Led, power = Some PowerPin, sample_weather_measurement = None,
     before_idle_measurement = None, after_idle_measurement = None, app_init = None\<rparr>"

definition power_env :: "redcon_env \<Rightarrow> redcon_env" where
  "power_env E = E\<lparr>redcon_ops := power_ops\<rparr>"

definition power_main :: "redcon_env \<Rightarrow> int option redcon" where
  "power_main E = txing_redcon_run (power_env E)"

definition unit_main :: "redcon_env \<Rightarrow> int option redcon" where
  "unit_main E = txing_redcon_run (power_env E)"

interpretation power_device: redcon_app "power_env E" for E
  by unfold_locales (auto simp: power_env_def power_ops_def)

section \<open>Outputs follow the level\<close>

text \<open>What most of the firmware leaves alone: a queued command, the level and the two pins.\<close>

definition frame :: "bool \<Rightarrow> u8 \<Rightarrow> bool option \<Rightarrow> bool option \<Rightarrow> redcon_state \<Rightarrow> bool" where
  "frame queued level l q s \<longleftrightarrow> (queued \<longrightarrow> RedconCommandWork \<in> pending s) \<and>
     current_redcon s = level \<and> pin_level Led (calls s) = l \<and> pin_level PowerPin (calls s) = q"

lemma keeps_frame_sys [keeps_rules]:
  assumes "\<forall>g. c \<noteq> Gpio g"
  shows "keeps (frame b r l q) (sys k c)"
  using assms by (cases c) (simp_all add: keeps_def fw_simps frame_def)

lemma keeps_frame_variants [keeps_rules]:
  assumes "\<forall>g. c \<noteq> Gpio g"
  shows "keeps (frame b r l q) (sys_code k c)" "keeps (frame b r l q) (sys_ok k c)"
    "keeps (frame b r l q) (sys_void k c)"
  using assms unfolding sys_code_def sys_ok_def sys_void_def by (intro keeps_rules; simp)+

lemma keeps_frame_work [keeps_rules]:
  "keeps (frame b r l q) (work_submit k w)" "keeps (frame b r l q) (work_schedule k w ms)"
  "keeps (frame b r l q) (work_reschedule k w ms)"
  "w \<noteq> RedconCommandWork \<Longrightarrow> keeps (frame b r l q) (work_cancel k w)"
  unfolding work_submit_def work_schedule_def work_reschedule_def work_cancel_def
  by (intro keeps_rules keeps_modify; simp add: frame_def)+

lemma keeps_frame_modify:
  "(\<And>s. calls (g s) = calls s \<and> pending (g s) = pending s \<and> current_redcon (g s) = current_redcon s) \<Longrightarrow>
   keeps (frame b r l q) (modify g)"
  by (intro keeps_modify) (simp add: frame_def)

lemma keeps_frame_refresh:
  "keeps (frame b r l q) (refresh_power_measurement_payload (power_env E))"
  "keeps (frame b r l q) (refresh_weather_measurement_payload (power_env E))"
proof -
  show "keeps (frame b r l q) (refresh_power_measurement_payload (power_env E))"
    unfolding refresh_power_measurement_payload_def encode_power_measurement_def
      sample_battery_mv_def convert_battery_mv_def resume_battery_adc_def suspend_battery_adc_def
      disable_regulator_def Let_def
    by (intro keeps_rules keeps_frame_modify) simp_all
  show "keeps (frame b r l q) (refresh_weather_measurement_payload (power_env E))"
    by (simp add: refresh_weather_measurement_payload_def power_env_def power_ops_def keeps_return)
qed

lemma keeps_frame_hooks:
  "keeps (frame b r l q) (call_hook (before_idle_measurement (redcon_ops (power_env E))))"
  "keeps (frame b r l q) (call_hook (after_idle_measurement (redcon_ops (power_env E))))"
  "keeps (frame b r l q) (call_hook (app_init (redcon_ops (power_env E))))"
  by (simp_all add: call_hook_def power_env_def power_ops_def keeps_return)

lemma keeps_frame_sample:
  "keeps (frame b r l q) (sample_and_notify_measurements (power_env E) hk)"
  unfolding sample_and_notify_measurements_def notify_power_measurement_def
    notify_weather_measurement_def
  by (intro keeps_rules keeps_frame_refresh keeps_frame_hooks) simp_all

lemma keeps_frame_schedule_idle:
  "keeps (frame b r l q) (schedule_idle_measurement_notification E)"
  unfolding schedule_idle_measurement_notification_def get_current_redcon_def ref_connected_conn_def
  by (intro keeps_rules) simp_all

lemma keeps_frame_set_conn: "keeps (frame b r l q) (set_connected_conn E conn)"
  unfolding set_connected_conn_def by (intro keeps_rules keeps_frame_modify) simp_all

lemma keeps_frame_sleep_rest:
  "keeps (frame b r l q) (do { suspend_battery_adc E; disable_xiao_load_regulators E })"
  unfolding suspend_battery_adc_def disable_xiao_load_regulators_def disable_regulator_def
  by (intro keeps_rules) simp_all

text \<open>The level and pins that a handler ends with, queued commands aside.\<close>

abbreviation settled :: "u8 \<Rightarrow> bool \<Rightarrow> redcon_state \<Rightarrow> bool" where
  "settled level v \<equiv> frame False level (Some v) (Some v)"

lemma set_wakeup_settled:
  "gpio_works (kernel E) \<Longrightarrow>
   wp (set_wakeup_hardware_state (power_env E) v) (\<lambda>_. settled (current_redcon s) v) s"
  by (simp add: set_wakeup_hardware_state_def txing_redcon_set_output_active_def power_env_def
      power_ops_def gpio_works_def fw_simps frame_def)

lemma enter_sleep_settled:
  "gpio_works (kernel E) \<Longrightarrow>
   wp (enter_sleep_hardware_state (power_env E)) (\<lambda>_. settled (current_redcon s) False) s"
  unfolding enter_sleep_hardware_state_def
  by (rule wp_bindI [OF set_wakeup_settled]) (auto intro: keepsD [OF keeps_frame_sleep_rest])

lemma wp_settle:
  "wp m (\<lambda>_. settled r v) s \<Longrightarrow> (\<And>x. keeps (settled r v) (f x)) \<Longrightarrow>
   wp (State_Monad.bind m f) (\<lambda>_. settled r v) s"
  by (erule wp_bindI) (erule keepsD [rotated])

lemma wp_before_settle:
  assumes "\<And>l q. keeps (frame False r l q) m" and "current_redcon s = r"
    and "\<And>x t. current_redcon t = r \<Longrightarrow> wp (f x) (\<lambda>_. settled r v) t"
  shows "wp (State_Monad.bind m f) (\<lambda>_. settled r v) s"
proof (rule wp_bindI)
  show "wp m (\<lambda>_. frame False r (pin_level Led (calls s)) (pin_level PowerPin (calls s))) s"
    using assms(2) by (intro keepsD [OF assms(1)]) (simp add: frame_def)
qed (use assms(3) in \<open>simp add: frame_def\<close>)

definition outputs_follow :: "redcon_state \<Rightarrow> bool" where
  "outputs_follow s \<longleftrightarrow> RedconCommandWork \<in> pending s \<or>
     settled (current_redcon s) (redcon_is_wakeup (current_redcon s)) s"

lemma outputs_follow_frame:
  assumes "\<And>b r l q. keeps (frame b r l q) m"
  shows "keeps outputs_follow m"
  unfolding keeps_def
proof (intro allI impI)
  fix s
  assume s: "outputs_follow s"
  let ?F = "frame (RedconCommandWork \<in> pending s) (current_redcon s) (pin_level Led (calls s))
    (pin_level PowerPin (calls s))"
  have "?F s" by (simp add: frame_def)
  from keepsD [OF assms this] show "wp m (\<lambda>_. outputs_follow) s"
    by (rule wp_mono) (use s in \<open>auto simp: outputs_follow_def frame_def\<close>)
qed

lemma outputs_follow_settled: "settled r (redcon_is_wakeup r) s \<Longrightarrow> outputs_follow s"
  by (auto simp: outputs_follow_def frame_def)

lemma enter_wakeup_settled:
  assumes "gpio_works (kernel E)" and "current_redcon s = r"
  shows "wp (enter_redcon_wakeup (power_env E) conn) (\<lambda>_. settled r True) s"
  unfolding enter_redcon_wakeup_def
proof (rule wp_before_settle [OF _ assms(2)])
  show "keeps (frame False r l q) (cancel_idle_measurement_notifications (power_env E))" for l q
    unfolding cancel_idle_measurement_notifications_def by (intro keeps_rules) simp
  show "wp (do { set_wakeup_hardware_state (power_env E) True;
      request_connection_params (power_env E) conn; notify_redcon_state (power_env E);
      sample_and_notify_measurements (power_env E) False;
      work_reschedule (kernel (power_env E)) MeasurementNotifyWork
        (notify_interval_seconds (power_env E) * 1000) }) (\<lambda>_. settled r True) t"
    if "current_redcon t = r" for t
    using set_wakeup_settled [OF assms(1)] that
    unfolding request_connection_params_def notify_redcon_state_def copy_redcon_state_payload_def
      Let_def
    by (intro wp_settle keeps_rules keeps_frame_sample) auto
qed

lemma enter_idle_settled:
  assumes "gpio_works (kernel E)" and "current_redcon s = r"
  shows "wp (enter_redcon_idle (power_env E)) (\<lambda>_. settled r False) s"
proof -
  have sleep: "wp (enter_sleep_hardware_state (power_env E)) (\<lambda>_. settled r False) t"
    if "current_redcon t = r" for t
    using enter_sleep_settled [OF assms(1), of t] that by simp
  have last: "wp (do { enter_sleep_hardware_state (power_env E);
      schedule_idle_measurement_notification (power_env E) }) (\<lambda>_. settled r False) t"
    if "current_redcon t = r" for t
    by (rule wp_settle [OF sleep [OF that] keeps_frame_schedule_idle])
  have sampled: "wp (do { notify_redcon_state (power_env E);
      sample_and_notify_measurements (power_env E) False;
      enter_sleep_hardware_state (power_env E);
      schedule_idle_measurement_notification (power_env E) }) (\<lambda>_. settled r False) t"
    if "current_redcon t = r" for t
    unfolding notify_redcon_state_def copy_redcon_state_payload_def
    by (rule wp_before_settle [OF _ that], intro keeps_rules, simp,
        rule wp_before_settle [OF keeps_frame_sample], assumption, rule last)
  have slept: "wp (do { enter_sleep_hardware_state (power_env E);
      notify_redcon_state (power_env E);
      sample_and_notify_measurements (power_env E) False;
      enter_sleep_hardware_state (power_env E);
      schedule_idle_measurement_notification (power_env E) }) (\<lambda>_. settled r False) t"
    if "current_redcon t = r" for t
    by (rule wp_bindI [OF sleep [OF that]], rule sampled) (simp add: frame_def)
  show ?thesis
    unfolding enter_redcon_idle_def
    by (rule wp_before_settle [OF _ assms(2)], intro keeps_rules, simp, rule slept)
qed

lemma command_settled:
  assumes "gpio_works (kernel E)"
  shows "wp (redcon_command_work_handler (power_env E)) (\<lambda>_. outputs_follow) s"
proof -
  let ?r = "current_redcon s"
  have body: "wp (if redcon_is_wakeup ?r then enter_redcon_wakeup (power_env E) conn
      else enter_redcon_idle (power_env E)) (\<lambda>_. settled ?r (redcon_is_wakeup ?r)) t"
    if "current_redcon t = ?r" for conn t
    using enter_wakeup_settled [OF assms that] enter_idle_settled [OF assms that] by simp
  have rest: "wp (do { (if redcon_is_wakeup ?r then enter_redcon_wakeup (power_env E) conn
      else enter_redcon_idle (power_env E));
      (case conn of None \<Rightarrow> ret () | Some c \<Rightarrow> sys_void (kernel (power_env E)) (Bt (ConnUnref c))) })
      (\<lambda>_. settled ?r (redcon_is_wakeup ?r)) t" if "current_redcon t = ?r" for conn t
    by (rule wp_settle [OF body [OF that]], intro keeps_rules) simp
  have "wp (redcon_command_work_handler (power_env E)) (\<lambda>_. settled ?r (redcon_is_wakeup ?r)) s"
    unfolding redcon_command_work_handler_def get_current_redcon_def ref_connected_conn_def
    by (subst wp_bind, subst wp_gets, rule wp_before_settle [OF _ refl], intro keeps_rules, simp,
        rule rest)
  then show ?thesis by (rule wp_mono) (rule outputs_follow_settled)
qed

lemma idle_settled:
  assumes "gpio_works (kernel E)"
  shows "keeps outputs_follow (idle_measurement_notify_work_handler (power_env E))"
  unfolding keeps_def
proof (intro allI impI)
  fix s
  assume s: "outputs_follow s"
  have sleep: "wp (enter_sleep_hardware_state (power_env E)) (\<lambda>_. settled TXING_REDCON_IDLE False) t"
    if "current_redcon t = TXING_REDCON_IDLE" for t
    using enter_sleep_settled [OF assms, of t] that by simp
  have work: "wp (do { sample_and_notify_measurements (power_env E) True;
      enter_sleep_hardware_state (power_env E);
      schedule_idle_measurement_notification (power_env E) })
      (\<lambda>_. settled TXING_REDCON_IDLE False) t" if "current_redcon t = TXING_REDCON_IDLE" for t
    by (rule wp_before_settle [OF keeps_frame_sample that], rule wp_settle [OF sleep],
        assumption, rule keeps_frame_schedule_idle)
  have idle: "settled TXING_REDCON_IDLE False t \<Longrightarrow> outputs_follow t" for t
    by (auto simp: outputs_follow_def frame_def redcon_is_wakeup_def)
  have "wp (do { sample_and_notify_measurements (power_env E) True;
      enter_sleep_hardware_state (power_env E);
      schedule_idle_measurement_notification (power_env E) }) (\<lambda>_. outputs_follow) t"
    if "current_redcon t = TXING_REDCON_IDLE" for t
    by (rule wp_mono [OF work [OF that]]) (rule idle)
  with s show "wp (idle_measurement_notify_work_handler (power_env E)) (\<lambda>_. outputs_follow) s"
    unfolding idle_measurement_notify_work_handler_def get_current_redcon_def ref_connected_conn_def
    by (cases "connected_conn s"; cases "current_redcon s = TXING_REDCON_IDLE") (simp_all add: fw_simps)
qed

lemma disconnected_settled:
  assumes "gpio_works (kernel E)"
  shows "wp (disconnected (power_env E)) (\<lambda>_. outputs_follow) s"
proof -
  have on: "wp (do { set_wakeup_hardware_state (power_env E) True;
      work_reschedule (kernel (power_env E)) MeasurementNotifyWork
        (notify_interval_seconds (power_env E) * 1000) }) (\<lambda>_. outputs_follow) t"
    if "redcon_is_wakeup (current_redcon t)" for t
    using that outputs_follow_settled [of "current_redcon t"]
    by (auto intro!: wp_mono [OF wp_settle [OF set_wakeup_settled [OF assms]]] keeps_rules)
  have off: "wp (do { set_current_redcon TXING_REDCON_IDLE;
      work_cancel (kernel (power_env E)) MeasurementNotifyWork;
      enter_sleep_hardware_state (power_env E) }) (\<lambda>_. outputs_follow) t" for t
    using outputs_follow_settled [of TXING_REDCON_IDLE]
    by (auto simp: set_current_redcon_def encode_redcon_state_def work_cancel_def wp_bind wp_modify
        wp_sys redcon_is_wakeup_def intro!: wp_mono [OF enter_sleep_settled [OF assms]])
  have submit: "keeps outputs_follow (work_submit (kernel (power_env E)) AdvertiseWork)"
    by (intro outputs_follow_frame keeps_rules)
  have tail: "wp (do { redcon \<leftarrow> gets current_redcon;
      (if redcon_is_wakeup redcon \<and> preserve_level (power_env E)
       then do { set_wakeup_hardware_state (power_env E) True;
         work_reschedule (kernel (power_env E)) MeasurementNotifyWork
           (notify_interval_seconds (power_env E) * 1000) }
       else do { set_current_redcon TXING_REDCON_IDLE;
         work_cancel (kernel (power_env E)) MeasurementNotifyWork;
         enter_sleep_hardware_state (power_env E) });
      work_submit (kernel (power_env E)) AdvertiseWork }) (\<lambda>_. outputs_follow) t" for t
  proof (subst wp_bind, subst wp_gets, rule wp_bindI)
    show "wp (if redcon_is_wakeup (current_redcon t) \<and> preserve_level (power_env E)
       then do { set_wakeup_hardware_state (power_env E) True;
         work_reschedule (kernel (power_env E)) MeasurementNotifyWork
           (notify_interval_seconds (power_env E) * 1000) }
       else do { set_current_redcon TXING_REDCON_IDLE;
         work_cancel (kernel (power_env E)) MeasurementNotifyWork;
         enter_sleep_hardware_state (power_env E) }) (\<lambda>_. outputs_follow) t"
      using on [of t] off [of t] by simp
  qed (rule keepsD [OF submit])
  show ?thesis
    unfolding disconnected_def get_current_redcon_def
    by (rule wp_after, rule wp_after, rule tail)
qed

lemma keeps_outputs_access:
  "keeps outputs_follow (read_state (power_env E) len offset)"
  "keeps outputs_follow (read_power_measurement (power_env E) len offset)"
  "keeps outputs_follow (read_weather_measurement (power_env E) len offset)"
  "keeps outputs_follow (connected (power_env E) conn err)"
  "keeps outputs_follow (measurement_notify_work_handler (power_env E))"
  "keeps outputs_follow (advertise_work_handler (power_env E))"
  unfolding read_state_def copy_redcon_state_payload_def read_power_measurement_def
    read_weather_measurement_def connected_def get_current_redcon_def advertise_work_handler_def
    start_advertising_def measurement_notify_work_handler_def
  by (intro outputs_follow_frame keeps_rules keeps_frame_refresh keeps_frame_set_conn
      keeps_frame_schedule_idle keeps_frame_sample; simp)+

lemma keeps_outputs_write: "keeps outputs_follow (write_command E bs offset)"
  by (auto simp: keeps_def write_command_def set_current_redcon_def encode_redcon_state_def
      work_submit_def fw_simps outputs_follow_def split: option.split)

lemma outputs_follow_step:
  assumes works: "gpio_works (kernel E)" and "outputs_follow s" and "redcon_step (power_env E) s ev t"
  shows "outputs_follow t"
  using assms(3)
proof cases
  case callback
  have disc: "keeps outputs_follow (disconnected (power_env E))"
    by (simp add: keeps_def disconnected_settled [OF works])
  have "keeps outputs_follow (redcon_handler (power_env E) ev)"
    using callback(1)
    by (cases ev) (auto intro!: keeps_bind keeps_return keeps_outputs_access keeps_outputs_write disc)
  from keeps_run [OF this assms(2) callback(2)] show ?thesis .
next
  case (work w)
  show ?thesis
  proof (cases "w = RedconCommandWork")
    case True
    with work show ?thesis
      using wpD [OF command_settled [OF works]] by (auto simp: work_handler_def)
  next
    case False
    then have s: "outputs_follow (s\<lparr>pending := pending s - {w}\<rparr>)"
      using assms(2) by (auto simp: outputs_follow_def frame_def)
    have "keeps outputs_follow (redcon_handler (power_env E) (RunWork w))"
      using False idle_settled [OF works]
      by (cases w) (simp_all add: work_handler_def keeps_outputs_access)
    from keeps_run [OF this s work(3)] show ?thesis .
  qed
qed

lemma outputs_follow_run:
  assumes "gpio_works (kernel E)"
  shows "wp (power_main E) (\<lambda>_. outputs_follow) s"
proof -
  have start: "keeps (frame b r l q) (start_bluetooth (power_env E))" for b r l q
    unfolding start_bluetooth_def set_adv_tx_power_def start_advertising_def Let_def
    by (intro keeps_rules) simp_all
  have level: "settled r False u \<Longrightarrow>
      wp (set_current_redcon TXING_REDCON_IDLE) (\<lambda>_. settled TXING_REDCON_IDLE False) u" for r u
    by (simp add: set_current_redcon_def encode_redcon_state_def fw_simps frame_def)
  have tail: "wp (do { enter_sleep_hardware_state (power_env E);
      set_current_redcon TXING_REDCON_IDLE; start_bluetooth (power_env E) })
      (\<lambda>_. settled TXING_REDCON_IDLE False) t" for t
    by (rule wp_bindI [OF enter_sleep_settled [OF assms]], rule wp_bindI, erule level)
      (erule keepsD [OF start])
  have "wp (power_main E) (\<lambda>_. settled TXING_REDCON_IDLE False) s"
    unfolding power_main_def txing_redcon_run_def
    by (rule wp_after, rule wp_after, rule wp_after, rule wp_after, rule tail)
  then show ?thesis
    by (rule wp_mono) (auto simp: outputs_follow_def frame_def redcon_is_wakeup_def)
qed

section \<open>Levels and connection parameters in plain arithmetic\<close>

lemma command_level_supported_iff:
  "redcon_command_level_is_supported E r \<longleftrightarrow>
   1 \<le> unat r \<and> unat r \<le> 4 \<and> bit (command_levels_mask E) (unat r)"
proof -
  have "r < 1 \<longleftrightarrow> unat r < 1" "r > 4 \<longleftrightarrow> unat r > 4" by (simp_all add: word_less_nat_alt)
  moreover have "(command_levels_mask E AND push_bit (unat r) 1 \<noteq> 0) \<longleftrightarrow>
      bit (command_levels_mask E) (unat r)"
    by (simp add: push_bit_of_1 and_exp_eq_0_iff_not_bit)
  ultimately show ?thesis
    by (auto simp: redcon_command_level_is_supported_def TXING_REDCON_LEVEL_1_def
        TXING_REDCON_IDLE_def)
qed

lemma unat_interval_units: "unat (conn_interval_units_from_ms ms) = (4 * unat ms + 2) div 5"
proof -
  have "unat ((ucast ms :: u32) * 4 + 2) = 4 * unat ms + 2"
    using unat_bounds(2) [of ms] by (simp add: unat_plus_mod unat_times_mod)
  then show ?thesis
    using unat_bounds(2) [of ms]
    by (simp add: conn_interval_units_from_ms_def unat_ucast_mod unat_div)
qed

lemma unat_supervision_units: "unat (conn_supervision_units_from_ms ms) = unat ms div 10"
  using unat_bounds(2) [of ms]
  by (simp add: conn_supervision_units_from_ms_def unat_ucast_mod unat_div)

lemma unat_minimum_supervision:
  assumes "unat i \<le> 4000" "unat l \<le> 499"
  shows "unat ((ucast (i :: u16) :: u32) * (ucast (l :: u16) + 1) * 2) = 2 * unat i * (unat l + 1)"
proof -
  have "unat i * (unat l + 1) \<le> 4000 * 500" using assms by (intro mult_le_mono) simp_all
  moreover have "unat (ucast l + 1 :: u32) = unat l + 1" using assms by (simp add: unat_plus_mod)
  ultimately show ?thesis by (simp add: unat_times_mod)
qed

text \<open>Whether the calls so far have left the battery rail and the converter on.\<close>

definition rail_on :: "redcon_work calls \<Rightarrow> bool" where
  "rail_on cs = foldl (\<lambda>on c. if fst c = Driver (RegulatorEnable VbatPwr) then True
     else if fst c = Driver (RegulatorDisable VbatPwr) then False else on) False cs"

definition adc_on :: "redcon_work calls \<Rightarrow> bool" where
  "adc_on cs = foldl (\<lambda>on c. if fst c = Driver SaadcInit then True
     else if fst c = Driver SaadcUninit then False
     else if fst c = Driver SaadcInitCheck then code (snd c) \<noteq> 0 else on) False cs"

lemma rail_on_append [simp]:
  "rail_on (cs @ ds) = foldl (\<lambda>on c. if fst c = Driver (RegulatorEnable VbatPwr) then True
     else if fst c = Driver (RegulatorDisable VbatPwr) then False else on) (rail_on cs) ds"
  by (simp add: rail_on_def)

lemma adc_on_append [simp]:
  "adc_on (cs @ ds) = foldl (\<lambda>on c. if fst c = Driver SaadcInit then True
     else if fst c = Driver SaadcUninit then False
     else if fst c = Driver SaadcInitCheck then code (snd c) \<noteq> 0 else on) (adc_on cs) ds"
  by (simp add: adc_on_def)

lemma suspend_adc_off:
  "wp (suspend_battery_adc E) (\<lambda>_ t. \<not> adc_on (calls t) \<and> rail_on (calls t) = rail_on (calls s) \<and>
     set (calls s) \<subseteq> set (calls t)) s"
  by (auto simp: suspend_battery_adc_def fw_simps)

text \<open>Twice the last conversion, saturated.\<close>

definition converted :: "u16 \<Rightarrow> redcon_work calls \<Rightarrow> bool" where
  "converted mv cs \<longleftrightarrow> mv = 0 \<or> (\<exists>raw r. (Driver (AdcRawToMillivolts raw), r) \<in> set cs \<and>
     uint mv = min (2 * out r) 65535)"

lemma converted_mono: "converted mv cs \<Longrightarrow> set cs \<subseteq> set ds \<Longrightarrow> converted mv ds"
  by (auto simp: converted_def)

lemma uint_doubled_mv: "0 \<le> v \<Longrightarrow> v < 2 ^ 30 \<Longrightarrow> uint (doubled_mv v) = min (2 * v) 65535"
  by (simp add: doubled_mv_def Let_def i32_id uint_word_of_int min_def)

text \<open>The range that the conversion to millivolts of the driver stays in.\<close>

definition millivolts_bounded :: "'w kernel \<Rightarrow> bool" where
  "millivolts_bounded k \<longleftrightarrow> (\<forall>cs raw. \<bar>out (k cs (Driver (AdcRawToMillivolts raw)))\<bar> < 2 ^ 30)"

lemma convert_battery:
  assumes "millivolts_bounded (kernel E)"
  shows "wp (convert_battery_mv E)
    (\<lambda>mv t. rail_on (calls t) = rail_on (calls s) \<and> converted mv (calls t)) s"
proof -
  have val: "i32 (out (kernel E cs (Driver (AdcRawToMillivolts raw)))) =
      out (kernel E cs (Driver (AdcRawToMillivolts raw)))"
    "out (kernel E cs (Driver (AdcRawToMillivolts raw))) < 2 ^ 30" for cs raw
    using assms [unfolded millivolts_bounded_def, rule_format, of cs raw]
    by (simp_all add: i32_id)
  have last: "converted (doubled_mv (out r)) (cs @ [a, b, c, (Driver (AdcRawToMillivolts raw), r)])"
    if "0 \<le> out r" "out r < 2 ^ 30" for r cs a b c raw
    using that uint_doubled_mv [of "out r"] by (auto simp: converted_def)
  have zero: "converted 0 cs" for cs by (simp add: converted_def)
  show ?thesis
    using val(2) by (auto simp: convert_battery_mv_def fw_simps Let_def val(1) zero intro!: last)
qed

lemma sample_battery_down:
  assumes "\<And>cs. (code (kernel E cs (Driver (DeviceReady VbatPwr))) \<noteq> 0) = ready"
    and "\<not> rail_on (calls s)" and "millivolts_bounded (kernel E)"
  shows "wp (sample_battery_mv E)
    (\<lambda>mv t. \<not> rail_on (calls t) \<and> \<not> adc_on (calls t) \<and> converted mv (calls t)) s"
proof -
  let ?rail = "\<lambda>t. rail_on (calls t) \<longrightarrow> has_vbat_pwr E \<and> ready"
  have up: "wp (doif (has_vbat_pwr E) (do {
      on \<leftarrow> sys_ok (kernel E) (Driver (DeviceReady VbatPwr));
      doif on (do { sys (kernel E) (Driver (RegulatorEnable VbatPwr));
        sys_void (kernel E) (Kernel (Sleep (adc_settle_ms E))) }) })) (\<lambda>_. ?rail) t"
    if "\<not> rail_on (calls t)" for t
    using that assms(1) by (auto simp: fw_simps)
  have down: "wp (doif (has_vbat_pwr E) (disable_regulator E VbatPwr))
      (\<lambda>_ u. \<not> rail_on (calls u) \<and> converted mv (calls u)) t"
    if "?rail t" "converted mv (calls t)" for t mv
    using that assms(1)
    by (auto simp: disable_regulator_def fw_simps intro: converted_mono [OF that(2)])
  have off: "wp (do { suspend_battery_adc E; ret mv })
      (\<lambda>mv t. \<not> rail_on (calls t) \<and> \<not> adc_on (calls t) \<and> converted mv (calls t)) t"
    if "\<not> rail_on (calls t)" "converted mv (calls t)" for mv t
    by (rule wp_bindI [OF suspend_adc_off]) (use that in \<open>auto simp: wp_return intro: converted_mono\<close>)
  have resume: "wp (resume_battery_adc E) (\<lambda>_ u. \<not> rail_on (calls u)) t" if "\<not> rail_on (calls t)" for t
    using that by (simp add: resume_battery_adc_def fw_simps)
  have rest: "wp (do { mv \<leftarrow> convert_battery_mv E;
      doif (has_vbat_pwr E) (disable_regulator E VbatPwr); suspend_battery_adc E; ret mv })
      (\<lambda>mv t. \<not> rail_on (calls t) \<and> \<not> adc_on (calls t) \<and> converted mv (calls t)) t"
    if "?rail t" for t
    by (rule wp_bindI [OF convert_battery [OF assms(3)]], rule wp_bindI, rule down)
      (use that off in auto)
  show ?thesis
    unfolding sample_battery_mv_def
    apply (subst wp_bind, subst wp_sys_ok)
    apply (split if_split, intro conjI impI)
     apply (rule off)
      apply (simp add: assms(2))
     apply (simp add: converted_def)
    apply (rule wp_bindI [OF resume])
     apply (simp add: assms(2))
    apply (rule wp_bindI [OF up])
     apply simp
    apply (rule rest)
    apply simp
    done
qed

section \<open>Properties\<close>

text \<open>A device for the witnesses: every driver is ready and every call succeeds.\<close>

definition sample_kernel :: "redcon_work kernel" where
  "sample_kernel cs c = (case c of Gpio g \<Rightarrow> \<lparr>code = 0, out = 0, data = []\<rparr>
     | _ \<Rightarrow> \<lparr>code = 1, out = 0, data = []\<rparr>)"

definition sample_env :: redcon_env where
  "sample_env = \<lparr>kernel = sample_kernel, redcon_ops = power_ops, has_pdm_imu_pwr = True,
     has_vbat_pwr = True, weather_measurement = False, preserve_level = False,
     adc_differential = False, command_levels_mask = 0x18, conn_interval_ms = 500,
     conn_latency = 0, conn_supervision_ms = 5000, notify_interval_seconds = 10,
     idle_interval_seconds = 60, adc_settle_ms = 10, adv_tx_power_dbm = 0, device_name_max = 26,
     factory_data = [], crc32_ieee = (\<lambda>_. 0)\<rparr>"

definition sample_started :: redcon_state where
  "sample_started = snd (run_state (power_main sample_env) initial_redcon_state)"

definition sample_run :: "redcon_event list \<Rightarrow> redcon_state \<Rightarrow> redcon_state" where
  "sample_run es s = foldl (\<lambda>t ev. snd (run_state (redcon_handler (power_env sample_env) ev)
     (case ev of RunWork w \<Rightarrow> t\<lparr>pending := pending t - {w}\<rparr> | _ \<Rightarrow> t))) s es"

definition sample_events :: "redcon_event list" where
  "sample_events = [Connected 7 0, WriteCommand [2, 3] 0, RunWork RedconCommandWork]"

lemma sample_kernel_simps [simp]:
  "sample_kernel cs (Gpio g) = \<lparr>code = 0, out = 0, data = []\<rparr>"
  "sample_kernel cs (Driver d) = \<lparr>code = 1, out = 0, data = []\<rparr>"
  "sample_kernel cs (Kernel kc) = \<lparr>code = 1, out = 0, data = []\<rparr>"
  "sample_kernel cs (Bt bt) = \<lparr>code = 1, out = 0, data = []\<rparr>"
  by (simp_all add: sample_kernel_def)

lemma sample_env_simps [simp]:
  "kernel (power_env sample_env) = sample_kernel"
  "redcon_ops (power_env sample_env) = power_ops"
  by (simp_all add: power_env_def sample_env_def)

lemma sample_start: "run_state (power_main sample_env) initial_redcon_state = (None, sample_started)"
proof -
  have "wp (start_bluetooth (power_env sample_env)) (\<lambda>r _. r = None) t" for t
    by (simp add: start_bluetooth_def set_adv_tx_power_def start_advertising_def fw_simps Let_def
        buffer_def power_env_def sample_env_def)
  then have "wp (power_main sample_env) (\<lambda>r _. r = None) initial_redcon_state"
    unfolding power_main_def txing_redcon_run_def by (intro wp_after)
  then show ?thesis by (simp add: sample_started_def prod_eq_iff wp_def split: prod.splits)
qed

lemma sample_write:
  "wp (redcon_handler (power_env sample_env) (WriteCommand [2, 3] 0))
     (\<lambda>_ t. RedconCommandWork \<in> pending t \<and> current_redcon t = 3) s"
  by (simp add: write_command_def decode_redcon_command_def redcon_constants
      redcon_command_level_is_supported_def set_current_redcon_def encode_redcon_state_def
      work_submit_def fw_simps power_env_def sample_env_def)

lemma sample_steps:
  "steps (redcon_step (power_env sample_env)) sample_started sample_events
     (sample_run sample_events sample_started)"
proof -
  let ?E = "power_env sample_env"
  let ?s1 = "sample_run [Connected 7 0] sample_started"
  let ?s2 = "sample_run [Connected 7 0, WriteCommand [2, 3] 0] sample_started"
  have 1: "redcon_step ?E sample_started (Connected 7 0) ?s1"
    by (rule redcon_step.callback) (simp_all add: sample_run_def prod_eq_iff)
  have 2: "redcon_step ?E ?s1 (WriteCommand [2, 3] 0) ?s2"
    by (rule redcon_step.callback) (simp_all add: sample_run_def prod_eq_iff del: redcon_handler.simps)
  have "RedconCommandWork \<in> pending ?s2"
    using sample_write [of ?s1] by (simp add: sample_run_def wp_def split: prod.splits)
  then have "redcon_step ?E ?s2 (RunWork RedconCommandWork) (sample_run sample_events sample_started)"
    by (rule redcon_step.work)
      (simp add: sample_run_def sample_events_def prod_eq_iff del: redcon_handler.simps)
  from steps_Cons [of "redcon_step ?E", OF 1 steps_Cons [of "redcon_step ?E", OF 2
      steps_single [of "redcon_step ?E", OF this]]]
  show ?thesis by (simp add: sample_events_def)
qed

text \<open>
  C15. Consistency of the device state.  After any sequence of attribute accesses, connection events
  and work items on a power device, the exposed state payload is the protocol version and the
  current level, that level is idle or one the build supports, the power measurement has its wire
  format, the advertised name is 1 to 26 printable bytes with the advertised length, and the firmware
  holds exactly one reference to the connected peer and none to any other connection.
\<close>

theorem redcon_state_invariant:
  assumes "run_state (power_main E) initial_redcon_state = (None, s)"
    and "steps (redcon_step (power_env E)) s es t"
  shows "redcon_state_payload t = [2, current_redcon t] \<and>
     (current_redcon t = 4 \<or> redcon_command_level_is_supported E (current_redcon t)) \<and>
     (\<exists>mv. power_measurement_payload t = 2 # put_le16 mv) \<and>
     1 \<le> length (device_name t) \<and> length (device_name t) \<le> 26 \<and>
     list_all is_valid_device_name_byte (device_name t) \<and> ad_name_len t = length (device_name t) \<and>
     (\<forall>c. conn_refs (calls t) c = (if connected_conn t = Some c then 1 else 0))"
proof -
  have inv: "redcon_ok (power_env E) t \<and> refs_ok t"
    using power_device.life.run_inv [OF _ assms(2)] assms(1) by (simp add: power_main_def)
  then show ?thesis
    by (auto simp: redcon_ok_def refs_ok_def name_ok_def redcon_constants Suc_le_eq
        redcon_command_level_is_supported_def power_env_def)
qed

theorem redcon_state_invariant_witness:
  "let t = sample_run sample_events sample_started in
   redcon_state_payload t = [2, current_redcon t] \<and>
   conn_refs (calls t) 7 = (if connected_conn t = Some 7 then 1 else 0)"
  using redcon_state_invariant [OF sample_start sample_steps] by (simp add: Let_def)



text \<open>
  C17. Command writes.  A write is accepted exactly at offset 0 with the two bytes of the protocol
  version and a level from 1 to 4 that the build's mask allows; it then sets the level and the state
  payload and queues the command.  A refused write answers the ATT error for its reason and changes
  nothing.
\<close>

theorem write_command_exact:
  "run_state (write_command E bs offset) s =
     (if offset \<noteq> 0 then (- 0x07, s)
      else if length bs = 2 \<and> bs ! 0 = 2 \<and> 1 \<le> unat (bs ! 1) \<and> unat (bs ! 1) \<le> 4 \<and>
              bit (command_levels_mask E) (unat (bs ! 1))
      then (2, s\<lparr>calls := calls s @ [(Kernel (WorkSubmit RedconCommandWork),
                    kernel E (calls s) (Kernel (WorkSubmit RedconCommandWork)))],
                 pending := insert RedconCommandWork (pending s),
                 current_redcon := bs ! 1, redcon_state_payload := bs\<rparr>)
      else (- 0x13, s))"
proof (cases "\<exists>v r. bs = [v, r]")
  case True
  then obtain v r where "bs = [v, r]" by blast
  then show ?thesis
    by (auto simp: write_command_def decode_redcon_command_def command_level_supported_iff
        att_error_defs TXING_REDCON_PROTOCOL_VERSION_def set_current_redcon_def
        encode_redcon_state_def work_submit_def sys_def modify_def log_call_def Let_def)
next
  case False
  then have "length bs \<noteq> 2" by (auto simp: length_Suc_conv numeral_2_eq_2)
  moreover have "decode_redcon_command E bs = None"
    using False by (auto simp: decode_redcon_command_def split: list.split)
  ultimately show ?thesis by (simp add: write_command_def att_error_defs)
qed

text \<open>
  Connection parameters.  In spite of its 32-bit arithmetic and 16-bit units the validation
  accepts exactly the parameters that satisfy the Bluetooth limits over unbounded integers: an
  interval of 6 to 3200 units of 1.25 ms, a latency of at most 499, a supervision timeout of 10 to
  3200 units of 10 ms that exceeds twice the interval times one plus the latency.
\<close>

theorem validate_connection_params_iff:
  "validate_connection_params i l s \<longleftrightarrow>
     7 \<le> unat i \<and> unat i \<le> 4000 \<and> unat l \<le> 499 \<and> 100 \<le> unat s \<and> unat s \<le> 32009 \<and>
     2 * unat i * (unat l + 1) < unat s"
proof (cases "unat i \<le> 4000 \<and> unat l \<le> 499")
  case True
  then show ?thesis
    using unat_minimum_supervision [of i l]
    by (auto simp: validate_connection_params_def Let_def word_less_nat_alt word_le_nat_alt
        unat_interval_units unat_supervision_units)
next
  case False
  then show ?thesis
    by (auto simp: validate_connection_params_def Let_def word_less_nat_alt word_le_nat_alt
        unat_interval_units)
qed

text \<open>
  Battery sampling leaves nothing powered.  When readiness of the battery rail does not change,
  the driver's millivolts stay below half the 32-bit range and the rail was off, every path through the sampling routine, failed conversions included, ends
  with the rail switched off and the converter uninitialized; a nonzero result is twice the last
  conversion, saturated at the 16-bit range.
\<close>

theorem battery_powered_down:
  assumes "\<And>cs. (code (kernel E cs (Driver (DeviceReady VbatPwr))) \<noteq> 0) = ready"
    and "\<not> rail_on (calls s)" and "millivolts_bounded (kernel E)"
    and "run_state (sample_battery_mv E) s = (mv, t)"
  shows "\<not> rail_on (calls t) \<and> \<not> adc_on (calls t) \<and>
    (mv = 0 \<or> (\<exists>raw r. (Driver (AdcRawToMillivolts raw), r) \<in> set (calls t) \<and>
       uint mv = min (2 * out r) 65535))"
  using wpD [OF sample_battery_down [OF assms(1,2,3)] assms(4)] by (simp add: converted_def)

theorem battery_powered_down_witness:
  "\<not> rail_on (calls (snd (run_state (sample_battery_mv sample_env) initial_redcon_state)))"
  using battery_powered_down [of sample_env True initial_redcon_state, OF _ _ _ surjective_pairing]
  by (simp add: initial_redcon_state_def rail_on_def sample_env_def millivolts_bounded_def)

end
