(* ===== verification/Weather.thy ===== *)
theory Weather
  imports Redcon "HOL-Library.Signed_Division"
begin

text \<open>
  Model of \<^verbatim>\<open>src/devices/weather/mcu/src/main.c\<close>: the BME280 sensor driver of the weather device and
  the callbacks it gives to the Bluetooth firmware of \<open>Redcon\<close>.  The C integers are words of their
  width; \<open>scast\<close> and \<open>signed_drop_bit\<close> are the sign-extending conversion and shift, so every
  intermediate result wraps as it does in the compiled code.
\<close>

unbundle bit_operations_syntax

type_synonym s16 = "16 word"
type_synonym s32 = "32 word"
type_synonym s64 = "64 word"

section \<open>Registers and calibration\<close>

definition BME280_REG_PRESS_MSB :: u8 where "BME280_REG_PRESS_MSB = 0xf7"
definition BME280_REG_COMP_START :: u8 where "BME280_REG_COMP_START = 0x88"
definition BME280_REG_HUM_COMP_PART1 :: u8 where "BME280_REG_HUM_COMP_PART1 = 0xa1"
definition BME280_REG_HUM_COMP_PART2 :: u8 where "BME280_REG_HUM_COMP_PART2 = 0xe1"
definition BME280_REG_ID :: u8 where "BME280_REG_ID = 0xd0"
definition BME280_REG_CONFIG :: u8 where "BME280_REG_CONFIG = 0xf5"
definition BME280_REG_CTRL_MEAS :: u8 where "BME280_REG_CTRL_MEAS = 0xf4"
definition BME280_REG_CTRL_HUM :: u8 where "BME280_REG_CTRL_HUM = 0xf2"
definition BME280_REG_STATUS :: u8 where "BME280_REG_STATUS = 0xf3"
definition BME280_REG_RESET :: u8 where "BME280_REG_RESET = 0xe0"
definition BME280_CHIP_ID :: u8 where "BME280_CHIP_ID = 0x60"
definition BME280_CMD_SOFT_RESET :: u8 where "BME280_CMD_SOFT_RESET = 0xb6"
definition BME280_STATUS_MEASURING :: u8 where "BME280_STATUS_MEASURING = 0x08"
definition BME280_STATUS_IM_UPDATE :: u8 where "BME280_STATUS_IM_UPDATE = 0x01"
definition BME280_CTRL_HUM_VAL :: u8 where "BME280_CTRL_HUM_VAL = 1"
definition BME280_CTRL_MEAS_FORCED :: u8 where
  "BME280_CTRL_MEAS_FORCED = push_bit 5 1 OR push_bit 2 1 OR 1"
definition BME280_CONFIG_VAL :: u8 where "BME280_CONFIG_VAL = 0"

record bme280_calibration =
  dig_t1 :: u16
  dig_t2 :: s16
  dig_t3 :: s16
  dig_p1 :: u16
  dig_p2 :: s16
  dig_p3 :: s16
  dig_p4 :: s16
  dig_p5 :: s16
  dig_p6 :: s16
  dig_p7 :: s16
  dig_p8 :: s16
  dig_p9 :: s16
  dig_h1 :: u8
  dig_h2 :: s16
  dig_h3 :: u8
  dig_h4 :: s16
  dig_h5 :: s16
  dig_h6 :: "8 word"
  t_fine :: s32

section \<open>Bus access\<close>

definition bme280_read :: "redcon_env \<Rightarrow> u8 \<Rightarrow> nat \<Rightarrow> (int \<times> bytes) redcon" where
  "bme280_read E reg len = do {
     r \<leftarrow> sys (kernel E) (Bus (I2cRead reg len));
     ret (code r, buffer len (data r)) }"

definition bme280_write :: "redcon_env \<Rightarrow> u8 \<Rightarrow> u8 \<Rightarrow> int redcon" where
  "bme280_write E reg v = sys_code (kernel E) (Bus (I2cWrite reg v))"

definition k_uptime_get :: "redcon_env \<Rightarrow> int redcon" where
  "k_uptime_get E = do { r \<leftarrow> sys (kernel E) (Kernel Uptime); ret (out r) }"

text \<open>The loop of \<^verbatim>\<open>bme280_wait_until_ready\<close>, for at most as many rounds as its first argument.\<close>

fun bme280_wait_loop :: "nat \<Rightarrow> redcon_env \<Rightarrow> int \<Rightarrow> int option redcon" where
  "bme280_wait_loop 0 E deadline = ret None"
| "bme280_wait_loop (Suc rounds) E deadline = do {
     (err, status) \<leftarrow> bme280_read E BME280_REG_STATUS 1;
     if err < 0 then ret (Some err)
     else if status ! 0 AND (BME280_STATUS_MEASURING OR BME280_STATUS_IM_UPDATE) = 0
     then ret (Some 0)
     else do {
       now \<leftarrow> k_uptime_get E;
       if now \<ge> deadline then ret (Some (- ETIMEDOUT))
       else do {
         sys (kernel E) (Kernel (Sleep 3));
         bme280_wait_loop rounds E deadline } } }"

definition wait_rounds :: "nat \<Rightarrow> nat" where
  "wait_rounds timeout_ms = timeout_ms div 3 + 2"

text \<open>
  The bound on the rounds is enough for every clock that advances while the thread sleeps (see
  \<open>bme280_wait_terminates\<close> below); exhausting it stands for a loop that never ends.
\<close>

definition bme280_wait_until_ready :: "redcon_env \<Rightarrow> nat \<Rightarrow> int redcon" where
  "bme280_wait_until_ready E timeout_ms = do {
     start \<leftarrow> k_uptime_get E;
     result \<leftarrow> bme280_wait_loop (wait_rounds timeout_ms) E (start + int timeout_ms);
     ret (case result of None \<Rightarrow> - ETIMEDOUT | Some err \<Rightarrow> err) }"

section \<open>Calibration data\<close>

definition bme280_s12_to_i16 :: "u16 \<Rightarrow> s16" where
  "bme280_s12_to_i16 v =
     (let v = v AND 0x0fff in if v AND 0x0800 \<noteq> 0 then v OR 0xf000 else v)"

definition sys_get_le16 :: "bytes \<Rightarrow> nat \<Rightarrow> u16" where
  "sys_get_le16 buf i = ucast (buf ! i) OR push_bit 8 (ucast (buf ! (i + 1)))"

definition decode_calibration :: "bytes \<Rightarrow> u8 \<Rightarrow> bytes \<Rightarrow> bme280_calibration" where
  "decode_calibration buf h1 hbuf =
     \<lparr>dig_t1 = sys_get_le16 buf 0, dig_t2 = sys_get_le16 buf 2, dig_t3 = sys_get_le16 buf 4,
      dig_p1 = sys_get_le16 buf 6, dig_p2 = sys_get_le16 buf 8, dig_p3 = sys_get_le16 buf 10,
      dig_p4 = sys_get_le16 buf 12, dig_p5 = sys_get_le16 buf 14, dig_p6 = sys_get_le16 buf 16,
      dig_p7 = sys_get_le16 buf 18, dig_p8 = sys_get_le16 buf 20, dig_p9 = sys_get_le16 buf 22,
      dig_h1 = h1, dig_h2 = sys_get_le16 hbuf 0, dig_h3 = hbuf ! 2,
      dig_h4 = bme280_s12_to_i16 (push_bit 4 (ucast (hbuf ! 3)) OR ucast (hbuf ! 4 AND 0x0f)),
      dig_h5 = bme280_s12_to_i16 (push_bit 4 (ucast (hbuf ! 5)) OR ucast (drop_bit 4 (hbuf ! 4))),
      dig_h6 = hbuf ! 6, t_fine = 0\<rparr>"

definition bme280_read_calibration :: "redcon_env \<Rightarrow> (int + bme280_calibration) redcon" where
  "bme280_read_calibration E = do {
     (err, buf) \<leftarrow> bme280_read E BME280_REG_COMP_START 24;
     if err < 0 then ret (Inl err)
     else do {
       (err, h1) \<leftarrow> bme280_read E BME280_REG_HUM_COMP_PART1 1;
       if err < 0 then ret (Inl err)
       else do {
         (err, hbuf) \<leftarrow> bme280_read E BME280_REG_HUM_COMP_PART2 7;
         if err < 0 then ret (Inl err)
         else ret (Inr (decode_calibration buf (h1 ! 0) hbuf)) } } }"

section \<open>Compensation\<close>

definition bme280_compensate_temp :: "bme280_calibration \<Rightarrow> s32 \<Rightarrow> bme280_calibration \<times> s32" where
  "bme280_compensate_temp cal adc_temp =
     (let t1 = (ucast (dig_t1 cal) :: s32); t2 = (scast (dig_t2 cal) :: s32);
          t3 = (scast (dig_t3 cal) :: s32);
          var1 = signed_drop_bit 11 ((signed_drop_bit 3 adc_temp - push_bit 1 t1) * t2);
          var2 = signed_drop_bit 14
            (signed_drop_bit 12 ((signed_drop_bit 4 adc_temp - t1) * (signed_drop_bit 4 adc_temp - t1)) * t3);
          fine = var1 + var2
      in (cal\<lparr>t_fine := fine\<rparr>, signed_drop_bit 8 (fine * 5 + 128)))"

text \<open>C's division of signed 64-bit integers truncates towards zero.\<close>

definition sdiv64 :: "s64 \<Rightarrow> s64 \<Rightarrow> s64" where
  "sdiv64 a b = word_of_int (sint a sdiv sint b)"

definition bme280_compensate_press :: "bme280_calibration \<Rightarrow> s32 \<Rightarrow> u32" where
  "bme280_compensate_press cal adc_press =
     (let var1 = (scast (t_fine cal) :: s64) - 128000;
          var2 = var1 * var1 * scast (dig_p6 cal);
          var2 = var2 + push_bit 17 (var1 * scast (dig_p5 cal));
          var2 = var2 + push_bit 35 (scast (dig_p4 cal));
          var1 = signed_drop_bit 8 (var1 * var1 * scast (dig_p3 cal)) +
                 push_bit 12 (var1 * scast (dig_p2 cal));
          var1 = signed_drop_bit 33 ((push_bit 47 1 + var1) * ucast (dig_p1 cal))
      in if var1 = 0 then 0
         else let p = (scast (1048576 - adc_press) :: s64);
                  p = sdiv64 ((push_bit 31 p - var2) * 3125) var1;
                  var1 = signed_drop_bit 25
                    (scast (dig_p9 cal) * signed_drop_bit 13 p * signed_drop_bit 13 p);
                  var2 = signed_drop_bit 19 (scast (dig_p8 cal) * p);
                  p = signed_drop_bit 8 (p + var1 + var2) + push_bit 4 (scast (dig_p7 cal))
              in if sint p < 0 then 0
                 else if sint p > 0xffffffff then 0xffffffff
                 else ucast p)"

definition bme280_compensate_humidity :: "bme280_calibration \<Rightarrow> s32 \<Rightarrow> u32" where
  "bme280_compensate_humidity cal adc_humidity =
     (let h = t_fine cal - 76800;
          h = signed_drop_bit 15 (push_bit 14 adc_humidity - push_bit 20 (scast (dig_h4 cal)) -
                scast (dig_h5 cal) * h + 16384) *
              signed_drop_bit 14 ((signed_drop_bit 10
                (signed_drop_bit 10 (h * scast (dig_h6 cal)) *
                 (signed_drop_bit 11 (h * ucast (dig_h3 cal)) + 32768)) + 2097152) *
                scast (dig_h2 cal) + 8192);
          h = h - signed_drop_bit 4 (signed_drop_bit 7 (signed_drop_bit 15 h * signed_drop_bit 15 h) *
                ucast (dig_h1 cal));
          h = (if sint h > 419430400 then 419430400 else h);
          h = (if sint h < 0 then 0 else h)
      in signed_drop_bit 12 h)"

section \<open>Sampling\<close>

definition put_le32 :: "u32 \<Rightarrow> bytes" where
  "put_le32 v = [ucast v, ucast (drop_bit 8 v), ucast (drop_bit 16 v), ucast (drop_bit 24 v)]"

definition humidity_centi :: "u32 \<Rightarrow> u32" where
  "humidity_centi humidity_q22_10 =
     (let centi = humidity_q22_10 * 100 div 1024 in if centi > 10000 then 10000 else centi)"

definition raw_msb20 :: "bytes \<Rightarrow> nat \<Rightarrow> s32" where
  "raw_msb20 raw i = push_bit 12 (ucast (raw ! i)) OR push_bit 4 (ucast (raw ! (i + 1))) OR
     drop_bit 4 (ucast (raw ! (i + 2)))"

definition encode_weather :: "bme280_calibration \<Rightarrow> bytes \<Rightarrow> bytes" where
  "encode_weather cal raw =
     (let adc_press = raw_msb20 raw 0;
          adc_temp = raw_msb20 raw 3;
          adc_humidity = push_bit 8 (ucast (raw ! 6)) OR ucast (raw ! 7);
          (cal, temperature_centi_c) = bme280_compensate_temp cal adc_temp;
          pressure_pa = drop_bit 8 (bme280_compensate_press cal adc_press);
          humidity_centi_percent = humidity_centi (bme280_compensate_humidity cal adc_humidity)
      in TXING_REDCON_PROTOCOL_VERSION # put_le32 temperature_centi_c @ put_le32 pressure_pa @
         put_le16 (ucast humidity_centi_percent))"

text \<open>
  The halves and the whole of \<^verbatim>\<open>sample_bme280_payload\<close> between power-up and the label \<^verbatim>\<open>out\<close>: from the chip
  identification to the calibration data, and the measurement itself.
\<close>

definition bme280_start :: "redcon_env \<Rightarrow> (int + bme280_calibration) redcon" where
  "bme280_start E = do {
     (err, chip) \<leftarrow> bme280_read E BME280_REG_ID 1;
     if err < 0 then ret (Inl err)
     else if chip ! 0 \<noteq> BME280_CHIP_ID then ret (Inl (- ENOTSUP))
     else do {
       err \<leftarrow> bme280_write E BME280_REG_RESET BME280_CMD_SOFT_RESET;
       if err < 0 then ret (Inl err)
       else do {
         sys (kernel E) (Kernel (Sleep 2));
         err \<leftarrow> bme280_wait_until_ready E 100;
         if err < 0 then ret (Inl err)
         else bme280_read_calibration E } } }"

definition bme280_measure :: "redcon_env \<Rightarrow> bme280_calibration \<Rightarrow> (int + int \<times> bytes) redcon" where
  "bme280_measure E cal = do {
     err \<leftarrow> bme280_write E BME280_REG_CTRL_HUM BME280_CTRL_HUM_VAL;
     if err < 0 then ret (Inl err)
     else do {
       err \<leftarrow> bme280_write E BME280_REG_CONFIG BME280_CONFIG_VAL;
       if err < 0 then ret (Inl err)
       else do {
         err \<leftarrow> bme280_write E BME280_REG_CTRL_MEAS BME280_CTRL_MEAS_FORCED;
         if err < 0 then ret (Inl err)
         else do {
           sys (kernel E) (Kernel (Sleep 8));
           err \<leftarrow> bme280_wait_until_ready E 150;
           if err < 0 then ret (Inl err)
           else do {
             (err, raw) \<leftarrow> bme280_read E BME280_REG_PRESS_MSB 8;
             if err < 0 then ret (Inl err)
             else ret (Inr (err, encode_weather cal raw)) } } } } }"

definition bme280_session :: "redcon_env \<Rightarrow> (int + int \<times> bytes) redcon" where
  "bme280_session E = do {
     started \<leftarrow> bme280_start E;
     (case started of Inl err \<Rightarrow> ret (Inl err) | Inr cal \<Rightarrow> bme280_measure E cal) }"

definition sample_bme280_payload :: "redcon_env \<Rightarrow> int \<Rightarrow> bytes \<Rightarrow> (int \<times> bytes) redcon" where
  "sample_bme280_payload E settle_ms payload =
     (if length payload \<noteq> 11 then ret (- EINVAL, payload)
      else do {
        ready \<leftarrow> sys_ok (kernel E) (Driver (DeviceReady Bme280));
        if \<not> ready then ret (- ENODEV, payload)
        else do {
          txing_redcon_set_output_active E (Some PowerPin) True;
          sys (kernel E) (Kernel (Sleep settle_ms));
          measured \<leftarrow> bme280_session E;
          txing_redcon_set_output_active E (Some PowerPin) False;
          ret (case measured of Inl err \<Rightarrow> (err, payload) | Inr result \<Rightarrow> result) } })"

section \<open>The application\<close>

definition before_idle_measurement_weather :: "redcon_env \<Rightarrow> unit redcon" where
  "before_idle_measurement_weather E = txing_redcon_set_output_active E (Some Led) True"

definition after_idle_measurement_weather :: "redcon_env \<Rightarrow> unit redcon" where
  "after_idle_measurement_weather E = txing_redcon_set_output_active E (Some Led) False"

definition weather_ops :: "redcon_env \<Rightarrow> int \<Rightarrow> txing_redcon_ops" where
  "weather_ops E settle_ms =
     \<lparr>led = Some Led, power = Some PowerPin,
      sample_weather_measurement = Some (sample_bme280_payload E settle_ms),
      before_idle_measurement = Some (before_idle_measurement_weather E),
      after_idle_measurement = Some (after_idle_measurement_weather E), app_init = None\<rparr>"

definition weather_env :: "redcon_env \<Rightarrow> int \<Rightarrow> redcon_env" where
  "weather_env E settle_ms = E\<lparr>redcon_ops := weather_ops E settle_ms\<rparr>"

definition weather_main :: "redcon_env \<Rightarrow> int \<Rightarrow> int option redcon" where
  "weather_main E settle_ms = txing_redcon_run (weather_env E settle_ms)"

section \<open>What sampling does\<close>

text \<open>The calls of the sensor code: nothing but the bus, the clock and sleeping.\<close>

fun sensor_call :: "redcon_work zcall \<Rightarrow> bool" where
  "sensor_call (Bus b) = True"
| "sensor_call (Kernel k) = (case k of Sleep ms \<Rightarrow> True | Uptime \<Rightarrow> True | _ \<Rightarrow> False)"
| "sensor_call _ = False"

lemma only_calls_sum [calls_rules]:
  "(\<And>x. only_calls P (f x)) \<Longrightarrow> (\<And>y. only_calls P (g y)) \<Longrightarrow> only_calls P (case_sum f g z)"
  by (cases z) simp_all

lemma only_calls_bus [calls_rules]:
  "only_calls sensor_call (bme280_read E reg len)" "only_calls sensor_call (bme280_write E reg v)"
  "only_calls sensor_call (k_uptime_get E)"
  unfolding bme280_read_def bme280_write_def k_uptime_get_def
  by (intro calls_rules only_calls_calls; simp)+

lemma only_calls_wait_loop [calls_rules]: "only_calls sensor_call (bme280_wait_loop n E deadline)"
  by (induction n) (auto intro!: calls_rules only_calls_calls)

lemma only_calls_wait [calls_rules]: "only_calls sensor_call (bme280_wait_until_ready E timeout)"
  unfolding bme280_wait_until_ready_def by (intro calls_rules)

lemma only_calls_start [calls_rules]: "only_calls sensor_call (bme280_start E)"
  unfolding bme280_start_def bme280_read_calibration_def
  by (intro calls_rules only_calls_calls) simp

lemma only_calls_measure [calls_rules]: "only_calls sensor_call (bme280_measure E cal)"
  unfolding bme280_measure_def by (intro calls_rules only_calls_calls) simp

lemma sensor_app: "only_calls sensor_call m \<Longrightarrow> only_calls app_call m"
  by (erule only_calls_mono) (erule sensor_call.elims; simp)

lemma only_calls_sample_weather: "only_calls app_call (sample_bme280_payload E settle_ms payload)"
  unfolding sample_bme280_payload_def bme280_session_def
  by (intro calls_rules only_calls_calls sensor_app [OF only_calls_start]
      sensor_app [OF only_calls_measure]; simp)

interpretation weather_device: redcon_app "weather_env E settle_ms" for E settle_ms
  by unfold_locales
    (auto simp: weather_env_def weather_ops_def before_idle_measurement_weather_def
      after_idle_measurement_weather_def intro: only_calls_sample_weather only_calls_output)

section \<open>The wait loop ends\<close>

text \<open>A clock that never runs backwards and advances by the time slept.\<close>

definition slept :: "'w calls \<Rightarrow> int" where
  "slept cs = sum_list (map (\<lambda>c. case fst c of Kernel (Sleep ms) \<Rightarrow> max 0 ms | _ \<Rightarrow> 0) cs)"

definition clock_ok :: "'w kernel \<Rightarrow> bool" where
  "clock_ok k \<longleftrightarrow>
     (\<forall>cs ds. out (k (cs @ ds) (Kernel Uptime)) \<ge> out (k cs (Kernel Uptime)) + slept ds)"

lemma slept_simps [simp]:
  "slept [] = 0" "slept (c # cs) = (case fst c of Kernel (Sleep ms) \<Rightarrow> max 0 ms | _ \<Rightarrow> 0) + slept cs"
  by (simp_all add: slept_def)

lemma bme280_wait_loop_ends:
  assumes "\<And>ds. out (kernel E (calls s @ ds) (Kernel Uptime)) \<ge> now + slept ds"
    and "deadline \<le> now + 3 * (int n - 1)" and "n > 0"
  shows "wp (bme280_wait_loop n E deadline) (\<lambda>result _. result \<noteq> None) s"
  using assms
proof (induction n arbitrary: s now)
  case (Suc n)
  let ?rd = "Bus (I2cRead BME280_REG_STATUS 1)" and ?up = "Kernel Uptime" and ?sl = "Kernel (Sleep 3)"
  let ?s1 = "log_call ?rd (kernel E (calls s) ?rd) s"
  let ?s2 = "log_call ?up (kernel E (calls ?s1) ?up) ?s1"
  let ?s3 = "log_call ?sl (kernel E (calls ?s2) ?sl) ?s2"
  have later: "wp (bme280_wait_loop n E deadline) (\<lambda>result _. result \<noteq> None) ?s3"
    if "out (kernel E (calls ?s1) ?up) < deadline"
  proof (rule Suc.IH)
    show "now + 3 + slept ds \<le> out (kernel E (calls ?s3 @ ds) ?up)" for ds
      using Suc.prems(1) [of "[(?rd, kernel E (calls s) ?rd), (?up, kernel E (calls ?s1) ?up),
        (?sl, kernel E (calls ?s2) ?sl)] @ ds"] by simp
    have "now \<le> out (kernel E (calls ?s1) ?up)"
      using Suc.prems(1) [of "[(?rd, kernel E (calls s) ?rd)]"] by simp
    with that Suc.prems(2) show "deadline \<le> now + 3 + 3 * (int n - 1)" "0 < n" by auto
  qed
  then show ?case
    by (auto simp: bme280_read_def k_uptime_get_def fw_simps not_le)
qed simp

section \<open>Sampling results\<close>

lemma wp_sensor_level:
  "only_calls sensor_call m \<Longrightarrow> wp m (\<lambda>_ t. pin_level p (calls t) = pin_level p (calls s)) s"
proof -
  have level: "foldl (\<lambda>lvl c. drives p c lvl) l cs = l" if "list_all (\<lambda>c. sensor_call (fst c)) cs" for l cs
    using that by (induction cs arbitrary: l) (auto simp: drives_def elim: sensor_call.elims)
  assume "only_calls sensor_call m"
  then have "keeps (\<lambda>t. pin_level p (calls t) = pin_level p (calls s)) m"
    by (rule only_calls_keeps) (simp add: level)
  then show ?thesis by (rule keepsD) simp
qed

lemma unat_humidity_centi: "unat (humidity_centi q) \<le> 10000"
  by (simp add: humidity_centi_def Let_def word_less_nat_alt not_less)

lemma unat_pressure_pa: "unat (drop_bit 8 (w :: u32)) < 2 ^ 24"
  using unat_bounds(3) [of w] by (simp add: drop_bit_eq_div unat_div)

text \<open>A payload in the wire format: version, temperature, pressure below 2^24 Pa, humidity.\<close>

definition weather_payload_ok :: "bytes \<Rightarrow> bool" where
  "weather_payload_ok p \<longleftrightarrow>
     (\<exists>temp press hum. p = TXING_REDCON_PROTOCOL_VERSION # put_le32 temp @ put_le32 press @ put_le16 hum \<and>
        unat press < 2 ^ 24 \<and> unat hum \<le> 10000)"

lemma encode_weather_ok: "weather_payload_ok (encode_weather cal raw)"
proof -
  have hum: "unat (ucast (humidity_centi q) :: u16) \<le> 10000" for q
    using unat_humidity_centi [of q] by (simp add: unat_ucast_mod)
  show ?thesis
    unfolding weather_payload_ok_def encode_weather_def Let_def case_prod_unfold
    by (intro exI conjI, rule refl, rule unat_pressure_pa, rule hum)
qed

lemma bme280_measure_result:
  "wp (bme280_measure E cal) (\<lambda>m _. (\<forall>err. m = Inl err \<longrightarrow> err < 0) \<and>
     (\<forall>err p. m = Inr (err, p) \<longrightarrow> err \<ge> 0 \<and> weather_payload_ok p)) s"
  unfolding bme280_measure_def
  by (auto intro!: wp_after simp: wp_return encode_weather_ok split: prod.split)

lemma bme280_start_result: "wp (bme280_start E) (\<lambda>m _. \<forall>err. m = Inl err \<longrightarrow> err < 0) s"
  unfolding bme280_start_def bme280_read_calibration_def
  by (auto intro!: wp_after simp: wp_return errno_defs split: prod.split)

lemma bme280_session_result:
  "wp (bme280_session E) (\<lambda>m _. (\<forall>err. m = Inl err \<longrightarrow> err < 0) \<and>
     (\<forall>err p. m = Inr (err, p) \<longrightarrow> err \<ge> 0 \<and> weather_payload_ok p)) s"
  unfolding bme280_session_def
proof (rule wp_bindI [OF bme280_start_result])
  fix started :: "int + bme280_calibration" and t
  assume "\<forall>err. started = Inl err \<longrightarrow> err < 0"
  then show "wp (case started of Inl err \<Rightarrow> ret (Inl err) | Inr cal \<Rightarrow> bme280_measure E cal)
      (\<lambda>m _. (\<forall>err. m = Inl err \<longrightarrow> err < 0) \<and>
        (\<forall>err p. m = Inr (err, p) \<longrightarrow> err \<ge> 0 \<and> weather_payload_ok p)) t"
    using bme280_measure_result by (auto simp: wp_return split: sum.split)
qed

section \<open>Signed arithmetic without overflow\<close>

lemma sint32_ops:
  fixes a b :: s32
  shows "\<bar>sint a + sint b\<bar> < 2 ^ 31 \<Longrightarrow> sint (a + b) = sint a + sint b"
    and "\<bar>sint a - sint b\<bar> < 2 ^ 31 \<Longrightarrow> sint (a - b) = sint a - sint b"
    and "\<bar>sint a * sint b\<bar> < 2 ^ 31 \<Longrightarrow> sint (a * b) = sint a * sint b"
  by (simp_all add: sint_word_ariths signed_take_bit_int_eq_self)

lemma sint32_shift: "sint (signed_drop_bit n (a :: s32)) = sint a div 2 ^ n"
  by (simp add: sint_signed_drop_bit_eq drop_bit_eq_div)

lemma sint32_widen:
  "sint (ucast (b :: u16) :: s32) = uint b" "sint (scast (c :: s16) :: s32) = sint c"
proof -
  have "- 2147483648 \<le> uint b" by (rule order_trans [of _ 0]) simp_all
  moreover have "uint b < 65536" using unsigned_less [of b, where ?'a = int] by simp
  ultimately show "sint (ucast b :: s32) = uint b"
    by (simp add: signed_ucast_eq signed_take_bit_int_eq_self)
  show "sint (scast c :: s32) = sint c"
    using sint_ge [of c] sint_less [of c] by (simp add: signed_scast_eq signed_take_bit_int_eq_self)
qed

lemma sint16_bound: "\<bar>sint (c :: s16)\<bar> \<le> 32768"
  using sint_ge [of c] sint_less [of c] by auto

lemma abs_mult_bound: "\<bar>a\<bar> \<le> m \<Longrightarrow> \<bar>b\<bar> \<le> n \<Longrightarrow> \<bar>a * b\<bar> \<le> m * n" for a b m n :: int
  by (simp add: abs_mult mult_mono)

lemma abs_div_bound: "\<bar>a\<bar> \<le> m * d \<Longrightarrow> 0 < d \<Longrightarrow> \<bar>a div d\<bar> \<le> m" for a d m :: int
  using zdiv_mono1 [of a "m * d" d] zdiv_mono1 [of "(- m) * d" a d] nonzero_mult_div_cancel_right [of d "- m"]
  by (simp add: abs_le_iff)

text \<open>The compensation formula over unbounded integers, and its range near the reference.\<close>

definition ideal_t_fine :: "int \<Rightarrow> int \<Rightarrow> int \<Rightarrow> int \<Rightarrow> int" where
  "ideal_t_fine t1 t2 t3 adc =
     (adc div 8 - 2 * t1) * t2 div 2048 + (adc div 16 - t1) * (adc div 16 - t1) div 4096 * t3 div 16384"

lemma ideal_bounds:
  fixes adc t1 t2 t3 :: int
  assumes "\<bar>adc div 16 - t1\<bar> \<le> 11585" "\<bar>t2\<bar> \<le> 32768" "\<bar>t3\<bar> \<le> 32768"
  shows "\<bar>adc div 8 - 2 * t1\<bar> \<le> 23171" and "\<bar>(adc div 8 - 2 * t1) * t2\<bar> \<le> 759267328"
    and "\<bar>(adc div 16 - t1) * (adc div 16 - t1)\<bar> \<le> 134212225"
    and "\<bar>(adc div 16 - t1) * (adc div 16 - t1) div 4096 * t3\<bar> \<le> 1073709056"
    and "\<bar>ideal_t_fine t1 t2 t3 adc\<bar> \<le> 436270"
proof -
  have "2 * (adc div 16) \<le> adc div 8" "adc div 8 \<le> 2 * (adc div 16) + 1" by presburger+
  with assms(1) show 1: "\<bar>adc div 8 - 2 * t1\<bar> \<le> 23171" by (simp add: abs_le_iff)
  show 2: "\<bar>(adc div 8 - 2 * t1) * t2\<bar> \<le> 759267328"
    using abs_mult_bound [OF 1 assms(2)] by simp
  show 3: "\<bar>(adc div 16 - t1) * (adc div 16 - t1)\<bar> \<le> 134212225"
    using abs_mult_bound [OF assms(1) assms(1)] by simp
  have "\<bar>(adc div 16 - t1) * (adc div 16 - t1) div 4096\<bar> \<le> 32767"
    by (rule abs_div_bound) (use 3 in simp_all)
  from abs_mult_bound [OF this assms(3)]
  show 4: "\<bar>(adc div 16 - t1) * (adc div 16 - t1) div 4096 * t3\<bar> \<le> 1073709056" by simp
  have var1: "\<bar>(adc div 8 - 2 * t1) * t2 div 2048\<bar> \<le> 370736"
    by (rule abs_div_bound) (use 2 in simp_all)
  have var2: "\<bar>(adc div 16 - t1) * (adc div 16 - t1) div 4096 * t3 div 16384\<bar> \<le> 65534"
    by (rule abs_div_bound) (use 4 in simp_all)
  show "\<bar>ideal_t_fine t1 t2 t3 adc\<bar> \<le> 436270"
    unfolding ideal_t_fine_def
    by (rule order_trans [OF abs_triangle_ineq], rule order_trans [OF add_mono [OF var1 var2]]) simp
qed

lemma t_fine_exact:
  assumes "\<bar>sint adc div 16 - uint (dig_t1 cal)\<bar> \<le> 11585"
  shows "sint (t_fine (fst (bme280_compensate_temp cal adc))) =
    ideal_t_fine (uint (dig_t1 cal)) (sint (dig_t2 cal)) (sint (dig_t3 cal)) (sint adc)"
proof -
  let ?t1 = "uint (dig_t1 cal)" and ?t2 = "sint (dig_t2 cal)" and ?t3 = "sint (dig_t3 cal)"
  let ?w1 = "ucast (dig_t1 cal) :: s32"
  note bounds = ideal_bounds [OF assms sint16_bound [of "dig_t2 cal"] sint16_bound [of "dig_t3 cal"]]
  have t1: "0 \<le> ?t1" "?t1 < 65536" using unsigned_less [of "dig_t1 cal", where ?'a = int] by simp_all
  have two: "sint (?w1 * 2) = 2 * ?t1"
    using sint32_ops(3) [of ?w1 2] t1 by (simp add: sint32_widen)
  have a: "sint (signed_drop_bit 3 adc - ?w1 * 2) = sint adc div 8 - 2 * ?t1"
    using bounds(1) by (subst sint32_ops) (simp_all add: two sint32_shift)
  have b: "sint (signed_drop_bit 4 adc - ?w1) = sint adc div 16 - ?t1"
    using assms by (subst sint32_ops) (simp_all add: sint32_widen sint32_shift)
  have var1: "sint (signed_drop_bit 11 ((signed_drop_bit 3 adc - ?w1 * 2) *
      (scast (dig_t2 cal) :: s32))) = (sint adc div 8 - 2 * ?t1) * ?t2 div 2048"
    using bounds(2) by (simp add: sint32_shift sint32_ops(3) a sint32_widen)
  have var2: "sint (signed_drop_bit 14 (signed_drop_bit 12 ((signed_drop_bit 4 adc - ?w1) *
      (signed_drop_bit 4 adc - ?w1)) * (scast (dig_t3 cal) :: s32))) =
      (sint adc div 16 - ?t1) * (sint adc div 16 - ?t1) div 4096 * ?t3 div 16384"
    using bounds(3,4) by (simp add: sint32_shift sint32_ops(3) b sint32_widen)
  show ?thesis
    using bounds(5)
    by (simp add: bme280_compensate_temp_def Let_def sint32_ops(1) var1 var2 ideal_t_fine_def)
qed

section \<open>Properties\<close>

text \<open>
  C18. The wait for the sensor ends.  With a clock that advances while the thread sleeps, the poll
  loop returns within a third of its timeout plus two rounds, whatever the sensor answers.
\<close>

theorem bme280_wait_terminates:
  assumes "clock_ok (kernel E)" and "run_state (k_uptime_get E) s = (start, t)"
  shows "\<exists>err u. run_state (bme280_wait_loop (wait_rounds timeout_ms) E (start + int timeout_ms)) t =
    (Some err, u)"
proof -
  from assms(2) have start: "start = out (kernel E (calls s) (Kernel Uptime))"
    and t: "calls t = calls s @ [(Kernel Uptime, kernel E (calls s) (Kernel Uptime))]"
    by (auto simp: k_uptime_get_def sys_def Let_def)
  have "wp (bme280_wait_loop (wait_rounds timeout_ms) E (start + int timeout_ms))
      (\<lambda>result _. result \<noteq> None) t"
  proof (rule bme280_wait_loop_ends)
    show "start + slept ds \<le> out (kernel E (calls t @ ds) (Kernel Uptime))" for ds
      using assms(1) [unfolded clock_ok_def, rule_format, of "calls s"
        "(Kernel Uptime, kernel E (calls s) (Kernel Uptime)) # ds"] t start by simp
  qed (simp_all add: wait_rounds_def)
  then show ?thesis by (auto simp: wp_def split: prod.splits)
qed

definition sample_clock :: "redcon_work kernel" where
  "sample_clock cs c = (case c of Kernel Uptime \<Rightarrow> \<lparr>code = 0, out = slept cs, data = []\<rparr>
     | _ \<Rightarrow> \<lparr>code = 0, out = 0, data = [8]\<rparr>)"

theorem bme280_wait_terminates_witness:
  "\<exists>err u. run_state (bme280_wait_loop (wait_rounds 100) (sample_env\<lparr>kernel := sample_clock\<rparr>) 100)
     (snd (run_state (k_uptime_get (sample_env\<lparr>kernel := sample_clock\<rparr>)) initial_redcon_state)) =
     (Some err, u)"
proof -
  have "clock_ok sample_clock" by (simp add: clock_ok_def sample_clock_def slept_def)
  then show ?thesis
    using bme280_wait_terminates [of "sample_env\<lparr>kernel := sample_clock\<rparr>" initial_redcon_state 0 _ 100]
    by (simp add: k_uptime_get_def sys_def sample_clock_def initial_redcon_state_def Let_def)
qed

text \<open>
  C19. Weather payloads.  Sampling either fails with a negative code and leaves the payload as it
  was, or succeeds with the eleven bytes of the wire format: the protocol version, the temperature,
  a pressure below 2^24 Pa and a humidity of at most 100.00 percent, little endian.
\<close>

theorem weather_payload_exact:
  assumes "run_state (sample_bme280_payload E settle_ms payload) s = ((err, p), t)"
  shows "err < 0 \<and> p = payload \<or>
    err \<ge> 0 \<and> (\<exists>temp press hum. p = 2 # put_le32 temp @ put_le32 press @ put_le16 hum \<and>
      unat press < 2 ^ 24 \<and> unat hum \<le> 10000)"
proof -
  let ?Q = "\<lambda>(err, p) _. err < 0 \<and> p = payload \<or> err \<ge> 0 \<and> weather_payload_ok p"
  have last: "wp (do { txing_redcon_set_output_active E (Some PowerPin) False;
      ret (case m of Inl err \<Rightarrow> (err, payload) | Inr result \<Rightarrow> result) }) ?Q u"
    if "(\<forall>err. m = Inl err \<longrightarrow> err < 0) \<and> (\<forall>err p. m = Inr (err, p) \<longrightarrow> err \<ge> 0 \<and> weather_payload_ok p)"
    for m u
    using that by (auto intro!: wp_after simp: wp_return split: sum.split)
  have "wp (sample_bme280_payload E settle_ms payload) ?Q s"
    unfolding sample_bme280_payload_def
    by (auto simp: wp_return errno_defs intro!: wp_after wp_bindI [OF bme280_session_result last])
  from wpD [OF this assms] show ?thesis
    by (simp add: weather_payload_ok_def TXING_REDCON_PROTOCOL_VERSION_def)
qed

text \<open>A bus that answers every read with the chip identification, which is also an idle status.\<close>

definition sample_sensor :: redcon_env where
  "sample_sensor = sample_env\<lparr>kernel := (\<lambda>cs c. case c of
     Driver d \<Rightarrow> \<lparr>code = 1, out = 0, data = []\<rparr> | _ \<Rightarrow> \<lparr>code = 0, out = 0, data = [0x60]\<rparr>)\<rparr>"

lemma sample_sensor_kernel [simp]:
  "code (kernel sample_sensor cs (Driver d)) = 1" "code (kernel sample_sensor cs (Gpio g)) = 0"
  "code (kernel sample_sensor cs (Bus b)) = 0" "data (kernel sample_sensor cs (Bus b)) = [0x60]"
  by (simp_all add: sample_sensor_def)

lemma sample_sensor_wait:
  "\<exists>t. wp (bme280_wait_until_ready sample_sensor timeout_ms) Q s = Q 0 t"
  by (simp add: bme280_wait_until_ready_def wait_rounds_def bme280_read_def k_uptime_get_def
      buffer_def BME280_STATUS_MEASURING_def BME280_STATUS_IM_UPDATE_def fw_simps) blast

lemma sample_sensor_waits: "wp (bme280_wait_until_ready sample_sensor timeout_ms) (\<lambda>err _. err = 0) s"
  using sample_sensor_wait [of timeout_ms "\<lambda>err _. err = 0" s] by simp

lemma sample_sensor_start: "wp (bme280_start sample_sensor) (\<lambda>m _. \<exists>cal. m = Inr cal) s"
  by (auto simp: bme280_start_def bme280_read_def bme280_write_def bme280_read_calibration_def
      buffer_def BME280_CHIP_ID_def fw_simps intro!: wp_mono [OF sample_sensor_waits])

lemma sample_sensor_measure: "wp (bme280_measure sample_sensor cal) (\<lambda>m _. \<exists>p. m = Inr (0, p)) s"
  by (auto simp: bme280_measure_def bme280_read_def bme280_write_def fw_simps
      intro!: wp_mono [OF sample_sensor_waits])

lemma sample_sensor_reads:
  "wp (sample_bme280_payload sample_sensor 5 (replicate 11 0)) (\<lambda>(err, p) _. err = 0) s"
proof -
  have session: "wp (bme280_session sample_sensor) (\<lambda>m _. \<exists>p. m = Inr (0, p)) t" for t
    unfolding bme280_session_def
    by (rule wp_bindI [OF sample_sensor_start]) (auto intro: sample_sensor_measure)
  show ?thesis
    by (auto simp: sample_bme280_payload_def txing_redcon_set_output_active_def fw_simps
        intro!: wp_mono [OF session])
qed

theorem weather_payload_exact_witness:
  "\<exists>temp press hum t. run_state (sample_bme280_payload sample_sensor 5 (replicate 11 0))
     initial_redcon_state = ((0, 2 # put_le32 temp @ put_le32 press @ put_le16 hum), t) \<and>
     unat press < 2 ^ 24 \<and> unat hum \<le> 10000"
proof -
  obtain err p t where run: "run_state (sample_bme280_payload sample_sensor 5 (replicate 11 0))
      initial_redcon_state = ((err, p), t)" by (metis surj_pair)
  from wpD [OF sample_sensor_reads run] have "err = 0" by simp
  with weather_payload_exact [OF run] run show ?thesis by auto
qed

text \<open>
  The sensor is not left powered.  With working GPIO ports, whatever the bus answers and on
  every error path, sampling from an unpowered sensor ends with the sensor unpowered, and a sampling
  that got as far as the sensor ends with its supply driven off.
\<close>

theorem weather_sensor_powered_down:
  assumes "gpio_works (kernel E)"
    and "run_state (sample_bme280_payload E settle_ms payload) s = ((err, p), t)"
  shows "pin_level PowerPin (calls t) = Some False \<or>
    p = payload \<and> err \<in> {- 22, - 19} \<and> pin_level PowerPin (calls t) = pin_level PowerPin (calls s)"
proof -
  let ?Q = "\<lambda>(err, p) t. pin_level PowerPin (calls t) = Some False \<or>
    p = payload \<and> err \<in> {- 22, - 19} \<and> pin_level PowerPin (calls t) = pin_level PowerPin (calls s)"
  have last: "wp (do { txing_redcon_set_output_active E (Some PowerPin) False;
      ret (case m of Inl err \<Rightarrow> (err, payload) | Inr result \<Rightarrow> result) }) ?Q u" for m u
    using assms(1)
    by (simp add: txing_redcon_set_output_active_def fw_simps gpio_works_def split: prod.split)
  have "wp (do { txing_redcon_set_output_active E (Some PowerPin) True;
      sys (kernel E) (Kernel (Sleep settle_ms)); measured \<leftarrow> bme280_session E;
      txing_redcon_set_output_active E (Some PowerPin) False;
      ret (case measured of Inl err \<Rightarrow> (err, payload) | Inr result \<Rightarrow> result) }) ?Q u" for u
    by (rule wp_after, rule wp_after, rule wp_after, rule last)
  then have "wp (sample_bme280_payload E settle_ms payload) ?Q s"
    unfolding sample_bme280_payload_def
    by (simp add: wp_bind [of "sys_ok _ _"] wp_sys_ok wp_return errno_defs)
  from wpD [OF this assms(2)] show ?thesis by simp
qed

theorem weather_sensor_powered_down_witness:
  "pin_level PowerPin (calls (snd (run_state (sample_bme280_payload sample_sensor 5 (replicate 11 0))
     initial_redcon_state))) = Some False"
proof -
  obtain err p t where run: "run_state (sample_bme280_payload sample_sensor 5 (replicate 11 0))
      initial_redcon_state = ((err, p), t)" by (metis surj_pair)
  from wpD [OF sample_sensor_reads run] have "err = 0" by simp
  with weather_sensor_powered_down [OF _ run] run show ?thesis
    by (simp add: gpio_works_def sample_sensor_def)
qed

text \<open>
  C20. The temperature is exact.  For a raw reading within 11585 * 16 counts of the calibration
  reference, none of the 32-bit operations of the temperature compensation overflows: the fine
  temperature and the result are those of the formula over unbounded integers.
\<close>

theorem bme280_temp_exact:
  assumes "\<bar>sint adc div 16 - uint (dig_t1 cal)\<bar> \<le> 11585"
    and "bme280_compensate_temp cal adc = (cal', temp)"
  shows "sint (t_fine cal') =
      ideal_t_fine (uint (dig_t1 cal)) (sint (dig_t2 cal)) (sint (dig_t3 cal)) (sint adc) \<and>
    sint temp = (5 * sint (t_fine cal') + 128) div 256"
proof -
  note bounds = ideal_bounds [OF assms(1) sint16_bound [of "dig_t2 cal"] sint16_bound [of "dig_t3 cal"]]
  from t_fine_exact [OF assms(1)] assms(2) have fine: "sint (t_fine cal') =
      ideal_t_fine (uint (dig_t1 cal)) (sint (dig_t2 cal)) (sint (dig_t3 cal)) (sint adc)" by simp
  have temp: "temp = signed_drop_bit 8 (t_fine cal' * 5 + 128)"
    using assms(2) by (auto simp: bme280_compensate_temp_def Let_def)
  have small: "\<bar>sint (t_fine cal')\<bar> \<le> 436270" using bounds(5) fine by simp
  have "sint (t_fine cal' * 5) = sint (t_fine cal') * 5"
    using small by (subst sint32_ops(3)) simp_all
  then have "sint (t_fine cal' * 5 + 128) = 5 * sint (t_fine cal') + 128"
    using small by (subst sint32_ops(1)) simp_all
  with fine temp show ?thesis by (simp add: sint32_shift)
qed

text \<open>The calibration bytes and the raw reading of the data sheet's worked example: 25.08 degrees.\<close>

definition sample_calibration :: bme280_calibration where
  "sample_calibration =
     decode_calibration ([0x70, 0x6b, 0x43, 0x67, 0x18, 0xfc] @ replicate 18 0) 0 (replicate 7 0)"

lemma sample_calibration_simps:
  "dig_t1 sample_calibration = 27504" "dig_t2 sample_calibration = 26435"
  "dig_t3 sample_calibration = - 1000"
  by (simp_all add: sample_calibration_def decode_calibration_def sys_get_le16_def)

theorem bme280_temp_exact_witness:
  "sint (snd (bme280_compensate_temp sample_calibration 519888)) = 2508"
  using bme280_temp_exact [OF _ surjective_pairing, of 519888 sample_calibration]
  by (simp add: sample_calibration_simps ideal_t_fine_def)

end
