(* ===== verification/ThreadBase.thy ===== *)
theory ThreadBase
  imports Firmware
begin

text \<open>
  What the Thread firmwares of \<open>ThreadDevice\<close> and \<open>PowerSi\<close> share: the static variables that both
  sources declare, the constants of CoAP and OpenThread, the texts they print, and the views of the
  call history that the properties speak of (the link mode, response messages).
\<close>

unbundle bit_operations_syntax

section \<open>State\<close>

record 'w thread_base = "'w firmware" +
  thing_name :: bytes
  dataset_tlvs :: bytes
  coap_port :: u16
  factory_valid :: bool
  battery_available :: bool
  redcon_level :: int
  srp_instance_name :: bytes
  srp_port :: u16
  srp_host_address :: bytes
  srp_registration_accepted :: bool
  sed_mode_active :: bool

lemma thread_base_log_call [simp]:
  "thing_name (log_call c r s) = thing_name s" "dataset_tlvs (log_call c r s) = dataset_tlvs s"
  "coap_port (log_call c r s) = coap_port s" "factory_valid (log_call c r s) = factory_valid s"
  "battery_available (log_call c r s) = battery_available s"
  "redcon_level (log_call c r s) = redcon_level s"
  "srp_instance_name (log_call c r s) = srp_instance_name s" "srp_port (log_call c r s) = srp_port s"
  "srp_host_address (log_call c r s) = srp_host_address s"
  "srp_registration_accepted (log_call c r s) = srp_registration_accepted s"
  "sed_mode_active (log_call c r s) = sed_mode_active s"
  by (simp_all add: log_call_def)

section \<open>Constants\<close>

definition TXING_PROTOCOL_VERSION :: int where "TXING_PROTOCOL_VERSION = 1"
definition TXING_COAP_DEFAULT_PORT :: u16 where "TXING_COAP_DEFAULT_PORT = 5683"
definition TXING_REDCON_ON :: int where "TXING_REDCON_ON = 3"
definition TXING_REDCON_OFF :: int where "TXING_REDCON_OFF = 4"
definition STATE_JSON_SIZE :: nat where "STATE_JSON_SIZE = 160"
definition REQUEST_JSON_SIZE :: nat where "REQUEST_JSON_SIZE = 96"

lemmas redcon_levels = TXING_REDCON_ON_def TXING_REDCON_OFF_def

text \<open>Values of OpenThread's enumerations.\<close>

definition OT_ERROR_NONE :: int where "OT_ERROR_NONE = 0"
definition OT_ERROR_FAILED :: int where "OT_ERROR_FAILED = 1"
definition OT_ERROR_INVALID_STATE :: int where "OT_ERROR_INVALID_STATE = 13"
definition OT_ERROR_ALREADY :: int where "OT_ERROR_ALREADY = 24"
definition OT_DEVICE_ROLE_CHILD :: int where "OT_DEVICE_ROLE_CHILD = 2"
definition OT_COAP_TYPE_CONFIRMABLE :: int where "OT_COAP_TYPE_CONFIRMABLE = 0"
definition OT_COAP_TYPE_NON_CONFIRMABLE :: int where "OT_COAP_TYPE_NON_CONFIRMABLE = 1"
definition OT_COAP_TYPE_ACKNOWLEDGMENT :: int where "OT_COAP_TYPE_ACKNOWLEDGMENT = 2"
definition OT_COAP_CODE_GET :: int where "OT_COAP_CODE_GET = 0x01"
definition OT_COAP_CODE_PUT :: int where "OT_COAP_CODE_PUT = 0x03"
definition OT_COAP_CODE_CHANGED :: int where "OT_COAP_CODE_CHANGED = 0x44"
definition OT_COAP_CODE_CONTENT :: int where "OT_COAP_CODE_CONTENT = 0x45"
definition OT_COAP_CODE_BAD_REQUEST :: int where "OT_COAP_CODE_BAD_REQUEST = 0x80"
definition OT_COAP_CODE_METHOD_NOT_ALLOWED :: int where "OT_COAP_CODE_METHOD_NOT_ALLOWED = 0x85"
definition OT_COAP_CODE_INTERNAL_ERROR :: int where "OT_COAP_CODE_INTERNAL_ERROR = 0xa0"

lemmas ot_errors = OT_ERROR_NONE_def OT_ERROR_FAILED_def OT_ERROR_INVALID_STATE_def
  OT_ERROR_ALREADY_def

section \<open>Texts\<close>

definition ascii :: "string \<Rightarrow> bytes" where
  "ascii s = map of_char s"

fun decimal :: "nat \<Rightarrow> bytes" where
  "decimal n = (if n < 10 then [48 + of_nat n] else decimal (n div 10) @ [48 + of_nat (n mod 10)])"

declare decimal.simps [simp del]

text \<open>\<^verbatim>\<open>%d\<close> and \<^verbatim>\<open>%u\<close>.\<close>

definition print_d :: "int \<Rightarrow> bytes" where
  "print_d i = (if i < 0 then 45 # decimal (nat (- i)) else decimal (nat i))"

text \<open>The text that both versions of \<^verbatim>\<open>format_state\<close> print; no battery value prints \<^verbatim>\<open>null\<close>.\<close>

definition state_json :: "bytes \<Rightarrow> int \<Rightarrow> u16 option \<Rightarrow> bytes" where
  "state_json name redcon battery =
     ascii ''{\"version\":'' @ print_d TXING_PROTOCOL_VERSION @ ascii '',\"thingName\":\"'' @ name @
     ascii ''\",\"redcon\":'' @ print_d redcon @ ascii '',\"batteryMv\":'' @
     (case battery of None \<Rightarrow> ascii ''null'' | Some mv \<Rightarrow> decimal (unat mv)) @ ascii ''}''"

lemma decimal_small: "n < 10 \<Longrightarrow> decimal n = [48 + of_nat n]"
  by (simp add: decimal.simps [of n])

lemma length_decimal: "n < 10 ^ k \<Longrightarrow> 0 < k \<Longrightarrow> length (decimal n) \<le> k"
proof (induction k arbitrary: n)
  case (Suc k)
  then show ?case
    by (cases "n < 10"; cases k) (auto simp: decimal.simps [of n])
qed simp

lemma length_state_json:
  assumes "length name \<le> 64" and "redcon = TXING_REDCON_ON \<or> redcon = TXING_REDCON_OFF"
  shows "length (state_json name redcon battery) \<le> 121"
proof -
  have "length (decimal (unat mv)) \<le> 5" for mv :: u16
    using length_decimal [of "unat mv" 5] unat_bounds(2) [of mv] by simp
  then have "length (case battery of None \<Rightarrow> ascii ''null'' | Some mv \<Rightarrow> decimal (unat mv)) \<le> 5"
    by (auto simp: ascii_def split: option.split)
  with assms show ?thesis
    by (auto simp: state_json_def ascii_def print_d_def decimal_small redcon_levels
        TXING_PROTOCOL_VERSION_def)
qed

section \<open>Views of the history\<close>

text \<open>The link mode that the last successful call has set.\<close>

definition sets_mode :: "'w zcall \<times> reply \<Rightarrow> bool option \<Rightarrow> bool option" where
  "sets_mode c m = (case fst c of Ot (OtSetLinkMode on) \<Rightarrow> if code (snd c) = 0 then Some on else m | _ \<Rightarrow> m)"

definition link_mode :: "'w calls \<Rightarrow> bool option" where
  "link_mode cs = foldl (\<lambda>m c. sets_mode c m) None cs"

lemma link_mode_append [simp]:
  "link_mode (cs @ ds) = foldl (\<lambda>m c. sets_mode c m) (link_mode cs) ds"
  by (simp add: link_mode_def)

lemma sets_mode_simps [simp]:
  "sets_mode (Ot (OtSetLinkMode on), r) m = (if code r = 0 then Some on else m)"
  "(\<forall>on. t \<noteq> OtSetLinkMode on) \<Longrightarrow> sets_mode (Ot t, r) m = m"
  "sets_mode (Gpio g, r) m = m" "sets_mode (Driver d, r) m = m" "sets_mode (Bus b, r) m = m"
  "sets_mode (Kernel kc, r) m = m" "sets_mode (Bt bt, r) m = m" "sets_mode (Coap co, r) m = m"
  "sets_mode (Psa ps, r) m = m"
  by (auto simp: sets_mode_def split: ot_call.split)

text \<open>Response messages that have been allocated and neither sent nor freed.\<close>

definition message_weight :: "'w zcall \<times> reply \<Rightarrow> int" where
  "message_weight c = (case fst c of
     Coap NewMessage \<Rightarrow> if code (snd c) \<noteq> 0 then 1 else 0
   | Coap SendResponse \<Rightarrow> if code (snd c) = 0 then - 1 else 0
   | Coap MessageFree \<Rightarrow> - 1
   | _ \<Rightarrow> 0)"

definition held_messages :: "'w calls \<Rightarrow> int" where
  "held_messages cs = sum_list (map message_weight cs)"

lemma held_messages_simps [simp]:
  "held_messages [] = 0" "held_messages (c # cs) = message_weight c + held_messages cs"
  "held_messages (cs @ ds) = held_messages cs + held_messages ds"
  by (simp_all add: held_messages_def)

lemma message_weight_simps [simp]:
  "message_weight (Coap NewMessage, r) = (if code r \<noteq> 0 then 1 else 0)"
  "message_weight (Coap SendResponse, r) = (if code r = 0 then - 1 else 0)"
  "message_weight (Coap MessageFree, r) = - 1"
  "message_weight (Coap MessageCode, r) = 0" "message_weight (Coap MessageType, r) = 0"
  "message_weight (Coap MessageOffset, r) = 0" "message_weight (Coap MessageLength, r) = 0"
  "message_weight (Coap (MessageRead o1 l1), r) = 0" "message_weight (Coap (InitResponse t1 c1), r) = 0"
  "message_weight (Coap AppendContentFormat, r) = 0" "message_weight (Coap SetPayloadMarker, r) = 0"
  "message_weight (Coap (MessageAppend bs), r) = 0"
  "message_weight (Gpio g, r) = 0" "message_weight (Driver d, r) = 0" "message_weight (Bus b, r) = 0"
  "message_weight (Kernel kc, r) = 0" "message_weight (Bt bt, r) = 0" "message_weight (Ot ot, r) = 0"
  "message_weight (Psa ps, r) = 0"
  by (simp_all add: message_weight_def)

section \<open>Computations that leave pins, radio and level alone\<close>

text \<open>Answering a request neither drives an output pin nor sets the link mode nor changes a variable.\<close>

fun quiet_call :: "'w zcall \<Rightarrow> bool" where
  "quiet_call (Driver d) = True"
| "quiet_call (Coap c) = True"
| "quiet_call (Ot t) = (t = OtInstance)"
| "quiet_call (Gpio (GpioSet p v)) = (p = BatteryEnable)"
| "quiet_call (Kernel (Sleep ms)) = True"
| "quiet_call _ = False"

lemma quiet_views:
  assumes "list_all (\<lambda>c. quiet_call (fst c)) cs"
  shows "p \<noteq> BatteryEnable \<Longrightarrow> foldl (\<lambda>lvl c. drives p c lvl) l cs = l"
    and "foldl (\<lambda>m c. sets_mode c m) m cs = m"
  using assms
  by (induction cs arbitrary: l m)
    (auto simp: drives_def sets_mode_def elim: quiet_call.elims split: zcall.splits ot_call.splits)

text \<open>The pins, the radio and the level, for computations that leave all of them alone.\<close>

definition radio_view :: "bool option \<Rightarrow> bool option \<Rightarrow> bool option \<Rightarrow> int \<Rightarrow> ('w, 'x) thread_base_scheme \<Rightarrow> bool" where
  "radio_view p l m level s \<longleftrightarrow> pin_level PowerPin (calls s) = p \<and> pin_level Led (calls s) = l \<and>
     link_mode (calls s) = m \<and> redcon_level s = level"

definition radio_call :: "'w zcall \<Rightarrow> bool" where
  "radio_call c \<longleftrightarrow> (case c of
     Gpio (GpioSet p v) \<Rightarrow> p \<noteq> BatteryEnable
   | Gpio (GpioConfigureInactive p) \<Rightarrow> p \<noteq> BatteryEnable
   | Ot (OtSetLinkMode on) \<Rightarrow> True
   | _ \<Rightarrow> False)"

lemma view_sys:
  assumes "\<not> radio_call c"
  shows "keeps (radio_view p l m level) (sys k c)" "keeps (radio_view p l m level) (sys_code k c)"
    "keeps (radio_view p l m level) (sys_ok k c)" "keeps (radio_view p l m level) (sys_void k c)"
  using assms
  by (auto simp: keeps_def fw_simps radio_view_def radio_call_def drives_def sets_mode_def
      split: zcall.splits ot_call.splits gpio_call.splits)

lemma view_work:
  "keeps (radio_view p l m level) (work_schedule k w ms)" "keeps (radio_view p l m level) (work_cancel k w)"
  "keeps (radio_view p l m level) (work_submit k w)"
  by (auto simp: keeps_def fw_simps work_schedule_def work_cancel_def work_submit_def radio_view_def)

lemma view_modify:
  "(\<And>s. calls (f s) = calls s \<and> redcon_level (f s) = redcon_level s) \<Longrightarrow> keeps (radio_view p l m level) (modify f)"
  by (simp add: keeps_def fw_simps radio_view_def)

lemma view_quiet: "only_calls quiet_call m' \<Longrightarrow> keeps (radio_view p l m level) m'"
  by (erule only_calls_keeps) (simp add: radio_view_def quiet_views)

lemmas view_rules = keeps_bind keeps_if keeps_doif keeps_return keeps_gets keeps_option keeps_prod
  view_sys view_work view_modify

section \<open>Pins and radio\<close>

text \<open>The radio and the pins, when the GPIO ports work.\<close>

definition radio_ok :: "('w, 'x) thread_base_scheme \<Rightarrow> bool" where
  "radio_ok s \<longleftrightarrow>
     pin_level PowerPin (calls s) = Some (redcon_level s = TXING_REDCON_ON) \<and>
     pin_level Led (calls s) = Some (redcon_level s = TXING_REDCON_ON) \<and>
     (redcon_level s = TXING_REDCON_ON \<longrightarrow> link_mode (calls s) = Some True)"

lemma radio_okI:
  "radio_view (Some on) (Some on) m level s \<Longrightarrow> on = (level = TXING_REDCON_ON) \<Longrightarrow>
   (level = TXING_REDCON_ON \<longrightarrow> m = Some True) \<Longrightarrow> radio_ok s"
  by (simp add: radio_view_def radio_ok_def)

lemma view_keeps_radio:
  fixes m' :: "(('w, 'x) thread_base_scheme, 'a) state"
  assumes "\<And>p l m level. keeps (radio_view p l m level) m'"
  shows "keeps radio_ok m'"
  unfolding keeps_def
proof (intro allI impI)
  fix s :: "('w, 'x) thread_base_scheme"
  assume s: "radio_ok s"
  have "radio_view (pin_level PowerPin (calls s)) (pin_level Led (calls s)) (link_mode (calls s))
      (redcon_level s) s" by (simp add: radio_view_def)
  from keepsD [OF assms this] show "wp m' (\<lambda>_. radio_ok) s"
    by (rule wp_mono) (use s in \<open>simp add: radio_view_def radio_ok_def\<close>)
qed

text \<open>At the level off every mode change is allowed.\<close>

definition radio_off :: "('w, 'x) thread_base_scheme \<Rightarrow> bool" where
  "radio_off s \<longleftrightarrow> radio_ok s \<and> redcon_level s = TXING_REDCON_OFF"

lemma view_off:
  fixes m' :: "(('w, 'x) thread_base_scheme, 'a) state"
  assumes "\<And>p l m level. keeps (radio_view p l m level) m'"
  shows "keeps radio_off m'"
  unfolding keeps_def
proof (intro allI impI)
  fix s :: "('w, 'x) thread_base_scheme"
  assume s: "radio_off s"
  have "radio_view (pin_level PowerPin (calls s)) (pin_level Led (calls s)) (link_mode (calls s))
      (redcon_level s) s" by (simp add: radio_view_def)
  from keepsD [OF assms this] show "wp m' (\<lambda>_. radio_off) s"
    by (rule wp_mono) (use s in \<open>simp add: radio_view_def radio_ok_def radio_off_def\<close>)
qed

lemma off_sys:
  assumes "\<not> radio_call c"
  shows "keeps radio_off (sys k c)" "keeps radio_off (sys_code k c)" "keeps radio_off (sys_ok k c)"
  using assms by (auto intro!: view_off view_sys)

lemma off_modify:
  "(\<And>s. calls (f s) = calls s \<and> redcon_level (f s) = redcon_level s) \<Longrightarrow> keeps radio_off (modify f)"
  by (intro view_off view_modify)

lemma off_radio: "keeps radio_off m \<Longrightarrow> radio_ok s \<Longrightarrow> redcon_level s = TXING_REDCON_OFF \<Longrightarrow>
    wp m (\<lambda>_. radio_ok) s"
  by (rule wp_mono [OF keepsD [where I = radio_off]]) (auto simp: radio_off_def)

section \<open>Response messages and names\<close>

text \<open>No response message is lost, and the loaded name stays, whatever happens.\<close>

definition tidy :: "int \<Rightarrow> nat \<Rightarrow> ('w, 'x) thread_base_scheme \<Rightarrow> bool" where
  "tidy k n s \<longleftrightarrow> held_messages (calls s) = k \<and> length (thing_name s) \<le> n"

lemma tidy_sys:
  assumes "\<And>r. message_weight (c, r) = 0"
  shows "keeps (tidy k n) (sys K c)" "keeps (tidy k n) (sys_code K c)" "keeps (tidy k n) (sys_ok K c)"
    "keeps (tidy k n) (sys_void K c)"
  using assms by (simp_all add: keeps_def fw_simps tidy_def)

lemma tidy_work: "keeps (tidy k n) (work_schedule K w ms)" "keeps (tidy k n) (work_cancel K w)"
  "keeps (tidy k n) (work_submit K w)"
  by (simp_all add: keeps_def fw_simps work_schedule_def work_cancel_def work_submit_def tidy_def)

lemma tidy_modify:
  "(\<And>s. calls (f s) = calls s \<and> thing_name (f s) = thing_name s) \<Longrightarrow> keeps (tidy k n) (modify f)"
  by (simp add: keeps_def fw_simps tidy_def)

end
