(* ===== verification/ThreadDevice.thy ===== *)
theory ThreadDevice
  imports ThreadBase
begin

text \<open>
  Model of \<^verbatim>\<open>src/devices/common/mcu/xiao_nrf54lm20a/src/thread_device.c\<close>: the Thread firmware of the
  nRF54LM20A devices (power-nrf and tbot).  The static variables are the record \<open>lm_state\<close>; the build
  configuration, the JSON parser and the CRC of Zephyr and the kernel are the record \<open>lm_env\<close>.
  Functions keep their C names.
\<close>

section \<open>State and environment\<close>

datatype lm_work = SedTransitionWork | RedconSleepWork | RecoveryWork

record lm_state = "lm_work thread_base" +
  receiver_on_when_idle :: bool
  recovery_pending :: bool
  recovery_attempts :: int
  redcon_sleep_pending :: bool

text \<open>
  \<open>json_obj_parse\<close> returns the bit mask of the fields found, the version and the level;
  \<open>sed_recovery\<close> and \<open>receiver_on_diagnostics\<close> are the two exclusive build options.
\<close>

record lm_env =
  kernel :: "lm_work kernel"
  json_obj_parse :: "bytes \<Rightarrow> int \<times> int \<times> int"
  crc32_ieee :: "bytes \<Rightarrow> u32"
  has_factory_partition :: bool
  has_pmic_charger :: bool
  sed_recovery :: bool
  receiver_on_diagnostics :: bool
  default_thing_name :: bytes

type_synonym 'a lm = "(lm_state, 'a) state"

definition initial_lm_state :: "lm_env \<Rightarrow> lm_state" where
  "initial_lm_state E =
     \<lparr>calls = [], pending = {}, thing_name = default_thing_name E, dataset_tlvs = [],
      coap_port = TXING_COAP_DEFAULT_PORT, factory_valid = False, battery_available = False,
      redcon_level = TXING_REDCON_OFF, srp_instance_name = default_thing_name E,
      srp_port = TXING_COAP_DEFAULT_PORT, srp_host_address = replicate 16 0,
      srp_registration_accepted = False, sed_mode_active = False, receiver_on_when_idle = False,
      recovery_pending = False, recovery_attempts = 0, redcon_sleep_pending = False\<rparr>"

definition sed_recovery_delays_seconds :: "int list" where
  "sed_recovery_delays_seconds = [20, 40, 80, 160, 320, 600]"

definition TXN1_MAGIC :: bytes where "TXN1_MAGIC = [0x54, 0x58, 0x4e, 0x31]"
definition TXN1_HEADER_SIZE :: nat where "TXN1_HEADER_SIZE = 10"
definition TXN1_THING_NAME_SIZE :: nat where "TXN1_THING_NAME_SIZE = 64"
definition TXN1_DATASET_TLVS_SIZE :: nat where "TXN1_DATASET_TLVS_SIZE = 254"
definition SED_TRANSITION_DELAY_MS :: int where "SED_TRANSITION_DELAY_MS = 500"
definition SED_REDCON_RESPONSE_GRACE_MS :: int where "SED_REDCON_RESPONSE_GRACE_MS = 100"
definition SED_FALLBACK_GRACE_SECONDS :: int where "SED_FALLBACK_GRACE_SECONDS = 20"

lemmas txn1_constants = TXN1_MAGIC_def TXN1_HEADER_SIZE_def TXN1_THING_NAME_SIZE_def
  TXN1_DATASET_TLVS_SIZE_def

section \<open>Factory data\<close>

definition u16_le :: "bytes \<Rightarrow> nat \<Rightarrow> u16" where
  "u16_le v i = ucast (v ! i) OR push_bit 8 (ucast (v ! (i + 1)))"

definition u32_le :: "bytes \<Rightarrow> u32" where
  "u32_le v = ucast (v ! 0) OR push_bit 8 (ucast (v ! 1)) OR push_bit 16 (ucast (v ! 2)) OR
     push_bit 24 (ucast (v ! 3))"

definition thing_name_is_valid :: "bytes \<Rightarrow> bool" where
  "thing_name_is_valid name \<longleftrightarrow>
     \<not> (length name = 0 \<or> length name > TXN1_THING_NAME_SIZE) \<and>
     list_all (\<lambda>b. \<not> (b < 0x21 \<or> b > 0x7e)) name"

text \<open>The checks and reads between opening and closing the partition.\<close>

definition read_factory_record :: "lm_env \<Rightarrow> int lm" where
  "read_factory_record E = do {
     r \<leftarrow> sys (kernel E) (Bus (FlashRead 0 TXN1_HEADER_SIZE));
     let header = buffer TXN1_HEADER_SIZE (data r);
     if code r \<noteq> 0 then ret (code r)
     else if take 4 header \<noteq> TXN1_MAGIC \<or> header ! 4 \<noteq> 1 then ret (- EINVAL)
     else do {
       let name_len = unat (header ! 5);
       let dataset_len = unat (u16_le header 6);
       let port = u16_le header 8;
       if name_len = 0 \<or> name_len > TXN1_THING_NAME_SIZE \<or> dataset_len = 0 \<or>
          dataset_len > TXN1_DATASET_TLVS_SIZE \<or> port = 0
       then ret (- EINVAL)
       else do {
         r \<leftarrow> sys (kernel E) (Bus (FlashRead TXN1_HEADER_SIZE (name_len + dataset_len)));
         let body = buffer (name_len + dataset_len) (data r);
         if code r \<noteq> 0 then ret (code r)
         else if \<not> thing_name_is_valid (take name_len body) then ret (- EINVAL)
         else do {
           r \<leftarrow> sys (kernel E) (Bus (FlashRead (TXN1_HEADER_SIZE + name_len + dataset_len) 4));
           if code r \<noteq> 0 then ret (code r)
           else if crc32_ieee E (header @ body) \<noteq> u32_le (buffer 4 (data r)) then ret (- EINVAL)
           else do {
             modify (\<lambda>s. s\<lparr>thing_name := take name_len body, dataset_tlvs := drop name_len body,
               coap_port := port, factory_valid := True\<rparr>);
             ret 0 } } } } }"

definition load_factory_data :: "lm_env \<Rightarrow> int lm" where
  "load_factory_data E =
     (if \<not> has_factory_partition E then ret (- ENOENT)
      else do {
        rc \<leftarrow> sys_code (kernel E) (Bus FlashOpen);
        if rc \<noteq> 0 then ret rc
        else do {
          rc \<leftarrow> read_factory_record E;
          sys (kernel E) (Bus FlashClose);
          ret rc } })"

section \<open>Outputs and battery\<close>

definition set_outputs_for_redcon :: "lm_env \<Rightarrow> int \<Rightarrow> int lm" where
  "set_outputs_for_redcon E level = do {
     rc \<leftarrow> sys_code (kernel E) (Gpio (GpioSet PowerPin (level = TXING_REDCON_ON)));
     if rc \<noteq> 0 then ret rc
     else do {
       rc \<leftarrow> sys_code (kernel E) (Gpio (GpioSet Led (level = TXING_REDCON_ON)));
       if rc \<noteq> 0 then do {
         current \<leftarrow> gets redcon_level;
         sys (kernel E) (Gpio (GpioSet PowerPin (current = TXING_REDCON_ON)));
         ret rc }
       else do {
         modify (\<lambda>s. s\<lparr>redcon_level := level\<rparr>);
         ret 0 } } }"

definition init_outputs :: "lm_env \<Rightarrow> int lm" where
  "init_outputs E = do {
     power \<leftarrow> sys_ok (kernel E) (Driver (DeviceReady (PortOf PowerPin)));
     led \<leftarrow> (if power then sys_ok (kernel E) (Driver (DeviceReady (PortOf Led))) else ret False);
     if \<not> led then ret (- ENODEV)
     else do {
       rc \<leftarrow> sys_code (kernel E) (Gpio (GpioConfigureInactive PowerPin));
       if rc \<noteq> 0 then ret rc
       else do {
         rc \<leftarrow> sys_code (kernel E) (Gpio (GpioConfigureInactive Led));
         if rc \<noteq> 0 then ret rc
         else set_outputs_for_redcon E TXING_REDCON_OFF } } }"

definition init_battery :: "lm_env \<Rightarrow> int lm" where
  "init_battery E =
     (if \<not> has_pmic_charger E then ret (- ENODEV)
      else do {
        ready \<leftarrow> sys_ok (kernel E) (Driver (DeviceReady BatterySensor));
        if \<not> ready then ret (- ENODEV)
        else do { modify (\<lambda>s. s\<lparr>battery_available := True\<rparr>); ret 0 } })"

text \<open>The number that \<open>SensorGet\<close> writes is the voltage in the unit of \<^verbatim>\<open>sensor_value_to_milli\<close>.\<close>

definition sample_battery_mv :: "lm_env \<Rightarrow> u16 option lm" where
  "sample_battery_mv E = do {
     available \<leftarrow> gets battery_available;
     if \<not> has_pmic_charger E \<or> \<not> available then ret None
     else do {
       rc \<leftarrow> sys_code (kernel E) (Driver SensorFetch);
       if rc \<noteq> 0 then ret None
       else do {
         r \<leftarrow> sys (kernel E) (Driver SensorGet);
         ret (if code r \<noteq> 0 \<or> out r < 0 \<or> out r > 65535 then None
              else Some (word_of_int (out r))) } } }"

definition format_state :: "lm_env \<Rightarrow> bytes lm" where
  "format_state E = do {
     battery \<leftarrow> sample_battery_mv E;
     name \<leftarrow> gets thing_name;
     level \<leftarrow> gets redcon_level;
     ret (state_json name level battery) }"

section \<open>CoAP\<close>

definition response_type :: "lm_env \<Rightarrow> int lm" where
  "response_type E = do {
     t \<leftarrow> sys_code (kernel E) (Coap MessageType);
     ret (if t = OT_COAP_TYPE_CONFIRMABLE then OT_COAP_TYPE_ACKNOWLEDGMENT
          else OT_COAP_TYPE_NON_CONFIRMABLE) }"

definition append_payload :: "lm_env \<Rightarrow> bytes option \<Rightarrow> int lm" where
  "append_payload E payload =
     (case payload of None \<Rightarrow> ret OT_ERROR_NONE
      | Some text \<Rightarrow> do {
          error \<leftarrow> sys_code (kernel E) (Coap AppendContentFormat);
          if error \<noteq> OT_ERROR_NONE then ret error
          else do {
            error \<leftarrow> sys_code (kernel E) (Coap SetPayloadMarker);
            if error \<noteq> OT_ERROR_NONE then ret error
            else sys_code (kernel E) (Coap (MessageAppend text)) } })"

definition send_response :: "lm_env \<Rightarrow> int \<Rightarrow> bytes option \<Rightarrow> unit lm" where
  "send_response E coap_code payload = do {
     ot \<leftarrow> sys_ok (kernel E) (Ot OtInstance);
     if \<not> ot then ret ()
     else do {
       response \<leftarrow> sys_ok (kernel E) (Coap NewMessage);
       if \<not> response then ret ()
       else do {
         t \<leftarrow> response_type E;
         error \<leftarrow> sys_code (kernel E) (Coap (InitResponse t coap_code));
         error \<leftarrow> (if error \<noteq> OT_ERROR_NONE then ret error else append_payload E payload);
         error \<leftarrow> (if error \<noteq> OT_ERROR_NONE then ret error
                   else sys_code (kernel E) (Coap SendResponse));
         doif (error \<noteq> OT_ERROR_NONE) (sys_void (kernel E) (Coap MessageFree)) } } }"

definition send_state_response :: "lm_env \<Rightarrow> int \<Rightarrow> unit lm" where
  "send_state_response E coap_code = do {
     json \<leftarrow> format_state E;
     if length json \<ge> STATE_JSON_SIZE then send_response E OT_COAP_CODE_INTERNAL_ERROR None
     else send_response E coap_code (Some json) }"

definition parse_redcon_request :: "lm_env \<Rightarrow> (int \<times> int) option lm" where
  "parse_redcon_request E = do {
     o1 \<leftarrow> sys (kernel E) (Coap MessageOffset);
     l1 \<leftarrow> sys (kernel E) (Coap MessageLength);
     let offset = (word_of_int (out o1) :: u16);
     let len = (word_of_int (out l1) :: u16) - offset;
     if len = 0 \<or> unat len \<ge> REQUEST_JSON_SIZE then ret None
     else do {
       r \<leftarrow> sys (kernel E) (Coap (MessageRead (unat offset) (unat len)));
       if code r \<noteq> int (unat len) then ret None
       else case json_obj_parse E (buffer (unat len) (data r)) of
              (found, version, redcon) \<Rightarrow> ret (if found = 3 then Some (version, redcon) else None) } }"

section \<open>Thread mode\<close>

definition configure_thread_mode_locked :: "lm_env \<Rightarrow> bool \<Rightarrow> int lm" where
  "configure_thread_mode_locked E receiver_on = do {
     sys (kernel E) (Ot OtGetRxOnWhenIdle);
     error \<leftarrow> sys_code (kernel E) (Ot (OtSetLinkMode receiver_on));
     if error \<noteq> OT_ERROR_NONE then ret (- EIO)
     else do {
       error \<leftarrow> sys_code (kernel E) (Ot OtSetPollPeriod);
       if error \<noteq> OT_ERROR_NONE then ret (- EIO)
       else do {
         modify (\<lambda>s. s\<lparr>receiver_on_when_idle := receiver_on\<rparr>);
         ret 0 } } }"

definition restart_thread_mode_locked :: "lm_env \<Rightarrow> bool \<Rightarrow> int lm" where
  "restart_thread_mode_locked E receiver_on = do {
     error \<leftarrow> sys_code (kernel E) (Ot (OtSetEnabled False));
     if error \<noteq> OT_ERROR_NONE \<and> error \<noteq> OT_ERROR_INVALID_STATE then ret (- EIO)
     else do {
       rc \<leftarrow> configure_thread_mode_locked E receiver_on;
       if rc \<noteq> 0 then ret rc
       else do {
         error \<leftarrow> sys_code (kernel E) (Ot (OtSetEnabled True));
         ret (if error = OT_ERROR_NONE then 0 else - EIO) } } }"

definition recovery_delay_seconds :: "lm_env \<Rightarrow> int lm" where
  "recovery_delay_seconds E =
     (if sed_recovery E then do {
        attempts \<leftarrow> gets recovery_attempts;
        let index = (if attempts > 0 then nat attempts else 0);
        let index = (if index \<ge> length sed_recovery_delays_seconds
                     then length sed_recovery_delays_seconds - 1 else index);
        ret (sed_recovery_delays_seconds ! index) }
      else ret SED_FALLBACK_GRACE_SECONDS)"

definition record_recovery_attempt :: "unit lm" where
  "record_recovery_attempt = do {
     attempts \<leftarrow> gets recovery_attempts;
     doif (attempts < int (length sed_recovery_delays_seconds) - 1)
       (modify (\<lambda>s. s\<lparr>recovery_attempts := recovery_attempts s + 1\<rparr>)) }"

definition schedule_recovery :: "lm_env \<Rightarrow> unit lm" where
  "schedule_recovery E = do {
     active \<leftarrow> gets sed_mode_active;
     level \<leftarrow> gets redcon_level;
     already \<leftarrow> gets recovery_pending;
     if \<not> active \<or> level \<noteq> TXING_REDCON_OFF \<or> already then ret ()
     else do {
       modify (\<lambda>s. s\<lparr>recovery_pending := True\<rparr>);
       delay \<leftarrow> recovery_delay_seconds E;
       work_schedule (kernel E) RecoveryWork (delay * 1000) } }"

section \<open>Handlers\<close>

text \<open>\<^verbatim>\<open>redcon_handler\<close> once the outputs have changed: the two levels, and the request as a whole.\<close>

definition disarm_work :: "lm_env \<Rightarrow> unit lm" where
  "disarm_work E = do {
     work_cancel (kernel E) SedTransitionWork;
     modify (\<lambda>s. s\<lparr>redcon_sleep_pending := False\<rparr>);
     work_cancel (kernel E) RedconSleepWork;
     modify (\<lambda>s. s\<lparr>recovery_pending := False\<rparr>);
     work_cancel (kernel E) RecoveryWork }"

definition enter_redcon_on :: "lm_env \<Rightarrow> int \<Rightarrow> unit lm" where
  "enter_redcon_on E previous_redcon = do {
     disarm_work E;
     ot \<leftarrow> sys_ok (kernel E) (Ot OtInstance);
     rc \<leftarrow> (if ot then configure_thread_mode_locked E True else ret (- 1));
     if rc \<noteq> 0 then do {
       set_outputs_for_redcon E previous_redcon;
       send_response E OT_COAP_CODE_INTERNAL_ERROR None }
     else send_state_response E OT_COAP_CODE_CHANGED }"

definition enter_redcon_off :: "lm_env \<Rightarrow> unit lm" where
  "enter_redcon_off E = do {
     modify (\<lambda>s. s\<lparr>redcon_sleep_pending := True\<rparr>);
     send_state_response E OT_COAP_CODE_CHANGED;
     work_schedule (kernel E) RedconSleepWork SED_REDCON_RESPONSE_GRACE_MS }"

definition apply_redcon :: "lm_env \<Rightarrow> int \<Rightarrow> unit lm" where
  "apply_redcon E redcon = do {
     previous_redcon \<leftarrow> gets redcon_level;
     rc \<leftarrow> set_outputs_for_redcon E redcon;
     if rc \<noteq> 0 then send_response E OT_COAP_CODE_INTERNAL_ERROR None
     else if redcon = TXING_REDCON_ON then enter_redcon_on E previous_redcon
     else enter_redcon_off E }"

definition redcon_handler :: "lm_env \<Rightarrow> unit lm" where
  "redcon_handler E = do {
     method \<leftarrow> sys_code (kernel E) (Coap MessageCode);
     if method \<noteq> OT_COAP_CODE_PUT then send_response E OT_COAP_CODE_METHOD_NOT_ALLOWED None
     else do {
       request \<leftarrow> parse_redcon_request E;
       case request of None \<Rightarrow> send_response E OT_COAP_CODE_BAD_REQUEST None
       | Some (version, redcon) \<Rightarrow>
         if version \<noteq> TXING_PROTOCOL_VERSION \<or> redcon \<noteq> TXING_REDCON_ON \<and> redcon \<noteq> TXING_REDCON_OFF
         then send_response E OT_COAP_CODE_BAD_REQUEST None
         else apply_redcon E redcon } }"

definition state_handler :: "lm_env \<Rightarrow> unit lm" where
  "state_handler E = do {
     method \<leftarrow> sys_code (kernel E) (Coap MessageCode);
     if method \<noteq> OT_COAP_CODE_GET then send_response E OT_COAP_CODE_METHOD_NOT_ALLOWED None
     else send_state_response E OT_COAP_CODE_CONTENT }"

definition srp_client_callback :: "lm_env \<Rightarrow> int \<Rightarrow> unit lm" where
  "srp_client_callback E error =
     (if error \<noteq> OT_ERROR_NONE then do {
        modify (\<lambda>s. s\<lparr>srp_registration_accepted := False\<rparr>);
        schedule_recovery E }
      else do {
        modify (\<lambda>s. s\<lparr>srp_registration_accepted := True\<rparr>);
        modify (\<lambda>s. s\<lparr>recovery_attempts := 0\<rparr>);
        modify (\<lambda>s. s\<lparr>recovery_pending := False\<rparr>);
        work_cancel (kernel E) RecoveryWork;
        level \<leftarrow> gets redcon_level;
        active \<leftarrow> gets sed_mode_active;
        doif (level = TXING_REDCON_OFF \<and> \<not> active)
          (work_schedule (kernel E) SedTransitionWork SED_TRANSITION_DELAY_MS) })"

definition sed_transition_work_handler :: "lm_env \<Rightarrow> unit lm" where
  "sed_transition_work_handler E = do {
     accepted \<leftarrow> gets srp_registration_accepted;
     level \<leftarrow> gets redcon_level;
     active \<leftarrow> gets sed_mode_active;
     if \<not> accepted \<or> level \<noteq> TXING_REDCON_OFF \<or> active then ret ()
     else do {
       ot \<leftarrow> sys_ok (kernel E) (Ot OtInstance);
       if \<not> ot then work_schedule (kernel E) SedTransitionWork 1000
       else do {
         role \<leftarrow> sys_code (kernel E) (Ot OtDeviceRole);
         rc \<leftarrow> (if role = OT_DEVICE_ROLE_CHILD then configure_thread_mode_locked E False
                else ret (- EAGAIN));
         if rc \<noteq> 0 then work_schedule (kernel E) SedTransitionWork 1000
         else do {
           modify (\<lambda>s. s\<lparr>sed_mode_active := True\<rparr>);
           schedule_recovery E } } } }"

definition redcon_sleep_work_handler :: "lm_env \<Rightarrow> unit lm" where
  "redcon_sleep_work_handler E = do {
     requested \<leftarrow> gets redcon_sleep_pending;
     if \<not> requested then ret ()
     else do {
       modify (\<lambda>s. s\<lparr>redcon_sleep_pending := False\<rparr>);
       ot \<leftarrow> sys_ok (kernel E) (Ot OtInstance);
       if \<not> ot then ret ()
       else do {
         rc \<leftarrow> configure_thread_mode_locked E False;
         doif (rc = 0) (do {
           modify (\<lambda>s. s\<lparr>sed_mode_active := True\<rparr>);
           schedule_recovery E }) } } }"

text \<open>The restart that the build options select.\<close>

definition recover_thread :: "lm_env \<Rightarrow> int lm" where
  "recover_thread E =
     (if sed_recovery E then do { record_recovery_attempt; restart_thread_mode_locked E False }
      else if receiver_on_diagnostics E then restart_thread_mode_locked E True
      else ret (- EOPNOTSUPP))"

definition recovery_work_handler :: "lm_env \<Rightarrow> unit lm" where
  "recovery_work_handler E = do {
     modify (\<lambda>s. s\<lparr>recovery_pending := False\<rparr>);
     active \<leftarrow> gets sed_mode_active;
     if \<not> active then ret ()
     else do {
       ot \<leftarrow> sys_ok (kernel E) (Ot OtInstance);
       if \<not> ot then schedule_recovery E
       else do {
         role \<leftarrow> sys_code (kernel E) (Ot OtDeviceRole);
         rx_on \<leftarrow> sys_ok (kernel E) (Ot OtGetRxOnWhenIdle);
         expected_receiver_on \<leftarrow> gets receiver_on_when_idle;
         level \<leftarrow> gets redcon_level;
         accepted \<leftarrow> gets srp_registration_accepted;
         if level \<noteq> TXING_REDCON_OFF \<or> expected_receiver_on then ret ()
         else if role = OT_DEVICE_ROLE_CHILD \<and> rx_on = expected_receiver_on \<and> accepted then ret ()
         else do {
           modify (\<lambda>s. s\<lparr>srp_registration_accepted := False\<rparr>);
           rc \<leftarrow> recover_thread E;
           doif (rc \<noteq> 0 \<or> sed_recovery E) (schedule_recovery E) } } } }"

definition thread_state_changed :: "lm_env \<Rightarrow> unit lm" where
  "thread_state_changed E = do {
     active \<leftarrow> gets sed_mode_active;
     doif active (schedule_recovery E) }"

section \<open>Startup\<close>

definition start_coap :: "lm_env \<Rightarrow> int lm" where
  "start_coap E = do {
     port \<leftarrow> gets coap_port;
     error \<leftarrow> sys_code (kernel E) (Ot (OtCoapStart port));
     doif (error = OT_ERROR_NONE) (do {
       sys (kernel E) (Ot (OtCoapAddResource ''txing/v1/state''));
       sys_void (kernel E) (Ot (OtCoapAddResource ''txing/v1/redcon'')) });
     ret (if error \<noteq> OT_ERROR_NONE then - EIO else 0) }"

definition set_srp_host_address :: "lm_env \<Rightarrow> int lm" where
  "set_srp_host_address E = do {
     r \<leftarrow> sys (kernel E) (Ot OtMeshLocalEid);
     if code r = 0 then ret OT_ERROR_INVALID_STATE
     else do {
       modify (\<lambda>s. s\<lparr>srp_host_address := buffer 16 (data r)\<rparr>);
       sys_code (kernel E) (Ot (OtSrpSetHostAddress (buffer 16 (data r)))) } }"

definition start_srp :: "lm_env \<Rightarrow> int lm" where
  "start_srp E = do {
     modify (\<lambda>s. s\<lparr>srp_instance_name := thing_name s, srp_port := coap_port s\<rparr>);
     sys (kernel E) (Ot OtSrpSetCallback);
     name \<leftarrow> gets thing_name;
     port \<leftarrow> gets srp_port;
     error \<leftarrow> sys_code (kernel E) (Ot (OtSrpSetHostName name));
     error \<leftarrow> (if error = OT_ERROR_NONE then set_srp_host_address E else ret error);
     error \<leftarrow> (if error = OT_ERROR_NONE then sys_code (kernel E) (Ot (OtSrpAddService name port))
               else ret error);
     doif (error = OT_ERROR_NONE \<or> error = OT_ERROR_ALREADY)
       (sys_void (kernel E) (Ot OtSrpEnableAutoStart));
     ret (if error \<noteq> OT_ERROR_NONE \<and> error \<noteq> OT_ERROR_ALREADY then - EIO else 0) }"

definition start_thread :: "lm_env \<Rightarrow> int lm" where
  "start_thread E = do {
     valid \<leftarrow> gets factory_valid;
     if \<not> valid then ret (- EINVAL)
     else do {
       tlvs \<leftarrow> gets dataset_tlvs;
       error \<leftarrow> sys_code (kernel E) (Ot (OtDatasetSetActive tlvs));
       error \<leftarrow> (if error = OT_ERROR_NONE then do {
           rc \<leftarrow> configure_thread_mode_locked E True;
           ret (if rc = 0 then OT_ERROR_NONE else OT_ERROR_FAILED) }
         else ret error);
       error \<leftarrow> (if error = OT_ERROR_NONE then sys_code (kernel E) (Ot OtIp6SetEnabled) else ret error);
       error \<leftarrow> (if error = OT_ERROR_NONE then sys_code (kernel E) (Ot (OtSetEnabled True)) else ret error);
       if error \<noteq> OT_ERROR_NONE then ret (- EIO)
       else do {
         modify (\<lambda>s. s\<lparr>srp_registration_accepted := False, sed_mode_active := False\<rparr>);
         ret 0 } } }"

text \<open>\<open>None\<close> stands for the endless loop at the end of \<^verbatim>\<open>main\<close>.\<close>

definition start_services :: "lm_env \<Rightarrow> int option lm" where
  "start_services E = do {
     rc \<leftarrow> start_thread E;
     if rc \<noteq> 0 then ret (Some (- EIO))
     else do {
       rc \<leftarrow> start_coap E;
       if rc \<noteq> 0 then ret (Some (- EIO))
       else do {
         rc \<leftarrow> start_srp E;
         ret (if rc \<noteq> 0 then Some (- EIO) else None) } } }"

definition lm_main :: "lm_env \<Rightarrow> int option lm" where
  "lm_main E = do {
     rc \<leftarrow> init_outputs E;
     if rc \<noteq> 0 then ret (Some rc)
     else do {
       rc \<leftarrow> load_factory_data E;
       if rc \<noteq> 0 then ret (Some rc)
       else do {
         init_battery E;
         ot \<leftarrow> sys_ok (kernel E) (Ot OtInstance);
         if \<not> ot then ret (Some (- ENODEV))
         else do {
           sys (kernel E) (Ot OtRegisterStateCallback);
           start_services E } } } }"

section \<open>Events\<close>

datatype lm_event = CoapRedcon | CoapState | SrpCallback int | SrpAutostart | StateChanged | RunWork lm_work

definition work_handler :: "lm_env \<Rightarrow> lm_work \<Rightarrow> unit lm" where
  "work_handler E w =
     (case w of
        SedTransitionWork \<Rightarrow> sed_transition_work_handler E
      | RedconSleepWork \<Rightarrow> redcon_sleep_work_handler E
      | RecoveryWork \<Rightarrow> recovery_work_handler E)"

fun lm_handler :: "lm_env \<Rightarrow> lm_event \<Rightarrow> unit lm" where
  "lm_handler E CoapRedcon = redcon_handler E"
| "lm_handler E CoapState = state_handler E"
| "lm_handler E (SrpCallback error) = srp_client_callback E error"
| "lm_handler E SrpAutostart = ret ()"
| "lm_handler E StateChanged = thread_state_changed E"
| "lm_handler E (RunWork w) = work_handler E w"

inductive lm_step :: "lm_env \<Rightarrow> lm_state \<Rightarrow> lm_event \<Rightarrow> lm_state \<Rightarrow> bool" for E where
  callback: "\<forall>w. ev \<noteq> RunWork w \<Longrightarrow> run_state (lm_handler E ev) s = ((), t) \<Longrightarrow> lm_step E s ev t"
| work: "w \<in> pending s \<Longrightarrow>
     run_state (lm_handler E (RunWork w)) (s\<lparr>pending := pending s - {w}\<rparr>) = ((), t) \<Longrightarrow>
     lm_step E s (RunWork w) t"

lemma lm_log_call [simp]:
  "receiver_on_when_idle (log_call c r s) = receiver_on_when_idle s"
  "recovery_pending (log_call c r s) = recovery_pending s"
  "recovery_attempts (log_call c r s) = recovery_attempts s"
  "redcon_sleep_pending (log_call c r s) = redcon_sleep_pending s"
  by (simp_all add: log_call_def)

section \<open>Quiet computations\<close>

lemma quiet_response [calls_rules]:
  "only_calls quiet_call (response_type E)" "only_calls quiet_call (append_payload E payload)"
  unfolding response_type_def append_payload_def by (intro calls_rules only_calls_calls; simp)+

lemma quiet_send [calls_rules]: "only_calls quiet_call (send_response E cc payload)"
  unfolding send_response_def by (intro calls_rules only_calls_calls; simp)

lemma quiet_send_state [calls_rules]: "only_calls quiet_call (send_state_response E cc)"
  unfolding send_state_response_def format_state_def sample_battery_mv_def
  by (intro calls_rules only_calls_calls; simp)

lemma quiet_parse [calls_rules]: "only_calls quiet_call (parse_redcon_request E)"
  unfolding parse_redcon_request_def Let_def by (intro calls_rules only_calls_calls; simp)

section \<open>Invariants\<close>

text \<open>The variables: what every build and every behaviour of the kernel keeps.\<close>

definition lm_ok :: "lm_state \<Rightarrow> bool" where
  "lm_ok s \<longleftrightarrow>
     (redcon_level s = TXING_REDCON_ON \<or> redcon_level s = TXING_REDCON_OFF) \<and>
     (recovery_pending s \<longleftrightarrow> RecoveryWork \<in> pending s) \<and>
     0 \<le> recovery_attempts s \<and> recovery_attempts s < int (length sed_recovery_delays_seconds) \<and>
     (redcon_sleep_pending s \<longrightarrow> redcon_level s = TXING_REDCON_OFF)"

text \<open>The recovery, when OpenThread accepts mode changes.\<close>

definition armed :: "lm_state \<Rightarrow> bool" where
  "armed s \<longleftrightarrow>
     (redcon_level s = TXING_REDCON_ON \<longrightarrow> receiver_on_when_idle s) \<and>
     (sed_mode_active s \<and> redcon_level s = TXING_REDCON_OFF \<and> \<not> srp_registration_accepted s \<and>
        \<not> receiver_on_when_idle s \<longrightarrow> RecoveryWork \<in> pending s)"

lemma quiet_keeps:
  assumes "only_calls quiet_call m"
  shows "keeps lm_ok m" "keeps radio_ok m" "keeps armed m"
  by (rule only_calls_keeps [OF assms], simp add: lm_ok_def radio_ok_def armed_def quiet_views)+

lemmas quiet_ok = quiet_keeps(1) [OF quiet_send] quiet_keeps(1) [OF quiet_send_state]
  quiet_keeps(1) [OF quiet_parse]
lemmas quiet_radio = quiet_keeps(2) [OF quiet_send] quiet_keeps(2) [OF quiet_send_state]
  quiet_keeps(2) [OF quiet_parse]
lemmas quiet_armed = quiet_keeps(3) [OF quiet_send] quiet_keeps(3) [OF quiet_send_state]
  quiet_keeps(3) [OF quiet_parse]

lemma state_handler_keeps:
  "keeps lm_ok (state_handler E)" "keeps radio_ok (state_handler E)" "keeps armed (state_handler E)"
  unfolding state_handler_def
  by (intro quiet_keeps calls_rules only_calls_calls; simp)+

lemmas lm_work = work_schedule_def work_cancel_def

lemma recovery_delay_wp [fw_simps]:
  "wp (recovery_delay_seconds E) Q s =
     Q (if sed_recovery E then sed_recovery_delays_seconds ! min (nat (recovery_attempts s)) 5
        else SED_FALLBACK_GRACE_SECONDS) s"
proof -
  have "(if (if recovery_attempts s > 0 then nat (recovery_attempts s) else 0) \<ge> 6 then 5
      else if recovery_attempts s > 0 then nat (recovery_attempts s) else 0) =
      min (nat (recovery_attempts s)) 5" by auto
  then show ?thesis
    by (simp add: recovery_delay_seconds_def fw_simps sed_recovery_delays_seconds_def Let_def)
qed

lemma schedule_recovery_wp [fw_simps]:
  "wp (schedule_recovery E) Q s =
     (if \<not> sed_mode_active s \<or> redcon_level s \<noteq> TXING_REDCON_OFF \<or> recovery_pending s then Q () s
      else wp (work_schedule (kernel E) RecoveryWork
        ((if sed_recovery E then sed_recovery_delays_seconds ! min (nat (recovery_attempts s)) 5
          else SED_FALLBACK_GRACE_SECONDS) * 1000)) Q (s\<lparr>recovery_pending := True\<rparr>))"
  by (simp add: schedule_recovery_def fw_simps)

lemma schedule_recovery_ok: "keeps lm_ok (schedule_recovery E)"
  by (auto simp: keeps_def fw_simps lm_work lm_ok_def)

lemma configure_ok: "keeps lm_ok (configure_thread_mode_locked E on)"
  by (auto simp: keeps_def configure_thread_mode_locked_def fw_simps lm_ok_def)

text \<open>Setting the outputs: the level changes exactly when both pins do.\<close>

lemma set_outputs_cases:
  "wp (set_outputs_for_redcon E level) (\<lambda>rc t. \<exists>cs. t = s\<lparr>calls := calls s @ cs,
     redcon_level := (if rc = 0 then level else redcon_level s)\<rparr> \<and> link_mode (calls t) = link_mode (calls s)) s"
  by (auto simp: set_outputs_for_redcon_def fw_simps log_call_def)

lemma redcon_handler_keeps:
  assumes "\<And>redcon. redcon = TXING_REDCON_ON \<or> redcon = TXING_REDCON_OFF \<Longrightarrow> keeps I (apply_redcon E redcon)"
    and "\<And>m :: unit lm. only_calls quiet_call m \<Longrightarrow> keeps I m"
    and "\<And>m :: int lm. only_calls quiet_call m \<Longrightarrow> keeps I m"
    and "\<And>m :: (int \<times> int) option lm. only_calls quiet_call m \<Longrightarrow> keeps I m"
  shows "keeps I (redcon_handler E)"
proof -
  have req: "keeps I (if version \<noteq> TXING_PROTOCOL_VERSION \<or> redcon \<noteq> TXING_REDCON_ON \<and> redcon \<noteq> TXING_REDCON_OFF
         then send_response E OT_COAP_CODE_BAD_REQUEST None else apply_redcon E redcon)" for version redcon
    using assms(1) [of redcon] assms(2) [OF quiet_send] by simp
  have mcode: "keeps I (sys_code (kernel E) (Coap MessageCode))"
    by (rule assms(3)) (simp add: only_calls_calls)
  show ?thesis
    unfolding redcon_handler_def
    by (rule keeps_bind [OF mcode], rule keeps_if [OF assms(2) [OF quiet_send]],
        rule keeps_bind [OF assms(4) [OF quiet_parse]], rule keeps_option [OF assms(2) [OF quiet_send]],
        rule keeps_prod, rule req)
qed

definition awake :: "lm_state \<Rightarrow> bool" where
  "awake s \<longleftrightarrow> lm_ok s \<and> \<not> redcon_sleep_pending s"

lemma quiet_awake: "only_calls quiet_call m \<Longrightarrow> keeps awake m"
  by (erule only_calls_keeps) (simp add: awake_def lm_ok_def)

lemma sys_awake: "keeps awake (sys_ok k c)"
  by (simp add: keeps_def fw_simps awake_def lm_ok_def)

lemma configure_awake: "keeps awake (configure_thread_mode_locked E on)"
  by (auto simp: keeps_def configure_thread_mode_locked_def fw_simps lm_ok_def awake_def)

lemma outputs_awake:
  "level = TXING_REDCON_ON \<or> level = TXING_REDCON_OFF \<Longrightarrow> keeps awake (set_outputs_for_redcon E level)"
  by (auto simp: keeps_def set_outputs_for_redcon_def fw_simps lm_ok_def awake_def)

lemma disarm_awake: "lm_ok s \<or> lm_ok (s\<lparr>redcon_sleep_pending := False\<rparr>) \<Longrightarrow> wp (disarm_work E) (\<lambda>_. awake) s"
  by (auto simp: disarm_work_def fw_simps lm_work lm_ok_def awake_def)

lemma enter_redcon_ok:
  assumes "lm_ok (s\<lparr>redcon_sleep_pending := False\<rparr>)" "previous = TXING_REDCON_ON \<or> previous = TXING_REDCON_OFF"
  shows "wp (enter_redcon_on E previous) (\<lambda>_. lm_ok) s"
proof -
  have "keeps awake (do {
     ot \<leftarrow> sys_ok (kernel E) (Ot OtInstance);
     rc \<leftarrow> (if ot then configure_thread_mode_locked E True else ret (- 1));
     if rc \<noteq> 0 then do {
       set_outputs_for_redcon E previous;
       send_response E OT_COAP_CODE_INTERNAL_ERROR None }
     else send_state_response E OT_COAP_CODE_CHANGED })"
    by (intro keeps_bind keeps_if keeps_return sys_awake configure_awake outputs_awake [OF assms(2)]
        quiet_awake quiet_send quiet_send_state)
  note rest = keepsD [OF this]
  have "wp (enter_redcon_on E previous) (\<lambda>_. awake) s"
    unfolding enter_redcon_on_def
    by (rule wp_bindI [OF disarm_awake]) (simp add: assms(1), erule rest)
  then show ?thesis by (rule wp_mono) (simp add: awake_def)
qed

lemma apply_redcon_ok:
  assumes "redcon = TXING_REDCON_ON \<or> redcon = TXING_REDCON_OFF"
  shows "keeps lm_ok (apply_redcon E redcon)"
  unfolding keeps_def
proof (intro allI impI)
  fix s
  assume s: "lm_ok s"
  have rest: "wp (if rc \<noteq> 0 then send_response E OT_COAP_CODE_INTERNAL_ERROR None
     else if redcon = TXING_REDCON_ON then enter_redcon_on E (redcon_level s)
     else enter_redcon_off E) (\<lambda>_. lm_ok) t"
    if "\<exists>cs. t = s\<lparr>calls := calls s @ cs, redcon_level := (if rc = 0 then redcon else redcon_level s)\<rparr>"
    for rc t
  proof -
    have off: "keeps (\<lambda>s. lm_ok s \<and> redcon_level s = TXING_REDCON_OFF) (enter_redcon_off E)"
      unfolding enter_redcon_off_def
      by (intro keeps_bind keeps_modify only_calls_keeps [OF quiet_send_state])
        (auto simp: lm_ok_def keeps_def lm_work fw_simps)
    have "lm_ok t" if "rc \<noteq> 0" using \<open>\<exists>cs. _\<close> that s by (auto simp: lm_ok_def)
    moreover have "lm_ok (t\<lparr>redcon_sleep_pending := False\<rparr>)" if "rc = 0"
      using \<open>\<exists>cs. _\<close> that s assms by (auto simp: lm_ok_def)
    moreover have "lm_ok t \<and> redcon_level t = TXING_REDCON_OFF" if "rc = 0" "redcon \<noteq> TXING_REDCON_ON"
      using \<open>\<exists>cs. _\<close> that s assms by (auto simp: lm_ok_def)
    moreover have "redcon_level s = TXING_REDCON_ON \<or> redcon_level s = TXING_REDCON_OFF"
      using s by (simp add: lm_ok_def)
    ultimately show ?thesis
      by (auto intro: enter_redcon_ok keepsD [OF quiet_ok(1)] wp_mono [OF keepsD [OF off]])
  qed
  show "wp (apply_redcon E redcon) (\<lambda>_. lm_ok) s"
    unfolding apply_redcon_def
    by (subst wp_bind, subst wp_gets, rule wp_bindI [OF set_outputs_cases], rule rest) blast
qed

lemma sys_ok_keeps:
  "keeps lm_ok (sys k c)" "keeps lm_ok (sys_code k c)" "keeps lm_ok (sys_ok k c)" "keeps lm_ok (sys_void k c)"
  "w \<noteq> RecoveryWork \<Longrightarrow> keeps lm_ok (work_schedule k w ms)"
  by (auto simp: keeps_def fw_simps lm_work lm_ok_def)

lemma modify_ok:
  "keeps lm_ok (modify (\<lambda>s. s\<lparr>srp_registration_accepted := b\<rparr>))"
  "keeps lm_ok (modify (\<lambda>s. s\<lparr>sed_mode_active := b\<rparr>))"
  by (auto simp: keeps_def fw_simps lm_ok_def)

lemma record_attempt_ok: "keeps lm_ok record_recovery_attempt"
  by (auto simp: keeps_def record_recovery_attempt_def fw_simps lm_ok_def)

lemma restart_ok: "keeps lm_ok (restart_thread_mode_locked E on)"
  unfolding restart_thread_mode_locked_def
  by (intro keeps_bind keeps_if keeps_return sys_ok_keeps configure_ok)

lemmas lm_ok_rules = keeps_bind keeps_if keeps_doif keeps_return keeps_gets sys_ok_keeps modify_ok
  record_attempt_ok restart_ok configure_ok schedule_recovery_ok

lemma srp_callback_ok: "keeps lm_ok (srp_client_callback E error)"
proof -
  have registered: "keeps lm_ok (do { modify (\<lambda>s. s\<lparr>recovery_attempts := 0\<rparr>);
      modify (\<lambda>s. s\<lparr>recovery_pending := False\<rparr>); work_cancel (kernel E) RecoveryWork;
      level \<leftarrow> gets redcon_level; active \<leftarrow> gets sed_mode_active;
      doif (level = TXING_REDCON_OFF \<and> \<not> active)
        (work_schedule (kernel E) SedTransitionWork SED_TRANSITION_DELAY_MS) })"
    by (auto simp: keeps_def fw_simps lm_work lm_ok_def sed_recovery_delays_seconds_def)
  show ?thesis
    unfolding srp_client_callback_def
    by (rule keeps_if; rule keeps_bind [OF modify_ok(1)]) (rule schedule_recovery_ok registered)+
qed

lemma sed_transition_ok: "keeps lm_ok (sed_transition_work_handler E)"
  unfolding sed_transition_work_handler_def by (intro lm_ok_rules) simp_all

lemma sleep_handler_ok: "keeps lm_ok (redcon_sleep_work_handler E)"
proof -
  have "keeps lm_ok (modify (\<lambda>s. s\<lparr>redcon_sleep_pending := False\<rparr>))"
    by (simp add: keeps_def fw_simps lm_ok_def)
  then show ?thesis
    unfolding redcon_sleep_work_handler_def by (intro lm_ok_rules)
qed

lemma recovery_handler_ok:
  "lm_ok (s\<lparr>recovery_pending := False\<rparr>) \<Longrightarrow> wp (recovery_work_handler E) (\<lambda>_. lm_ok) s"
  unfolding recovery_work_handler_def recover_thread_def
  by (subst wp_bind, subst wp_modify, rule keepsD, intro lm_ok_rules) assumption

lemma state_changed_ok: "keeps lm_ok (thread_state_changed E)"
  unfolding thread_state_changed_def by (intro lm_ok_rules)

lemma lm_step_ok:
  assumes "lm_ok s" and "lm_step E s ev t"
  shows "lm_ok t"
  using assms(2)
proof cases
  case callback
  have "keeps lm_ok (redcon_handler E)"
    by (intro redcon_handler_keeps apply_redcon_ok quiet_keeps)
  with callback(1) have "keeps lm_ok (lm_handler E ev)"
    by (cases ev) (auto intro: state_handler_keeps srp_callback_ok state_changed_ok keeps_return)
  from keeps_run [OF this assms(1) callback(2)] show ?thesis .
next
  case (work w)
  show ?thesis
  proof (cases "w = RecoveryWork")
    case True
    have "lm_ok (s\<lparr>pending := pending s - {w}, recovery_pending := False\<rparr>)"
      using assms(1) True by (auto simp: lm_ok_def)
    from wpD [OF recovery_handler_ok [OF this]] work True show ?thesis
      by (simp add: work_handler_def)
  next
    case False
    then have "lm_ok (s\<lparr>pending := pending s - {w}\<rparr>)" using assms(1) by (auto simp: lm_ok_def)
    moreover have "keeps lm_ok (lm_handler E (RunWork w))"
      using False by (cases w) (simp_all add: work_handler_def sed_transition_ok sleep_handler_ok)
    ultimately show ?thesis using keeps_run [OF _ _ work(3)] by blast
  qed
qed

subsection \<open>Pins and radio\<close>

lemma view_schedule_recovery: "keeps (radio_view p l m level) (schedule_recovery E)"
  unfolding schedule_recovery_def recovery_delay_seconds_def Let_def by (intro view_rules) simp_all

lemma view_disarm: "keeps (radio_view p l m level) (disarm_work E)"
  unfolding disarm_work_def by (intro view_rules) simp_all

lemma configure_view:
  "radio_view p l m level s \<Longrightarrow>
   wp (configure_thread_mode_locked E on) (\<lambda>rc t.
     radio_view p l (Some on) level t \<or> rc \<noteq> 0 \<and> radio_view p l m level t) s"
  by (auto simp: configure_thread_mode_locked_def fw_simps radio_view_def ot_errors errno_defs)

lemma configure_radio:
  "radio_ok s \<Longrightarrow> (redcon_level s = TXING_REDCON_ON \<longrightarrow> on) \<Longrightarrow>
   wp (configure_thread_mode_locked E on) (\<lambda>_ t. radio_ok t \<and> redcon_level t = redcon_level s) s"
  by (auto simp: configure_thread_mode_locked_def fw_simps radio_ok_def ot_errors errno_defs)

lemma set_outputs_view:
  "gpio_works (kernel E) \<Longrightarrow> radio_view p l m level' s \<Longrightarrow>
   wp (set_outputs_for_redcon E level) (\<lambda>rc t. rc = 0 \<and>
     radio_view (Some (level = TXING_REDCON_ON)) (Some (level = TXING_REDCON_ON)) m level t) s"
  by (simp add: set_outputs_for_redcon_def fw_simps gpio_works_def radio_view_def)

lemma enter_on_radio:
  assumes works: "gpio_works (kernel E)"
    and s: "radio_view (Some True) (Some True) m TXING_REDCON_ON s"
    and m: "previous = TXING_REDCON_ON \<longrightarrow> m = Some True"
  shows "wp (enter_redcon_on E previous) (\<lambda>_. radio_ok) s"
proof -
  let ?on = "radio_view (Some True) (Some True)"
  have restore: "wp (do { set_outputs_for_redcon E previous;
      send_response E OT_COAP_CODE_INTERNAL_ERROR None }) (\<lambda>_. radio_ok) u"
    if "?on m' TXING_REDCON_ON u" "previous = TXING_REDCON_ON \<longrightarrow> m' = Some True" for m' u
    by (rule wp_bindI [OF set_outputs_view [OF works that(1)]], rule keepsD [OF quiet_keeps(2) [OF quiet_send]],
        erule conjE, erule radio_okI) (use that(2) in auto)
  have answer: "wp (send_state_response E OT_COAP_CODE_CHANGED) (\<lambda>_. radio_ok) u"
    if "?on (Some True) TXING_REDCON_ON u" for u
    by (rule keepsD [OF quiet_keeps(2) [OF quiet_send_state]], rule radio_okI [OF that]) simp_all
  have tail: "wp (if rc \<noteq> 0 then do { set_outputs_for_redcon E previous;
      send_response E OT_COAP_CODE_INTERNAL_ERROR None }
      else send_state_response E OT_COAP_CODE_CHANGED) (\<lambda>_. radio_ok) u"
    if "?on (Some True) TXING_REDCON_ON u \<or> rc \<noteq> 0 \<and> ?on m TXING_REDCON_ON u" for rc :: int and u
    using that m restore [of m u] restore [of "Some True" u] answer [of u] by auto
  have conf: "wp (if ot then configure_thread_mode_locked E True else ret (- 1))
      (\<lambda>rc u. ?on (Some True) TXING_REDCON_ON u \<or> rc \<noteq> 0 \<and> ?on m TXING_REDCON_ON u) t"
    if "?on m TXING_REDCON_ON t" for ot t
    using configure_view [OF that, of E True] that by (simp add: wp_return)
  show ?thesis
    unfolding enter_redcon_on_def
    by (rule wp_bindI [OF keepsD [OF view_disarm s]],
        rule wp_bindI [OF keepsD [OF view_sys(3)]], simp add: radio_call_def, assumption,
        rule wp_bindI [OF conf], assumption, erule tail)
qed

lemma apply_redcon_radio:
  assumes "gpio_works (kernel E)" "redcon = TXING_REDCON_ON \<or> redcon = TXING_REDCON_OFF"
  shows "keeps radio_ok (apply_redcon E redcon)"
  unfolding keeps_def
proof (intro allI impI)
  fix s :: lm_state
  assume s: "radio_ok s"
  let ?v = "radio_view (Some (redcon = TXING_REDCON_ON)) (Some (redcon = TXING_REDCON_ON)) (link_mode (calls s)) redcon"
  have off: "keeps (radio_view p l m level) (enter_redcon_off E)" for p l m level
    unfolding enter_redcon_off_def by (intro view_rules view_quiet quiet_send_state) simp_all
  have rest: "wp (if rc \<noteq> 0 then send_response E OT_COAP_CODE_INTERNAL_ERROR None
     else if redcon = TXING_REDCON_ON then enter_redcon_on E (redcon_level s)
     else enter_redcon_off E) (\<lambda>_. radio_ok) t" if "rc = 0 \<and> ?v t" for rc :: int and t
  proof (cases "redcon = TXING_REDCON_ON")
    case True
    with that s show ?thesis
      by (auto intro!: enter_on_radio [OF assms(1)] simp: radio_ok_def)
  next
    case False
    with that assms(2) have "?v t" "redcon = TXING_REDCON_OFF" by auto
    then have "radio_ok t" by (simp add: radio_view_def radio_ok_def redcon_levels)
    from keepsD [OF view_keeps_radio [OF off] this] that False show ?thesis by simp
  qed
  have "radio_view (pin_level PowerPin (calls s)) (pin_level Led (calls s)) (link_mode (calls s))
      (redcon_level s) s" by (simp add: radio_view_def)
  from set_outputs_view [OF assms(1) this]
  show "wp (apply_redcon E redcon) (\<lambda>_. radio_ok) s"
    unfolding apply_redcon_def by (subst wp_bind, subst wp_gets) (rule wp_bindI, assumption, rule rest)
qed

lemma configure_off: "keeps radio_off (configure_thread_mode_locked E on)"
  by (auto simp: keeps_def configure_thread_mode_locked_def fw_simps radio_off_def radio_ok_def
      redcon_levels)

lemmas off_rules = keeps_bind keeps_if keeps_doif keeps_return keeps_gets off_sys off_modify
  configure_off view_off [OF view_work(1)] view_off [OF view_schedule_recovery]

lemma off_handlers:
  "keeps radio_off (sed_transition_work_handler E)" "keeps radio_off (redcon_sleep_work_handler E)"
  "keeps radio_off (recovery_work_handler E)"
  unfolding sed_transition_work_handler_def redcon_sleep_work_handler_def recovery_work_handler_def
    recover_thread_def restart_thread_mode_locked_def record_recovery_attempt_def
  by (intro off_rules; simp add: radio_call_def)+

lemma work_handler_radio:
  assumes "radio_ok s" and "redcon_sleep_pending s \<longrightarrow> redcon_level s = TXING_REDCON_OFF"
  shows "wp (work_handler E w) (\<lambda>_. radio_ok) s"
proof (cases "redcon_level s = TXING_REDCON_OFF")
  case True
  with assms show ?thesis
    by (cases w) (auto simp: work_handler_def intro!: off_radio off_handlers)
next
  case False
  with assms show ?thesis
    by (cases w)
      (simp_all add: work_handler_def sed_transition_work_handler_def redcon_sleep_work_handler_def
        recovery_work_handler_def fw_simps radio_ok_def)
qed

lemma lm_step_radio:
  assumes "gpio_works (kernel E)" and "lm_ok s" "radio_ok s" and "lm_step E s ev t"
  shows "radio_ok t"
  using assms(4)
proof cases
  case callback
  have "keeps radio_ok (redcon_handler E)"
    by (intro redcon_handler_keeps apply_redcon_radio quiet_keeps assms)
  moreover have "keeps radio_ok (srp_client_callback E error)" for error
    unfolding srp_client_callback_def
    by (intro view_keeps_radio view_rules view_schedule_recovery) simp_all
  moreover have "keeps radio_ok (thread_state_changed E)"
    unfolding thread_state_changed_def by (intro view_keeps_radio view_rules view_schedule_recovery)
  ultimately have "keeps radio_ok (lm_handler E ev)"
    using callback(1) by (cases ev) (auto intro: state_handler_keeps keeps_return)
  from keeps_run [OF this assms(3) callback(2)] show ?thesis .
next
  case (work w)
  have "wp (work_handler E w) (\<lambda>_. radio_ok) (s\<lparr>pending := pending s - {w}\<rparr>)"
    using assms(2,3) by (intro work_handler_radio) (auto simp: radio_ok_def lm_ok_def)
  from wpD [OF this] work show ?thesis by simp
qed

subsection \<open>Recovery stays armed\<close>

definition ot_works :: "lm_work kernel \<Rightarrow> bool" where
  "ot_works k \<longleftrightarrow> (\<forall>cs. code (k cs (Ot OtInstance)) \<noteq> 0 \<and> code (k cs (Ot OtSetPollPeriod)) = 0 \<and>
     (\<forall>on. code (k cs (Ot (OtSetLinkMode on))) = 0))"

lemma configure_works:
  "ot_works (kernel E) \<Longrightarrow> wp (configure_thread_mode_locked E on)
     (\<lambda>rc t. rc = 0 \<and> (\<exists>cs. t = s\<lparr>calls := calls s @ cs, receiver_on_when_idle := on\<rparr>)) s"
  by (auto simp: configure_thread_mode_locked_def ot_works_def ot_errors fw_simps log_call_def)

lemma enter_on_armed:
  assumes "ot_works (kernel E)" and "redcon_level s = TXING_REDCON_ON"
  shows "wp (enter_redcon_on E previous) (\<lambda>_. armed) s"
proof -
  have disarm: "wp (disarm_work E) (\<lambda>_ t. redcon_level t = TXING_REDCON_ON) s"
    using assms(2) by (simp add: disarm_work_def fw_simps lm_work)
  have ot: "wp (sys_ok (kernel E) (Ot OtInstance)) (\<lambda>ot t. ot \<and> redcon_level t = TXING_REDCON_ON) t"
    if "redcon_level t = TXING_REDCON_ON" for t
    using assms(1) that by (simp add: ot_works_def fw_simps)
  have conf: "wp (if ot then configure_thread_mode_locked E True else ret (- 1))
      (\<lambda>rc u. rc = 0 \<and> armed u) t" if "ot \<and> redcon_level t = TXING_REDCON_ON" for ot t
  proof -
    have "wp (configure_thread_mode_locked E True) (\<lambda>rc u. rc = 0 \<and> armed u) t"
      by (rule wp_mono [OF configure_works [OF assms(1)]]) (use that in \<open>auto simp: armed_def redcon_levels\<close>)
    with that show ?thesis by simp
  qed
  have answer: "wp (if rc \<noteq> 0 then do { set_outputs_for_redcon E previous;
      send_response E OT_COAP_CODE_INTERNAL_ERROR None }
      else send_state_response E OT_COAP_CODE_CHANGED) (\<lambda>_. armed) u"
    if "rc = 0 \<and> armed u" for rc :: int and u
    using that keepsD [OF quiet_armed(2)] by simp
  show ?thesis
    unfolding enter_redcon_on_def
    by (rule wp_bindI [OF disarm], rule wp_bindI [OF ot], assumption,
        rule wp_bindI [OF conf], assumption, erule answer)
qed

lemma apply_redcon_armed:
  assumes "ot_works (kernel E)" "redcon = TXING_REDCON_ON \<or> redcon = TXING_REDCON_OFF"
    and "lm_ok s" "armed s"
  shows "wp (apply_redcon E redcon) (\<lambda>_. armed) s"
proof -
  have off: "keeps armed (enter_redcon_off E)"
    unfolding enter_redcon_off_def
    by (intro keeps_bind keeps_modify quiet_armed) (auto simp: armed_def keeps_def lm_work fw_simps)
  have rest: "wp (if rc \<noteq> 0 then send_response E OT_COAP_CODE_INTERNAL_ERROR None
     else if redcon = TXING_REDCON_ON then enter_redcon_on E (redcon_level s)
     else enter_redcon_off E) (\<lambda>_. armed) t"
    if "\<exists>cs. t = s\<lparr>calls := calls s @ cs, redcon_level := (if rc = 0 then redcon else redcon_level s)\<rparr>"
    for rc t
  proof -
    have "armed t" if "rc \<noteq> 0" using \<open>\<exists>cs. _\<close> that assms(4) by (auto simp: armed_def)
    moreover have "redcon_level t = TXING_REDCON_ON" if "rc = 0" "redcon = TXING_REDCON_ON"
      using \<open>\<exists>cs. _\<close> that by auto
    moreover have "armed t" if "rc = 0" "redcon \<noteq> TXING_REDCON_ON"
      using \<open>\<exists>cs. _\<close> that assms(2,3,4) by (auto simp: armed_def lm_ok_def redcon_levels)
    ultimately show ?thesis
      by (auto intro: enter_on_armed [OF assms(1)] keepsD [OF quiet_armed(1)] keepsD [OF off])
  qed
  show ?thesis
    unfolding apply_redcon_def
    by (subst wp_bind, subst wp_gets, rule wp_bindI [OF set_outputs_cases], rule rest) blast
qed

lemma schedule_recovery_armed:
  assumes "lm_ok s" and "redcon_level s = TXING_REDCON_ON \<longrightarrow> receiver_on_when_idle s"
  shows "wp (schedule_recovery E) (\<lambda>_. armed) s"
  using assms by (auto simp: fw_simps lm_work armed_def lm_ok_def)

lemma srp_callback_armed: "lm_ok s \<Longrightarrow> armed s \<Longrightarrow> wp (srp_client_callback E error) (\<lambda>_. armed) s"
  by (auto simp: srp_client_callback_def fw_simps lm_work lm_ok_def armed_def)

lemma state_changed_armed: "lm_ok s \<Longrightarrow> armed s \<Longrightarrow> wp (thread_state_changed E) (\<lambda>_. armed) s"
  by (auto simp: thread_state_changed_def fw_simps lm_work lm_ok_def armed_def)

lemma sed_transition_armed:
  assumes "ot_works (kernel E)" "lm_ok s" "armed s"
  shows "wp (sed_transition_work_handler E) (\<lambda>_. armed) s"
proof -
  let ?I = "\<lambda>t. lm_ok t \<and> armed t \<and> srp_registration_accepted t \<and> redcon_level t = TXING_REDCON_OFF"
  have I: "keeps ?I (sys_ok k c)" "keeps ?I (sys_code k c)" "keeps ?I (work_schedule k SedTransitionWork ms)"
    "keeps ?I (modify (\<lambda>s. s\<lparr>sed_mode_active := True\<rparr>))" "keeps ?I (schedule_recovery E)" for k c ms
    by (auto simp: keeps_def fw_simps lm_work lm_ok_def armed_def)
  have conf: "keeps ?I (configure_thread_mode_locked E False)"
    by (auto simp: keeps_def configure_thread_mode_locked_def fw_simps lm_ok_def armed_def redcon_levels)
  have "keeps ?I (do {
       ot \<leftarrow> sys_ok (kernel E) (Ot OtInstance);
       if \<not> ot then work_schedule (kernel E) SedTransitionWork 1000
       else do {
         role \<leftarrow> sys_code (kernel E) (Ot OtDeviceRole);
         rc \<leftarrow> (if role = OT_DEVICE_ROLE_CHILD then configure_thread_mode_locked E False
                else ret (- EAGAIN));
         if rc \<noteq> 0 then work_schedule (kernel E) SedTransitionWork 1000
         else do { modify (\<lambda>s. s\<lparr>sed_mode_active := True\<rparr>); schedule_recovery E } } })"
    by (intro keeps_bind keeps_if keeps_return I conf)
  note body = keepsD [OF this]
  show ?thesis
    unfolding sed_transition_work_handler_def
    using assms
    by (auto simp: wp_bind [of "gets _"] wp_gets wp_return intro!: wp_mono [OF body])
qed

lemma sleep_handler_armed:
  assumes "ot_works (kernel E)" "lm_ok s" "armed s"
  shows "wp (redcon_sleep_work_handler E) (\<lambda>_. armed) s"
proof (cases "redcon_sleep_pending s")
  case True
  let ?I = "\<lambda>t. lm_ok t \<and> redcon_level t = TXING_REDCON_OFF"
  have sched: "wp (doif (rc = 0) (do { modify (\<lambda>s. s\<lparr>sed_mode_active := True\<rparr>); schedule_recovery E }))
      (\<lambda>_. armed) t" if "rc = 0 \<and> ?I t" for rc :: int and t
    using that by (auto simp: fw_simps lm_work lm_ok_def armed_def redcon_levels)
  have conf: "wp (configure_thread_mode_locked E False) (\<lambda>rc t. rc = 0 \<and> ?I t) t" if "?I t" for t
    by (rule wp_mono [OF configure_works [OF assms(1)]]) (use that in \<open>auto simp: lm_ok_def\<close>)
  have ot: "wp (sys_ok (kernel E) (Ot OtInstance)) (\<lambda>ot t. ot \<and> ?I t) t" if "?I t" for t
    using assms(1) that by (simp add: ot_works_def fw_simps lm_ok_def)
  have body: "wp (do { ot \<leftarrow> sys_ok (kernel E) (Ot OtInstance);
      if \<not> ot then ret () else do { rc \<leftarrow> configure_thread_mode_locked E False;
        doif (rc = 0) (do { modify (\<lambda>s. s\<lparr>sed_mode_active := True\<rparr>); schedule_recovery E }) } })
      (\<lambda>_. armed) t" if "?I t" for t
    by (rule wp_bindI [OF ot [OF that]]) (auto intro!: wp_bindI [OF conf] sched)
  from True assms(2) have "?I (s\<lparr>redcon_sleep_pending := False\<rparr>)" by (auto simp: lm_ok_def)
  from body [OF this] True show ?thesis
    unfolding redcon_sleep_work_handler_def by (simp add: wp_bind [of "gets _"] wp_gets wp_bind [of "modify _"] wp_modify)
next
  case False
  with assms(3) show ?thesis by (simp add: redcon_sleep_work_handler_def fw_simps)
qed

lemma recover_thread_asleep:
  "keeps (\<lambda>t. lm_ok t \<and> redcon_level t = TXING_REDCON_OFF) (recover_thread E)"
proof -
  let ?I = "\<lambda>t. lm_ok t \<and> redcon_level t = TXING_REDCON_OFF"
  have "keeps ?I (sys_code k c)" "keeps ?I record_recovery_attempt"
    "keeps ?I (configure_thread_mode_locked E on)" for k c on
    by (auto simp: keeps_def configure_thread_mode_locked_def record_recovery_attempt_def fw_simps lm_ok_def)
  then show ?thesis
    unfolding recover_thread_def restart_thread_mode_locked_def
    by (intro keeps_bind keeps_if keeps_return)
qed

lemma recovery_handler_armed:
  assumes "sed_recovery E" and "lm_ok (s\<lparr>recovery_pending := False\<rparr>)"
    and "redcon_level s = TXING_REDCON_ON \<longrightarrow> receiver_on_when_idle s"
  shows "wp (recovery_work_handler E) (\<lambda>_. armed) s"
proof -
  let ?I = "\<lambda>t. lm_ok t \<and> (redcon_level t = TXING_REDCON_ON \<longrightarrow> receiver_on_when_idle t)"
  have tail: "wp (do { modify (\<lambda>s. s\<lparr>srp_registration_accepted := False\<rparr>); rc \<leftarrow> recover_thread E;
      doif (rc \<noteq> 0 \<or> sed_recovery E) (schedule_recovery E) }) (\<lambda>_. armed) t"
    if "lm_ok t" "redcon_level t = TXING_REDCON_OFF" for t
    using that assms(1)
    by (auto simp: wp_bind [of "modify _"] wp_modify lm_ok_def redcon_levels doif_def
        intro!: wp_bindI [OF keepsD [OF recover_thread_asleep]] schedule_recovery_armed)
  have decide: "wp (if level \<noteq> TXING_REDCON_OFF \<or> expected then ret ()
      else if child \<and> rx_on = expected \<and> accepted then ret ()
      else do { modify (\<lambda>s. s\<lparr>srp_registration_accepted := False\<rparr>); rc \<leftarrow> recover_thread E;
        doif (rc \<noteq> 0 \<or> sed_recovery E) (schedule_recovery E) }) (\<lambda>_. armed) t"
    if "?I t" "level = redcon_level t" "expected = receiver_on_when_idle t"
      "accepted = srp_registration_accepted t" for t level expected accepted child rx_on
    using that tail [of t] by (auto simp: wp_return armed_def)
  have I: "keeps ?I (sys_ok k c)" "keeps ?I (sys_code k c)" for k c
    by (simp_all add: keeps_def fw_simps lm_ok_def)
  have inspect: "wp (do { role \<leftarrow> sys_code (kernel E) (Ot OtDeviceRole);
      rx_on \<leftarrow> sys_ok (kernel E) (Ot OtGetRxOnWhenIdle);
      expected_receiver_on \<leftarrow> gets receiver_on_when_idle; level \<leftarrow> gets redcon_level;
      accepted \<leftarrow> gets srp_registration_accepted;
      if level \<noteq> TXING_REDCON_OFF \<or> expected_receiver_on then ret ()
      else if role = OT_DEVICE_ROLE_CHILD \<and> rx_on = expected_receiver_on \<and> accepted then ret ()
      else do { modify (\<lambda>s. s\<lparr>srp_registration_accepted := False\<rparr>); rc \<leftarrow> recover_thread E;
        doif (rc \<noteq> 0 \<or> sed_recovery E) (schedule_recovery E) } }) (\<lambda>_. armed) t" if "?I t" for t
    by (rule wp_bindI [OF keepsD [OF I(2) that]], rule wp_bindI [OF keepsD [OF I(1)]], assumption,
        subst wp_bind, subst wp_gets, subst wp_bind, subst wp_gets, subst wp_bind, subst wp_gets,
        rule decide) simp_all
  have active: "wp (do { ot \<leftarrow> sys_ok (kernel E) (Ot OtInstance);
      if \<not> ot then schedule_recovery E else f }) (\<lambda>_. armed) t"
    if "?I t" "\<And>t. ?I t \<Longrightarrow> wp f (\<lambda>_. armed) t" for t f
    by (rule wp_bindI [OF keepsD [OF I(1) that(1)]]) (auto intro!: that(2) schedule_recovery_armed)
  have "?I (s\<lparr>recovery_pending := False\<rparr>)" using assms(2,3) by simp
  from active [OF this inspect] show ?thesis
    unfolding recovery_work_handler_def
    using assms(3) by (auto simp: wp_bind [of "modify _"] wp_modify wp_bind [of "gets sed_mode_active"] wp_gets
        wp_return armed_def)
qed

lemma lm_step_armed:
  assumes "ot_works (kernel E)" "sed_recovery E" and "lm_ok s" "armed s" and "lm_step E s ev t"
  shows "armed t"
  using assms(5)
proof cases
  case callback
  let ?I = "\<lambda>s. lm_ok s \<and> armed s"
  have "keeps ?I (redcon_handler E)"
  proof (rule redcon_handler_keeps)
    show "keeps ?I (apply_redcon E redcon)" if "redcon = TXING_REDCON_ON \<or> redcon = TXING_REDCON_OFF" for redcon
      unfolding keeps_def
      using apply_redcon_armed [OF assms(1) that] keepsD [OF apply_redcon_ok [OF that]]
      by (auto intro: wp_conj)
  qed (unfold keeps_def, auto intro!: wp_conj intro: keepsD [OF quiet_keeps(1)] keepsD [OF quiet_keeps(3)])
  note redcon = keepsD [OF this]
  have "wp (lm_handler E ev) (\<lambda>_. armed) s"
    using callback(1) assms(3,4)
    by (cases ev) (auto intro: keepsD [OF state_handler_keeps(3)] srp_callback_armed state_changed_armed
        wp_mono [OF redcon] simp: wp_return)
  from wpD [OF this callback(2)] show ?thesis .
next
  case (work w)
  have "wp (work_handler E w) (\<lambda>_. armed) (s\<lparr>pending := pending s - {w}\<rparr>)"
  proof (cases w)
    case RecoveryWork
    with assms(2,3,4) show ?thesis
      by (auto simp: work_handler_def lm_ok_def armed_def intro!: recovery_handler_armed)
  next
    case SedTransitionWork
    with assms(3,4) show ?thesis
      by (auto simp: work_handler_def lm_ok_def armed_def intro!: sed_transition_armed [OF assms(1)])
  next
    case RedconSleepWork
    with assms(3,4) show ?thesis
      by (auto simp: work_handler_def lm_ok_def armed_def intro!: sleep_handler_armed [OF assms(1)])
  qed
  from wpD [OF this] work show ?thesis by simp
qed

subsection \<open>Responses and names\<close>

lemma tidy_append: "keeps (tidy k n) (append_payload E payload)" "keeps (tidy k n) (response_type E)"
  unfolding append_payload_def response_type_def
  by (intro keeps_bind keeps_if keeps_return keeps_option tidy_sys; simp)+

lemma tidy_send: "keeps (tidy k n) (send_response E cc payload)"
proof -
  have last: "wp (do { error \<leftarrow> (if error \<noteq> OT_ERROR_NONE then ret error
                   else sys_code (kernel E) (Coap SendResponse));
         doif (error \<noteq> OT_ERROR_NONE) (sys_void (kernel E) (Coap MessageFree)) }) (\<lambda>_. tidy k n) s"
    if "tidy (k + 1) n s" for error s
    using that by (auto simp: fw_simps tidy_def ot_errors)
  have init: "keeps (tidy k n) (sys_code (kernel E) (Coap (InitResponse ty cc)))" for k ty
    by (intro tidy_sys) simp
  have body: "wp (do { ty \<leftarrow> response_type E; error \<leftarrow> sys_code (kernel E) (Coap (InitResponse ty cc));
      error \<leftarrow> (if error \<noteq> OT_ERROR_NONE then ret error else append_payload E payload);
      error \<leftarrow> (if error \<noteq> OT_ERROR_NONE then ret error else sys_code (kernel E) (Coap SendResponse));
      doif (error \<noteq> OT_ERROR_NONE) (sys_void (kernel E) (Coap MessageFree)) }) (\<lambda>_. tidy k n) s"
    if "tidy (k + 1) n s" for s
    by (rule wp_bindI [OF keepsD [OF tidy_append(2) that]], rule wp_bindI [OF keepsD [OF init]],
        assumption, rule wp_bindI [OF keepsD [OF keeps_if [OF keeps_return tidy_append(1)]]],
        assumption, rule last)
  have ot: "keeps (tidy k n) (sys_ok (kernel E) (Ot OtInstance))" by (intro tidy_sys) simp
  have new: "wp (sys_ok (kernel E) (Coap NewMessage)) (\<lambda>r t. tidy (if r then k + 1 else k) n t) s"
    if "tidy k n s" for s
    using that by (simp add: fw_simps tidy_def)
  show ?thesis
    unfolding keeps_def send_response_def
    by (auto intro!: wp_bindI [OF keepsD [OF ot]] wp_bindI [OF new] body simp: wp_return)
qed

lemmas tidy_rules = keeps_bind keeps_if keeps_doif keeps_return keeps_gets keeps_option keeps_prod
  tidy_sys tidy_work tidy_modify tidy_send

lemma tidy_state: "keeps (tidy k n) (send_state_response E cc)" "keeps (tidy k n) (parse_redcon_request E)"
  "keeps (tidy k n) (schedule_recovery E)" "keeps (tidy k n) (set_outputs_for_redcon E level)"
  "keeps (tidy k n) (configure_thread_mode_locked E on)"
  unfolding send_state_response_def format_state_def sample_battery_mv_def parse_redcon_request_def
    schedule_recovery_def recovery_delay_seconds_def set_outputs_for_redcon_def
    configure_thread_mode_locked_def Let_def
  by (intro tidy_rules; simp)+

lemma tidy_handlers:
  "keeps (tidy k n) (redcon_handler E)" "keeps (tidy k n) (state_handler E)"
  "keeps (tidy k n) (srp_client_callback E error)" "keeps (tidy k n) (sed_transition_work_handler E)"
  "keeps (tidy k n) (redcon_sleep_work_handler E)" "keeps (tidy k n) (recovery_work_handler E)"
  "keeps (tidy k n) (thread_state_changed E)"
  unfolding redcon_handler_def apply_redcon_def enter_redcon_on_def enter_redcon_off_def disarm_work_def
    state_handler_def srp_client_callback_def sed_transition_work_handler_def
    redcon_sleep_work_handler_def recovery_work_handler_def recover_thread_def
    restart_thread_mode_locked_def record_recovery_attempt_def thread_state_changed_def
  by (intro tidy_rules tidy_state; simp)+

lemma lm_step_tidy: "tidy k n s \<Longrightarrow> lm_step E s ev t \<Longrightarrow> tidy k n t"
proof -
  have handler: "keeps (tidy k n) (lm_handler E ev)" for ev
    by (cases ev) (auto simp: work_handler_def tidy_handlers keeps_return split: lm_work.split)
  assume s: "tidy k n s" and "lm_step E s ev t"
  from this(2) show "tidy k n t"
  proof cases
    case callback
    from keeps_run [OF handler s this(2)] show ?thesis .
  next
    case (work w)
    from s have "tidy k n (s\<lparr>pending := pending s - {w}\<rparr>)" by (simp add: tidy_def)
    from keeps_run [OF handler this work(3)] show ?thesis .
  qed
qed

section \<open>Startup\<close>

text \<open>Startup does not leave the level off nor enter the sleepy mode.\<close>

definition calm :: "lm_state \<Rightarrow> bool" where
  "calm s \<longleftrightarrow> lm_ok s \<and> \<not> sed_mode_active s \<and> redcon_level s = TXING_REDCON_OFF"

lemma calm_sys: "keeps calm (sys k c)" "keeps calm (sys_code k c)" "keeps calm (sys_ok k c)"
  "keeps calm (sys_void k c)"
  by (simp_all add: keeps_def fw_simps calm_def lm_ok_def)

lemma calm_modify:
  "(\<And>s. pending (f s) = pending s \<and> redcon_level (f s) = redcon_level s \<and>
     recovery_pending (f s) = recovery_pending s \<and> recovery_attempts (f s) = recovery_attempts s \<and>
     redcon_sleep_pending (f s) = redcon_sleep_pending s \<and>
     (sed_mode_active (f s) \<longrightarrow> sed_mode_active s)) \<Longrightarrow> keeps calm (modify f)"
  by (auto simp: keeps_def fw_simps calm_def lm_ok_def)

lemma calm_outputs: "keeps calm (set_outputs_for_redcon E TXING_REDCON_OFF)"
  by (auto simp: keeps_def set_outputs_for_redcon_def fw_simps calm_def lm_ok_def)

lemmas calm_rules = keeps_bind keeps_if keeps_doif keeps_return keeps_gets calm_sys calm_modify calm_outputs

lemma calm_load: "keeps calm (load_factory_data E)"
  unfolding load_factory_data_def read_factory_record_def Let_def by (intro calm_rules) simp

lemma calm_init: "keeps calm (init_outputs E)" "keeps calm (init_battery E)"
  unfolding init_outputs_def init_battery_def by (intro calm_rules; simp)+

lemma calm_services: "keeps calm (start_services E)"
  unfolding start_services_def start_thread_def start_coap_def start_srp_def set_srp_host_address_def
    configure_thread_mode_locked_def
  by (intro calm_rules) simp_all

lemma calm_main: "keeps calm (lm_main E)"
  unfolding lm_main_def by (intro keeps_bind keeps_if keeps_return calm_sys calm_init calm_load calm_services)

lemma initial_calm: "calm (initial_lm_state E)"
  by (simp add: calm_def lm_ok_def initial_lm_state_def sed_recovery_delays_seconds_def)

lemma calm_armed: "calm s \<Longrightarrow> armed s"
  by (simp add: calm_def armed_def redcon_levels)

text \<open>The pins are driven before anything else happens.\<close>

lemma init_outputs_radio:
  assumes "gpio_works (kernel E)"
  shows "wp (init_outputs E) (\<lambda>rc. if rc = 0 then radio_off else (\<lambda>_. True)) s"
proof -
  have "wp (set_outputs_for_redcon E TXING_REDCON_OFF) (\<lambda>rc. if rc = 0 then radio_off else (\<lambda>_. True)) t" for t
    using assms
    by (simp add: set_outputs_for_redcon_def fw_simps gpio_works_def radio_off_def radio_ok_def redcon_levels)
  then show ?thesis
    unfolding init_outputs_def by (auto simp: fw_simps errno_defs)
qed

lemma radio_services: "keeps radio_off (start_services E)"
  unfolding start_services_def start_thread_def start_coap_def start_srp_def set_srp_host_address_def
  by (intro off_rules view_off [OF view_sys(4)]; simp add: radio_call_def)

lemma radio_load: "keeps radio_off (load_factory_data E)" "keeps radio_off (init_battery E)"
  unfolding load_factory_data_def read_factory_record_def init_battery_def Let_def
  by (intro off_rules; simp add: radio_call_def)+

lemma radio_main:
  assumes "gpio_works (kernel E)"
  shows "wp (lm_main E) (\<lambda>r t. r = None \<longrightarrow> radio_ok t) s"
proof -
  have rest: "keeps radio_off (do { rc \<leftarrow> load_factory_data E;
       if rc \<noteq> 0 then ret (Some rc)
       else do { init_battery E;
         ot \<leftarrow> sys_ok (kernel E) (Ot OtInstance);
         if \<not> ot then ret (Some (- ENODEV))
         else do { sys (kernel E) (Ot OtRegisterStateCallback); start_services E } } })"
    by (intro keeps_bind keeps_if keeps_return off_sys radio_load radio_services; simp add: radio_call_def)
  have "wp (if rc \<noteq> 0 then ret (Some rc) else do { rc \<leftarrow> load_factory_data E;
       if rc \<noteq> 0 then ret (Some rc)
       else do { init_battery E;
         ot \<leftarrow> sys_ok (kernel E) (Ot OtInstance);
         if \<not> ot then ret (Some (- ENODEV))
         else do { sys (kernel E) (Ot OtRegisterStateCallback); start_services E } } })
      (\<lambda>r t. r = None \<longrightarrow> radio_ok t) t" if "(if rc = 0 then radio_off else (\<lambda>_. True)) t" for rc t
    using that wp_mono [OF keepsD [OF rest]] by (auto simp: wp_return radio_off_def)
  then show ?thesis
    unfolding lm_main_def by (rule wp_bindI [OF init_outputs_radio [OF assms]])
qed

lemma tidy_load:
  assumes "held_messages (calls s) = 0"
  shows "wp (load_factory_data E) (\<lambda>rc t. rc = 0 \<longrightarrow> tidy 0 64 t) s"
proof -
  have "wp (read_factory_record E) (\<lambda>rc t. held_messages (calls t) = 0 \<and>
      (rc = 0 \<longrightarrow> length (thing_name t) \<le> 64)) t" if "held_messages (calls t) = 0" for t
    using that by (auto simp: read_factory_record_def Let_def fw_simps errno_defs txn1_constants)
  note rd = this
  show ?thesis
    using assms
    by (auto simp: load_factory_data_def wp_return wp_bind [of "sys_code _ _"] wp_sys_code errno_defs
        intro!: wp_bindI [OF rd]) (auto simp: fw_simps tidy_def)
qed

lemma tidy_services: "keeps (tidy k n) (start_services E)" "keeps (tidy k n) (init_battery E)"
  unfolding start_services_def start_thread_def start_coap_def start_srp_def set_srp_host_address_def
    init_battery_def
  by (intro tidy_rules tidy_state(5); simp)+

lemma tidy_main: "wp (lm_main E) (\<lambda>r t. r = None \<longrightarrow> tidy 0 64 t) (initial_lm_state E)"
proof -
  have rest: "keeps (tidy 0 64) (do { init_battery E; ot \<leftarrow> sys_ok (kernel E) (Ot OtInstance);
      if \<not> ot then ret (Some (- ENODEV))
      else do { sys (kernel E) (Ot OtRegisterStateCallback); start_services E } })"
    by (intro keeps_bind keeps_if keeps_return tidy_sys tidy_services; simp)
  have outputs: "wp (init_outputs E) (\<lambda>_ t. held_messages (calls t) = 0) (initial_lm_state E)"
  proof -
    have "keeps (tidy 0 (length (default_thing_name E))) (init_outputs E)"
      unfolding init_outputs_def by (intro tidy_rules tidy_state; simp)
    from keepsD [OF this, of "initial_lm_state E"] show ?thesis
      by (rule wp_mono) (simp_all add: tidy_def initial_lm_state_def)
  qed
  have loaded: "wp (if rc \<noteq> 0 then ret (Some rc) else do { init_battery E;
      ot \<leftarrow> sys_ok (kernel E) (Ot OtInstance); if \<not> ot then ret (Some (- ENODEV))
      else do { sys (kernel E) (Ot OtRegisterStateCallback); start_services E } })
      (\<lambda>r t. r = None \<longrightarrow> tidy 0 64 t) t" if "rc = 0 \<longrightarrow> tidy 0 64 t" for rc t
    using that wp_mono [OF keepsD [OF rest]] by (auto simp: wp_return)
  have "wp (if rc \<noteq> 0 then ret (Some rc) else do { rc \<leftarrow> load_factory_data E;
      if rc \<noteq> 0 then ret (Some rc) else do { init_battery E;
      ot \<leftarrow> sys_ok (kernel E) (Ot OtInstance); if \<not> ot then ret (Some (- ENODEV))
      else do { sys (kernel E) (Ot OtRegisterStateCallback); start_services E } } })
      (\<lambda>r t. r = None \<longrightarrow> tidy 0 64 t) t" if "held_messages (calls t) = 0" for rc t
    using wp_bindI [OF tidy_load [OF that] loaded] by (simp add: wp_return)
  then show ?thesis
    unfolding lm_main_def by (rule wp_bindI [OF outputs])
qed

text \<open>The life of a device: events after a startup that did not return.\<close>

definition lm_started :: "lm_env \<Rightarrow> lm_state \<Rightarrow> bool" where
  "lm_started E s \<longleftrightarrow> run_state (lm_main E) (initial_lm_state E) = (None, s)"

definition lm_inv :: "lm_env \<Rightarrow> lm_state \<Rightarrow> bool" where
  "lm_inv E s \<longleftrightarrow> lm_ok s \<and> tidy 0 64 s \<and> (gpio_works (kernel E) \<longrightarrow> radio_ok s) \<and>
     (ot_works (kernel E) \<and> sed_recovery E \<longrightarrow> armed s)"

interpretation lm_life: event_system "lm_started E" "lm_step E" "lm_inv E" for E
proof unfold_locales
  fix s
  assume "lm_started E s"
  then have run: "run_state (lm_main E) (initial_lm_state E) = (None, s)" by (simp add: lm_started_def)
  show "lm_inv E s"
    using keeps_run [OF calm_main initial_calm run] wpD [OF tidy_main run] wpD [OF radio_main run]
    by (auto simp: lm_inv_def calm_def calm_armed intro: calm_armed [unfolded calm_def])
next
  fix s ev t
  assume "lm_inv E s" "lm_step E s ev t"
  then show "lm_inv E t"
    by (auto simp: lm_inv_def intro: lm_step_ok lm_step_tidy lm_step_radio lm_step_armed)
qed

lemma state_response_fits:
  assumes "length (thing_name s) \<le> 64" and "lm_ok s"
  shows "\<exists>battery u. run_state (send_state_response E cc) s =
    run_state (send_response E cc (Some (state_json (thing_name s) (redcon_level s) battery))) u"
proof -
  obtain battery u where run: "run_state (sample_battery_mv E) s = (battery, u)" by (rule prod.exhaust)
  have "keeps (\<lambda>t. thing_name t = thing_name s \<and> redcon_level t = redcon_level s) (sample_battery_mv E)"
    unfolding sample_battery_mv_def
    by (intro keeps_bind keeps_if keeps_return keeps_gets) (simp_all add: keeps_def fw_simps)
  from keeps_run [OF this _ run] have "thing_name u = thing_name s" "redcon_level u = redcon_level s" by simp_all
  moreover have "length (state_json (thing_name s) (redcon_level s) battery) < STATE_JSON_SIZE"
    using length_state_json [OF assms(1), of "redcon_level s" battery] assms(2)
    by (simp add: lm_ok_def STATE_JSON_SIZE_def)
  ultimately have "run_state (send_state_response E cc) s =
      run_state (send_response E cc (Some (state_json (thing_name s) (redcon_level s) battery))) u"
    by (simp add: send_state_response_def format_state_def gets_def run)
  then show ?thesis by blast
qed

section \<open>Properties\<close>

text \<open>A device for the witnesses: a provisioned one whose kernel, pins and radio all work.\<close>

definition sample_record :: bytes where
  "sample_record = TXN1_MAGIC @ [1, 1, 1, 0, 1, 0, 0x61, 0x7f, 0, 0, 0, 0]"

definition sample_lm_kernel :: "lm_work kernel" where
  "sample_lm_kernel cs c = (case c of
     Gpio g \<Rightarrow> \<lparr>code = 0, out = 0, data = []\<rparr>
   | Bus b \<Rightarrow> (case b of FlashRead pos len \<Rightarrow> \<lparr>code = 0, out = 0, data = take len (drop pos sample_record)\<rparr>
               | _ \<Rightarrow> \<lparr>code = 0, out = 0, data = []\<rparr>)
   | Ot t \<Rightarrow> \<lparr>code = (if t = OtInstance \<or> t = OtMeshLocalEid then 1
                     else if t = OtDeviceRole then 2 else 0), out = 0, data = []\<rparr>
   | Coap m \<Rightarrow> (case m of MessageCode \<Rightarrow> \<lparr>code = 3, out = 0, data = []\<rparr>
                | MessageLength \<Rightarrow> \<lparr>code = 0, out = 10, data = []\<rparr>
                | MessageRead pos len \<Rightarrow> \<lparr>code = int len, out = 0, data = []\<rparr>
                | NewMessage \<Rightarrow> \<lparr>code = 1, out = 0, data = []\<rparr>
                | _ \<Rightarrow> \<lparr>code = 0, out = 0, data = []\<rparr>)
   | _ \<Rightarrow> \<lparr>code = 1, out = 0, data = []\<rparr>)"

definition sample_lm_env :: lm_env where
  "sample_lm_env = \<lparr>kernel = sample_lm_kernel, json_obj_parse = (\<lambda>_. (3, 1, 3)), crc32_ieee = (\<lambda>_. 0),
     has_factory_partition = True, has_pmic_charger = True, sed_recovery = True,
     receiver_on_diagnostics = False, default_thing_name = []\<rparr>"

lemma sample_lm_works: "gpio_works (kernel sample_lm_env)" "ot_works (kernel sample_lm_env)" "sed_recovery sample_lm_env"
  by (simp_all add: gpio_works_def ot_works_def sample_lm_env_def sample_lm_kernel_def)

lemma sample_lm_codes:
  "code (kernel sample_lm_env cs (Gpio g)) = 0" "code (kernel sample_lm_env cs (Driver d)) = 1"
  "code (kernel sample_lm_env cs (Ot OtInstance)) = 1" "code (kernel sample_lm_env cs (Ot OtMeshLocalEid)) = 1"
  "code (kernel sample_lm_env cs (Ot OtDeviceRole)) = 2"
  "t \<notin> {OtInstance, OtMeshLocalEid, OtDeviceRole} \<Longrightarrow> code (kernel sample_lm_env cs (Ot t)) = 0"
  "code (kernel sample_lm_env cs (Bus b)) = 0"
  "data (kernel sample_lm_env cs (Bus (FlashRead pos len))) = take len (drop pos sample_record)"
  by (simp_all add: sample_lm_env_def sample_lm_kernel_def split: bus_call.split)

lemma sample_lm_load:
  "wp (load_factory_data sample_lm_env) (\<lambda>rc t. rc = 0 \<and> factory_valid t) s"
  by (simp add: load_factory_data_def read_factory_record_def Let_def fw_simps sample_lm_codes
      sample_record_def txn1_constants buffer_def u16_le_def u32_le_def thing_name_is_valid_def nth_append)
    (simp add: sample_lm_env_def)

lemma sample_lm_started: "\<exists>s. lm_started sample_lm_env s"
proof -
  have services: "factory_valid t \<Longrightarrow> wp (start_services sample_lm_env) (\<lambda>r _. r = None) t" for t
    by (simp add: start_services_def start_thread_def start_coap_def start_srp_def
        set_srp_host_address_def configure_thread_mode_locked_def fw_simps sample_lm_codes ot_errors)
  have rest: "wp (do { init_battery sample_lm_env; ot \<leftarrow> sys_ok (kernel sample_lm_env) (Ot OtInstance);
      if \<not> ot then ret (Some (- ENODEV))
      else do { sys (kernel sample_lm_env) (Ot OtRegisterStateCallback); start_services sample_lm_env } })
      (\<lambda>r _. r = None) t" if "factory_valid t" for t
    using that by (simp add: init_battery_def fw_simps sample_lm_codes services)
  have outputs: "wp (init_outputs sample_lm_env) (\<lambda>rc _. rc = 0) t" for t
    by (simp add: init_outputs_def set_outputs_for_redcon_def fw_simps sample_lm_codes)
  have "wp (lm_main sample_lm_env) (\<lambda>r _. r = None) (initial_lm_state sample_lm_env)"
    unfolding lm_main_def
    by (rule wp_bindI [OF outputs], simp, rule wp_bindI [OF sample_lm_load]) (simp add: rest)
  then show ?thesis by (auto simp: lm_started_def wp_def split: prod.splits)
qed

lemma sample_lm_wakes:
  "wp (redcon_handler sample_lm_env) (\<lambda>_ t. redcon_level t = TXING_REDCON_ON) s"
proof -
  have answer: "wp (send_state_response E cc) (\<lambda>_ t. redcon_level t = TXING_REDCON_ON) t"
    if "redcon_level t = TXING_REDCON_ON" for E cc t
    by (rule keepsD [OF only_calls_keeps [OF quiet_send_state]]) (simp_all add: that)
  have "wp (apply_redcon sample_lm_env TXING_REDCON_ON) (\<lambda>_ t. redcon_level t = TXING_REDCON_ON) t" for t
    by (simp add: apply_redcon_def set_outputs_for_redcon_def enter_redcon_on_def disarm_work_def
        configure_thread_mode_locked_def lm_work fw_simps sample_lm_codes ot_errors answer)
  moreover have "wp (parse_redcon_request sample_lm_env) (\<lambda>r _. r = Some (1, 3)) t" for t
    by (simp add: parse_redcon_request_def fw_simps Let_def sample_lm_env_def sample_lm_kernel_def
        REQUEST_JSON_SIZE_def)
  ultimately show ?thesis
    unfolding redcon_handler_def
    by (subst wp_bind, subst wp_sys_code)
      (auto simp: sample_lm_env_def sample_lm_kernel_def OT_COAP_CODE_PUT_def
        TXING_PROTOCOL_VERSION_def redcon_levels intro!: wp_bindI)
qed

lemma sample_lm_woken:
  obtains s t where "lm_started sample_lm_env s" "steps (lm_step sample_lm_env) s [CoapRedcon] t"
    "redcon_level t = TXING_REDCON_ON"
proof -
  obtain s where s: "lm_started sample_lm_env s" using sample_lm_started by blast
  obtain u t where run: "run_state (lm_handler sample_lm_env CoapRedcon) s = (u, t)"
    by (rule prod.exhaust)
  then have "lm_step sample_lm_env s CoapRedcon t" by (intro lm_step.callback) simp_all
  from steps_single [of "lm_step sample_lm_env", OF this] s wpD [OF sample_lm_wakes] run that
  show ?thesis by simp
qed



text \<open>
  C22. A sleepy device that lost its registration keeps trying.  In the build with sleepy recovery
  and with an OpenThread stack that accepts mode changes, whenever the device is in sleepy mode at
  level 4 with its receiver off and without an accepted SRP registration, the recovery work is
  pending; no sequence of events gets it stuck.
\<close>

theorem lm_recovery_armed:
  assumes "ot_works (kernel E)" and "sed_recovery E" and "lm_started E s" and "steps (lm_step E) s es t"
    and "sed_mode_active t" and "redcon_level t = 4" and "\<not> srp_registration_accepted t"
    and "\<not> receiver_on_when_idle t"
  shows "RecoveryWork \<in> pending t"
  using lm_life.run_inv [OF assms(3,4)] assms by (simp add: lm_inv_def armed_def redcon_levels)

text \<open>A run that registers, goes to sleep and loses its registration.\<close>

lemma sample_lm_lost:
  obtains s t where "lm_started sample_lm_env s"
    "steps (lm_step sample_lm_env) s [SrpCallback 0, RunWork SedTransitionWork, SrpCallback 7] t"
    "sed_mode_active t" "redcon_level t = 4" "\<not> srp_registration_accepted t" "\<not> receiver_on_when_idle t"
proof -
  let ?E = sample_lm_env
  obtain s where s: "lm_started ?E s" using sample_lm_started by blast
  then have calm: "calm s" using keeps_run [OF calm_main initial_calm] by (simp add: lm_started_def)
  obtain u1 s1 where r1: "run_state (lm_handler ?E (SrpCallback 0)) s = (u1, s1)" by (rule prod.exhaust)
  let ?s1 = "s1\<lparr>pending := pending s1 - {SedTransitionWork}\<rparr>"
  obtain u2 s2 where r2: "run_state (lm_handler ?E (RunWork SedTransitionWork)) ?s1 = (u2, s2)"
    by (rule prod.exhaust)
  obtain u3 t where r3: "run_state (lm_handler ?E (SrpCallback 7)) s2 = (u3, t)" by (rule prod.exhaust)
  have "wp (lm_handler ?E (SrpCallback 0)) (\<lambda>_ t. SedTransitionWork \<in> pending t \<and>
      srp_registration_accepted t \<and> \<not> sed_mode_active t \<and> redcon_level t = TXING_REDCON_OFF) s"
    using calm by (simp add: srp_client_callback_def ot_errors calm_def fw_simps lm_work)
  from wpD [OF this r1] have 1: "SedTransitionWork \<in> pending s1" "srp_registration_accepted s1"
    "\<not> sed_mode_active s1" "redcon_level s1 = TXING_REDCON_OFF" by simp_all
  have "wp (lm_handler ?E (RunWork SedTransitionWork)) (\<lambda>_ t. sed_mode_active t \<and>
      \<not> receiver_on_when_idle t \<and> redcon_level t = TXING_REDCON_OFF) ?s1"
    using 1 by (simp add: work_handler_def sed_transition_work_handler_def fw_simps lm_work
        configure_thread_mode_locked_def sample_lm_codes OT_DEVICE_ROLE_CHILD_def ot_errors)
  from wpD [OF this r2] have 2: "sed_mode_active s2" "\<not> receiver_on_when_idle s2"
    "redcon_level s2 = TXING_REDCON_OFF" by simp_all
  have "wp (lm_handler ?E (SrpCallback 7)) (\<lambda>_ t. sed_mode_active t \<and> \<not> srp_registration_accepted t \<and>
      \<not> receiver_on_when_idle t \<and> redcon_level t = TXING_REDCON_OFF) s2"
    using 2 by (simp add: srp_client_callback_def ot_errors fw_simps lm_work)
  note 3 = wpD [OF this r3]
  have "lm_step ?E s (SrpCallback 0) s1" "lm_step ?E s2 (SrpCallback 7) t"
    using r1 r3 by (auto intro: lm_step.callback)
  moreover have "lm_step ?E s1 (RunWork SedTransitionWork) s2"
    using 1 r2 by (auto intro: lm_step.work)
  ultimately have "steps (lm_step ?E) s [SrpCallback 0, RunWork SedTransitionWork, SrpCallback 7] t"
    by (meson steps_Cons steps_single)
  with s 3 that show ?thesis by (simp add: redcon_levels)
qed

theorem lm_recovery_armed_witness:
  "\<exists>s t. lm_started sample_lm_env s \<and>
     steps (lm_step sample_lm_env) s [SrpCallback 0, RunWork SedTransitionWork, SrpCallback 7] t \<and>
     RecoveryWork \<in> pending t"
proof -
  obtain s t where run: "lm_started sample_lm_env s"
    "steps (lm_step sample_lm_env) s [SrpCallback 0, RunWork SedTransitionWork, SrpCallback 7] t"
    "sed_mode_active t" "redcon_level t = 4" "\<not> srp_registration_accepted t" "\<not> receiver_on_when_idle t"
    using sample_lm_lost .
  from lm_recovery_armed [OF sample_lm_works(2,3) run] run(1,2) show ?thesis by blast
qed

text \<open>
  Recovery bookkeeping.  Whatever the kernel answers, the pending flag is set exactly while
  Zephyr holds the recovery work, the attempt counter stays within the table of delays, and a
  scheduled return to sleep always belongs to level 4.
\<close>

theorem lm_bookkeeping:
  assumes "lm_started E s" and "steps (lm_step E) s es t"
  shows "(recovery_pending t \<longleftrightarrow> RecoveryWork \<in> pending t) \<and>
    0 \<le> recovery_attempts t \<and> recovery_attempts t \<le> 5 \<and>
    (redcon_sleep_pending t \<longrightarrow> redcon_level t = 4)"
  using lm_life.run_inv [OF assms]
  by (auto simp: lm_inv_def lm_ok_def redcon_levels sed_recovery_delays_seconds_def)

theorem lm_bookkeeping_witness:
  "\<exists>s t. lm_started sample_lm_env s \<and> steps (lm_step sample_lm_env) s [CoapRedcon] t \<and>
     0 \<le> recovery_attempts t \<and> \<not> redcon_sleep_pending t"
proof -
  obtain s t where run: "lm_started sample_lm_env s" "steps (lm_step sample_lm_env) s [CoapRedcon] t"
    and on: "redcon_level t = TXING_REDCON_ON" using sample_lm_woken .
  from lm_bookkeeping [OF run] run on show ?thesis
    by (auto simp: TXING_REDCON_ON_def)
qed

text \<open>
  Responses.  After any sequence of events every response message that was allocated has been
  sent or freed, and a state response always fits its buffer: the internal-error branch for an
  overlong text is never taken.
\<close>

theorem lm_responses:
  assumes "lm_started E s" and "steps (lm_step E) s es t"
  shows "held_messages (calls t) = 0 \<and>
    (\<exists>battery u. run_state (send_state_response E cc) t =
       run_state (send_response E cc (Some (state_json (thing_name t) (redcon_level t) battery))) u)"
proof -
  from lm_life.run_inv [OF assms] have "lm_ok t" "tidy 0 64 t" by (simp_all add: lm_inv_def)
  with state_response_fits [of t E cc] show ?thesis by (simp add: tidy_def)
qed

theorem lm_responses_witness:
  "\<exists>s t. lm_started sample_lm_env s \<and> steps (lm_step sample_lm_env) s [CoapRedcon] t \<and>
     held_messages (calls t) = 0"
proof -
  obtain s t where run: "lm_started sample_lm_env s" "steps (lm_step sample_lm_env) s [CoapRedcon] t"
    using sample_lm_woken by metis
  from lm_responses [OF run] run show ?thesis by blast
qed

text \<open>
  A consequence of the order in \<^verbatim>\<open>redcon_handler\<close>: when the switch to level 3 fails in OpenThread, the
  outputs are rolled back but the recovery work that was cancelled before is not scheduled again.
\<close>

lemma failed_wakeup_disarms_recovery:
  assumes "gpio_works (kernel E)" and "\<And>cs. code (kernel E cs (Ot (OtSetLinkMode True))) \<noteq> 0"
    and "redcon_level s = TXING_REDCON_OFF"
  shows "wp (apply_redcon E TXING_REDCON_ON) (\<lambda>_ t. redcon_level t = TXING_REDCON_OFF \<and>
     RecoveryWork \<notin> pending t \<and> sed_mode_active t = sed_mode_active s \<and>
     srp_registration_accepted t = srp_registration_accepted s \<and>
     receiver_on_when_idle t = receiver_on_when_idle s) s"
proof -
  have answer: "wp (send_response E cc payload) (\<lambda>_ t. redcon_level t = TXING_REDCON_OFF \<and>
      RecoveryWork \<notin> pending t \<and> sed_mode_active t = a \<and> srp_registration_accepted t = b \<and>
      receiver_on_when_idle t = c) t"
    if "redcon_level t = TXING_REDCON_OFF" "RecoveryWork \<notin> pending t" "sed_mode_active t = a"
      "srp_registration_accepted t = b" "receiver_on_when_idle t = c" for cc payload t a b c
    by (rule keepsD [OF only_calls_keeps [OF quiet_send]]) (simp_all add: that)
  show ?thesis
    using assms
    by (auto simp: apply_redcon_def set_outputs_for_redcon_def enter_redcon_on_def disarm_work_def
        configure_thread_mode_locked_def lm_work fw_simps gpio_works_def ot_errors errno_defs
        intro!: answer)
qed

end
