(* ===== verification/PowerSi.thy ===== *)
theory PowerSi
  imports ThreadBase
begin

text \<open>
  Model of \<^verbatim>\<open>src/devices/power-si/mcu/src/main.c\<close>: the Thread firmware of the XIAO MG24 power device.
  The Kconfig options that select code are the boolean fields of \<open>si_env\<close>; log output is left out.
  Functions keep their C names.
\<close>

section \<open>State and environment\<close>

datatype si_work = SedTransitionWork | SedFallbackWork | RedconSleepWork | RecoveryWork | PmLogWork

record si_state = "si_work thread_base" +
  sed_transition_failed :: bool
  receiver_on_requested :: bool
  sleep_transition_requested :: bool
  sed_recovery_pending :: bool
  sed_recovery_attempts :: int
  pm_last_sleep_mode :: int
  pm_sleep_mode_changes :: "(int \<times> int) list"

record si_env =
  kernel :: "si_work kernel"
  json_obj_parse :: "bytes \<Rightarrow> int \<times> int \<times> int"
  crc32_ieee :: "bytes \<Rightarrow> u32"
  has_factory_partition :: bool
  battery_reporting :: bool
  adc_differential :: bool
  redcon_link_mode_test :: bool
  sed_recovery_test :: bool
  pm_transition_diagnostics :: bool
  srp_psa_diagnostics :: bool
  openthread_key_ids_begin :: u32

type_synonym 'a si = "(si_state, 'a) state"

definition PM_SLEEP_MODE_UNKNOWN :: int where "PM_SLEEP_MODE_UNKNOWN = - 1"
definition PM_SLEEP_MODE_CHANGE_QUEUE_DEPTH :: nat where "PM_SLEEP_MODE_CHANGE_QUEUE_DEPTH = 8"
definition SL_POWER_MANAGER_EM1 :: int where "SL_POWER_MANAGER_EM1 = 1"
definition SL_POWER_MANAGER_EM2 :: int where "SL_POWER_MANAGER_EM2 = 2"
definition TXT1_MAGIC :: bytes where "TXT1_MAGIC = [0x54, 0x58, 0x54, 0x31]"
definition TXT1_HEADER_SIZE :: nat where "TXT1_HEADER_SIZE = 10"
definition TXT1_THING_NAME_SIZE :: nat where "TXT1_THING_NAME_SIZE = 64"
definition TXT1_DATASET_TLVS_SIZE :: nat where "TXT1_DATASET_TLVS_SIZE = 254"
definition SED_FALLBACK_GRACE_SECONDS :: int where "SED_FALLBACK_GRACE_SECONDS = 20"
definition SED_REDCON_RESPONSE_GRACE_MS :: int where "SED_REDCON_RESPONSE_GRACE_MS = 100"
definition BATTERY_DIVIDER_SETTLE_MS :: int where "BATTERY_DIVIDER_SETTLE_MS = 30"
definition BATTERY_DIVIDER_RATIO :: int where "BATTERY_DIVIDER_RATIO = 2"
definition SED_RECOVERY_MAX_ATTEMPTS :: int where "SED_RECOVERY_MAX_ATTEMPTS = 3"
definition SED_RECOVERY_INITIAL_DELAY_SECONDS :: int where "SED_RECOVERY_INITIAL_DELAY_SECONDS = 5"
definition SED_RECOVERY_SECOND_DELAY_SECONDS :: int where "SED_RECOVERY_SECOND_DELAY_SECONDS = 10"
definition SED_RECOVERY_MAX_DELAY_SECONDS :: int where "SED_RECOVERY_MAX_DELAY_SECONDS = 20"

lemmas txt1_constants = TXT1_MAGIC_def TXT1_HEADER_SIZE_def TXT1_THING_NAME_SIZE_def
  TXT1_DATASET_TLVS_SIZE_def

text \<open>The name \<^verbatim>\<open>power-si-unconfigured\<close> until factory data is loaded.\<close>

definition initial_si_state :: si_state where
  "initial_si_state =
     \<lparr>calls = [], pending = {}, thing_name = ascii ''power-si-unconfigured'', dataset_tlvs = [],
      coap_port = TXING_COAP_DEFAULT_PORT, factory_valid = False, battery_available = False,
      redcon_level = TXING_REDCON_OFF, srp_instance_name = ascii ''power-si-unconfigured'',
      srp_port = TXING_COAP_DEFAULT_PORT, srp_host_address = replicate 16 0,
      srp_registration_accepted = False, sed_mode_active = False, sed_transition_failed = False,
      receiver_on_requested = False, sleep_transition_requested = False,
      sed_recovery_pending = False, sed_recovery_attempts = 0,
      pm_last_sleep_mode = PM_SLEEP_MODE_UNKNOWN, pm_sleep_mode_changes = []\<rparr>"

lemma si_log_call [simp]:
  "sed_transition_failed (log_call c r s) = sed_transition_failed s"
  "receiver_on_requested (log_call c r s) = receiver_on_requested s"
  "sleep_transition_requested (log_call c r s) = sleep_transition_requested s"
  "sed_recovery_pending (log_call c r s) = sed_recovery_pending s"
  "sed_recovery_attempts (log_call c r s) = sed_recovery_attempts s"
  "pm_last_sleep_mode (log_call c r s) = pm_last_sleep_mode s"
  "pm_sleep_mode_changes (log_call c r s) = pm_sleep_mode_changes s"
  by (simp_all add: log_call_def)

section \<open>Power-manager diagnostics\<close>

definition pm_sleep_mode_name :: "int \<Rightarrow> string" where
  "pm_sleep_mode_name mode =
     (if mode = SL_POWER_MANAGER_EM1 then ''EM1'' else if mode = SL_POWER_MANAGER_EM2 then ''EM2''
      else ''unknown'')"

text \<open>What one queue entry logs: the mode left, when it was known, and the mode entered.\<close>

definition pm_log_entry :: "int \<times> int \<Rightarrow> string option \<times> string" where
  "pm_log_entry change =
     (if fst change = PM_SLEEP_MODE_UNKNOWN then None else Some (pm_sleep_mode_name (fst change)),
      pm_sleep_mode_name (snd change))"

definition pm_transition_log_work_handler :: "(string option \<times> string) list si" where
  "pm_transition_log_work_handler = do {
     changes \<leftarrow> gets pm_sleep_mode_changes;
     modify (\<lambda>s. s\<lparr>pm_sleep_mode_changes := []\<rparr>);
     ret (map pm_log_entry changes) }"

definition pm_transition_event :: "si_env \<Rightarrow> int \<Rightarrow> unit si" where
  "pm_transition_event E entered =
     (if entered \<noteq> SL_POWER_MANAGER_EM1 \<and> entered \<noteq> SL_POWER_MANAGER_EM2 then ret ()
      else do {
        previous \<leftarrow> gets pm_last_sleep_mode;
        if previous = entered then ret ()
        else do {
          modify (\<lambda>s. s\<lparr>pm_last_sleep_mode := entered\<rparr>);
          queue \<leftarrow> gets pm_sleep_mode_changes;
          doif (length queue < PM_SLEEP_MODE_CHANGE_QUEUE_DEPTH) (do {
            modify (\<lambda>s. s\<lparr>pm_sleep_mode_changes := queue @ [(previous, entered)]\<rparr>);
            work_submit (kernel E) PmLogWork }) } })"

definition register_pm_transition_diagnostics :: "si_env \<Rightarrow> unit si" where
  "register_pm_transition_diagnostics E =
     doif (pm_transition_diagnostics E) (modify (\<lambda>s. s\<lparr>pm_last_sleep_mode := PM_SLEEP_MODE_UNKNOWN\<rparr>))"

section \<open>Factory data\<close>

definition u16_le :: "bytes \<Rightarrow> nat \<Rightarrow> u16" where
  "u16_le v i = ucast (v ! i) OR push_bit 8 (ucast (v ! (i + 1)))"

text \<open>The 32-bit variable that a flash read fills, on a little-endian processor.\<close>

definition native_u32 :: "bytes \<Rightarrow> u32" where
  "native_u32 v = ucast (v ! 0) OR push_bit 8 (ucast (v ! 1)) OR push_bit 16 (ucast (v ! 2)) OR
     push_bit 24 (ucast (v ! 3))"

definition read_factory_record :: "si_env \<Rightarrow> int si" where
  "read_factory_record E = do {
     r \<leftarrow> sys (kernel E) (Bus (FlashRead 0 TXT1_HEADER_SIZE));
     let header = buffer TXT1_HEADER_SIZE (data r);
     if code r \<noteq> 0 then ret (code r)
     else if take 4 header \<noteq> TXT1_MAGIC \<or> header ! 4 \<noteq> 1 then ret (- EINVAL)
     else do {
       let name_len = unat (header ! 5);
       let dataset_len = unat (u16_le header 6);
       let port = u16_le header 8;
       if name_len = 0 \<or> name_len > TXT1_THING_NAME_SIZE \<or> dataset_len = 0 \<or>
          dataset_len > TXT1_DATASET_TLVS_SIZE \<or> port = 0
       then ret (- EINVAL)
       else do {
         r \<leftarrow> sys (kernel E) (Bus (FlashRead TXT1_HEADER_SIZE (name_len + dataset_len)));
         let body = buffer (name_len + dataset_len) (data r);
         if code r \<noteq> 0 then ret (code r)
         else do {
           r \<leftarrow> sys (kernel E) (Bus (FlashRead (TXT1_HEADER_SIZE + name_len + dataset_len) 4));
           if code r \<noteq> 0 then ret (code r)
           else if crc32_ieee E (header @ body) \<noteq> native_u32 (buffer 4 (data r)) then ret (- EINVAL)
           else do {
             modify (\<lambda>s. s\<lparr>thing_name := takeWhile (\<lambda>b. b \<noteq> 0) (take name_len body),
               dataset_tlvs := drop name_len body, coap_port := port, factory_valid := True\<rparr>);
             ret 0 } } } } }"

definition load_factory_data :: "si_env \<Rightarrow> int si" where
  "load_factory_data E =
     (if \<not> has_factory_partition E then ret (- ENOENT)
      else do {
        rc \<leftarrow> sys_code (kernel E) (Bus FlashOpen);
        if rc \<noteq> 0 then ret rc
        else do {
          rc \<leftarrow> read_factory_record E;
          sys (kernel E) (Bus FlashClose);
          ret rc } })"

section \<open>Outputs and battery\<close>

definition set_outputs_for_redcon :: "si_env \<Rightarrow> int \<Rightarrow> int si" where
  "set_outputs_for_redcon E level = do {
     rc \<leftarrow> sys_code (kernel E) (Gpio (GpioSet PowerPin (level = TXING_REDCON_ON)));
     if rc \<noteq> 0 then ret rc
     else do {
       rc \<leftarrow> sys_code (kernel E) (Gpio (GpioSet Led (level = TXING_REDCON_ON)));
       if rc \<noteq> 0 then ret rc
       else do {
         modify (\<lambda>s. s\<lparr>redcon_level := level\<rparr>);
         ret 0 } } }"

definition init_outputs :: "si_env \<Rightarrow> int si" where
  "init_outputs E = do {
     power \<leftarrow> sys_ok (kernel E) (Driver (DeviceReady (PortOf PowerPin)));
     led \<leftarrow> (if power then sys_ok (kernel E) (Driver (DeviceReady (PortOf Led))) else ret False);
     if \<not> led then ret (- ENODEV)
     else do {
       rc \<leftarrow> sys_code (kernel E) (Gpio (GpioConfigureInactive PowerPin));
       if rc \<noteq> 0 then ret rc
       else do {
         rc \<leftarrow> sys_code (kernel E) (Gpio (GpioConfigureInactive Led));
         if rc \<noteq> 0 then ret rc
         else set_outputs_for_redcon E TXING_REDCON_OFF } } }"

definition init_battery :: "si_env \<Rightarrow> int si" where
  "init_battery E =
     (if \<not> battery_reporting E then ret 0
      else do {
        adc \<leftarrow> sys_ok (kernel E) (Driver (DeviceReady BatteryAdc));
        enable \<leftarrow> (if adc then sys_ok (kernel E) (Driver (DeviceReady (PortOf BatteryEnable)))
                  else ret False);
        if \<not> enable then ret (- ENODEV)
        else do {
          rc \<leftarrow> sys_code (kernel E) (Gpio (GpioConfigureInactive BatteryEnable));
          if rc \<noteq> 0 then ret rc
          else do {
            rc \<leftarrow> sys_code (kernel E) (Driver AdcChannelSetup);
            if rc \<noteq> 0 then ret rc
            else do {
              rc \<leftarrow> sys_code (kernel E) (Driver PmSuspend);
              if rc \<noteq> 0 \<and> rc \<noteq> - EALREADY then ret rc
              else do {
                modify (\<lambda>s. s\<lparr>battery_available := True\<rparr>);
                ret 0 } } } } })"

text \<open>The part of \<^verbatim>\<open>sample_battery_mv\<close> between the resumed converter and the label \<^verbatim>\<open>out\<close>.\<close>

definition convert_battery :: "si_env \<Rightarrow> u16 option si" where
  "convert_battery E = do {
     rc \<leftarrow> sys_code (kernel E) (Gpio (GpioSet BatteryEnable True));
     if rc \<noteq> 0 then ret None
     else do {
       sys (kernel E) (Kernel (Sleep BATTERY_DIVIDER_SETTLE_MS));
       sys (kernel E) (Driver AdcSequenceInit);
       r \<leftarrow> sys (kernel E) (Driver AdcRead);
       if code r \<noteq> 0 then ret None
       else do {
         let raw = (word_of_int (out r) :: u16);
         r \<leftarrow> sys (kernel E) (Driver (AdcRawToMillivolts (if adc_differential E then sint raw else uint raw)));
         let millivolts = i32 (out r);
         if code r \<noteq> 0 \<or> millivolts < 0 then ret None
         else ret (Some (word_of_int (min (i32 (millivolts * BATTERY_DIVIDER_RATIO)) 65535))) } } }"

definition sample_battery_mv :: "si_env \<Rightarrow> u16 option si" where
  "sample_battery_mv E = do {
     available \<leftarrow> gets battery_available;
     if \<not> available then ret None
     else do {
       rc \<leftarrow> sys_code (kernel E) (Driver PmResume);
       if rc \<noteq> 0 \<and> rc \<noteq> - EALREADY then ret None
       else do {
         sampled \<leftarrow> convert_battery E;
         sys (kernel E) (Gpio (GpioSet BatteryEnable False));
         sys (kernel E) (Driver PmSuspend);
         ret sampled } } }"

section \<open>CoAP\<close>

definition thread_receiver_on_requested :: "si_env \<Rightarrow> bool si" where
  "thread_receiver_on_requested E =
     (if redcon_link_mode_test E then gets receiver_on_requested else ret False)"

definition thread_sed_mode_requested :: "si_env \<Rightarrow> bool si" where
  "thread_sed_mode_requested E = do { on \<leftarrow> thread_receiver_on_requested E; ret (\<not> on) }"

definition format_state :: "si_env \<Rightarrow> bytes si" where
  "format_state E = do {
     battery \<leftarrow> (if battery_reporting E then sample_battery_mv E else ret None);
     name \<leftarrow> gets thing_name;
     level \<leftarrow> gets redcon_level;
     ret (state_json name level battery) }"

definition response_type :: "si_env \<Rightarrow> int si" where
  "response_type E = do {
     t \<leftarrow> sys_code (kernel E) (Coap MessageType);
     ret (if t = OT_COAP_TYPE_CONFIRMABLE then OT_COAP_TYPE_ACKNOWLEDGMENT
          else OT_COAP_TYPE_NON_CONFIRMABLE) }"

definition append_payload :: "si_env \<Rightarrow> bytes option \<Rightarrow> int si" where
  "append_payload E payload =
     (case payload of None \<Rightarrow> ret OT_ERROR_NONE
      | Some text \<Rightarrow> do {
          error \<leftarrow> sys_code (kernel E) (Coap AppendContentFormat);
          if error \<noteq> OT_ERROR_NONE then ret error
          else do {
            error \<leftarrow> sys_code (kernel E) (Coap SetPayloadMarker);
            if error \<noteq> OT_ERROR_NONE then ret error
            else sys_code (kernel E) (Coap (MessageAppend text)) } })"

definition send_response :: "si_env \<Rightarrow> int \<Rightarrow> bytes option \<Rightarrow> unit si" where
  "send_response E coap_code payload = do {
     sys (kernel E) (Ot OtInstance);
     response \<leftarrow> sys_ok (kernel E) (Coap NewMessage);
     if \<not> response then ret ()
     else do {
       t \<leftarrow> response_type E;
       error \<leftarrow> sys_code (kernel E) (Coap (InitResponse t coap_code));
       error \<leftarrow> (if error \<noteq> OT_ERROR_NONE then ret error else append_payload E payload);
       error \<leftarrow> (if error \<noteq> OT_ERROR_NONE then ret error
                 else sys_code (kernel E) (Coap SendResponse));
       doif (error \<noteq> OT_ERROR_NONE) (sys_void (kernel E) (Coap MessageFree)) } }"

definition send_state_response :: "si_env \<Rightarrow> int \<Rightarrow> unit si" where
  "send_state_response E coap_code = do {
     json \<leftarrow> format_state E;
     if length json \<ge> STATE_JSON_SIZE then send_response E OT_COAP_CODE_INTERNAL_ERROR None
     else send_response E coap_code (Some json) }"

definition state_handler :: "si_env \<Rightarrow> unit si" where
  "state_handler E = do {
     mcode \<leftarrow> sys_code (kernel E) (Coap MessageCode);
     if mcode \<noteq> OT_COAP_CODE_GET then send_response E OT_COAP_CODE_METHOD_NOT_ALLOWED None
     else send_state_response E OT_COAP_CODE_CONTENT }"

definition parse_redcon_request :: "si_env \<Rightarrow> (int \<times> int) option si" where
  "parse_redcon_request E = do {
     o1 \<leftarrow> sys (kernel E) (Coap MessageOffset);
     l1 \<leftarrow> sys (kernel E) (Coap MessageLength);
     let offset = (word_of_int (out o1) :: u16);
     let len = (word_of_int (out l1) :: u16) - offset;
     if len = 0 \<or> unat len \<ge> REQUEST_JSON_SIZE then ret None
     else do {
       r \<leftarrow> sys (kernel E) (Coap (MessageRead (unat offset) (unat len)));
       if code r \<noteq> int (unat len) then ret None
       else case json_obj_parse E (buffer (unat len) (data r)) of
              (found, version, redcon) \<Rightarrow> ret (if found = 3 then Some (version, redcon) else None) } }"

section \<open>Thread mode\<close>

definition configure_thread_mtd_mode_locked :: "si_env \<Rightarrow> bool \<Rightarrow> int si" where
  "configure_thread_mtd_mode_locked E receiver_on_when_idle = do {
     sys (kernel E) (Ot OtGetRxOnWhenIdle);
     error \<leftarrow> sys_code (kernel E) (Ot (OtSetLinkMode receiver_on_when_idle));
     if error \<noteq> OT_ERROR_NONE then ret (- EIO)
     else do {
       error \<leftarrow> sys_code (kernel E) (Ot OtSetPollPeriod);
       ret (if error \<noteq> OT_ERROR_NONE then - EIO else 0) } }"

definition configure_thread_bootstrap_mode_locked :: "si_env \<Rightarrow> int si" where
  "configure_thread_bootstrap_mode_locked E = configure_thread_mtd_mode_locked E True"

definition configure_thread_sed_mode_locked :: "si_env \<Rightarrow> int si" where
  "configure_thread_sed_mode_locked E = configure_thread_mtd_mode_locked E False"

definition configure_thread_receiver_on_mode_locked :: "si_env \<Rightarrow> int si" where
  "configure_thread_receiver_on_mode_locked E = configure_thread_mtd_mode_locked E True"

definition restart_thread_with_config_locked :: "si_env \<Rightarrow> int si \<Rightarrow> int si" where
  "restart_thread_with_config_locked E configure = do {
     error \<leftarrow> sys_code (kernel E) (Ot (OtSetEnabled False));
     if error \<noteq> OT_ERROR_NONE \<and> error \<noteq> OT_ERROR_INVALID_STATE then ret (- EIO)
     else do {
       rc \<leftarrow> configure;
       if rc \<noteq> 0 then ret rc
       else do {
         error \<leftarrow> sys_code (kernel E) (Ot (OtSetEnabled True));
         ret (if error \<noteq> OT_ERROR_NONE then - EIO else 0) } } }"

definition switch_thread_to_sed_mode_locked :: "si_env \<Rightarrow> int si" where
  "switch_thread_to_sed_mode_locked E = configure_thread_sed_mode_locked E"

definition restart_thread_in_bootstrap_mode_locked :: "si_env \<Rightarrow> int si" where
  "restart_thread_in_bootstrap_mode_locked E =
     restart_thread_with_config_locked E (configure_thread_bootstrap_mode_locked E)"

definition restart_thread_in_requested_mode_locked :: "si_env \<Rightarrow> int si" where
  "restart_thread_in_requested_mode_locked E = do {
     on \<leftarrow> thread_receiver_on_requested E;
     if redcon_link_mode_test E \<and> on
     then restart_thread_with_config_locked E (configure_thread_receiver_on_mode_locked E)
     else restart_thread_with_config_locked E (configure_thread_sed_mode_locked E) }"

text \<open>What follows a mode change that OpenThread accepted.\<close>

definition reset_sed_recovery :: "si_env \<Rightarrow> unit si" where
  "reset_sed_recovery E = doif (sed_recovery_test E)
     (modify (\<lambda>s. s\<lparr>sed_recovery_pending := False, sed_recovery_attempts := 0\<rparr>))"

definition settle_redcon_thread_mode :: "si_env \<Rightarrow> bool \<Rightarrow> unit si" where
  "settle_redcon_thread_mode E receiver_on_when_idle = do {
     modify (\<lambda>s. s\<lparr>sed_mode_active := True, sed_transition_failed := False\<rparr>);
     if receiver_on_when_idle then do {
       work_cancel (kernel E) SedTransitionWork;
       work_cancel (kernel E) SedFallbackWork;
       doif (sed_recovery_test E) (work_cancel (kernel E) RecoveryWork);
       reset_sed_recovery E }
     else work_schedule (kernel E) SedFallbackWork (SED_FALLBACK_GRACE_SECONDS * 1000) }"

definition apply_sed_debug_redcon_thread_mode :: "si_env \<Rightarrow> int \<Rightarrow> int si" where
  "apply_sed_debug_redcon_thread_mode E redcon = do {
     ot \<leftarrow> sys_ok (kernel E) (Ot OtInstance);
     previous_receiver_on \<leftarrow> gets receiver_on_requested;
     if \<not> ot then ret (- ENODEV)
     else do {
       modify (\<lambda>s. s\<lparr>receiver_on_requested := (redcon = TXING_REDCON_ON)\<rparr>);
       rc \<leftarrow> (if redcon = TXING_REDCON_ON then configure_thread_receiver_on_mode_locked E
              else configure_thread_mtd_mode_locked E False);
       if rc \<noteq> 0 then do {
         modify (\<lambda>s. s\<lparr>receiver_on_requested := previous_receiver_on\<rparr>);
         ret rc }
       else do {
         settle_redcon_thread_mode E (redcon = TXING_REDCON_ON);
         ret 0 } } }"

section \<open>Level requests\<close>

definition enter_redcon_on :: "si_env \<Rightarrow> int \<Rightarrow> unit si" where
  "enter_redcon_on E previous_redcon = do {
     modify (\<lambda>s. s\<lparr>sleep_transition_requested := False\<rparr>);
     work_cancel (kernel E) RedconSleepWork;
     rc \<leftarrow> apply_sed_debug_redcon_thread_mode E TXING_REDCON_ON;
     if rc \<noteq> 0 then do {
       set_outputs_for_redcon E previous_redcon;
       send_response E OT_COAP_CODE_INTERNAL_ERROR None }
     else send_state_response E OT_COAP_CODE_CHANGED }"

definition enter_redcon_off :: "si_env \<Rightarrow> unit si" where
  "enter_redcon_off E = do {
     modify (\<lambda>s. s\<lparr>sleep_transition_requested := True\<rparr>);
     send_state_response E OT_COAP_CODE_CHANGED;
     work_schedule (kernel E) RedconSleepWork SED_REDCON_RESPONSE_GRACE_MS }"

definition apply_redcon :: "si_env \<Rightarrow> int \<Rightarrow> unit si" where
  "apply_redcon E redcon = do {
     previous_redcon \<leftarrow> gets redcon_level;
     rc \<leftarrow> set_outputs_for_redcon E redcon;
     if rc \<noteq> 0 then send_response E OT_COAP_CODE_INTERNAL_ERROR None
     else if \<not> redcon_link_mode_test E then send_state_response E OT_COAP_CODE_CHANGED
     else if redcon = TXING_REDCON_ON then enter_redcon_on E previous_redcon
     else enter_redcon_off E }"

definition redcon_handler :: "si_env \<Rightarrow> unit si" where
  "redcon_handler E = do {
     mcode \<leftarrow> sys_code (kernel E) (Coap MessageCode);
     if mcode \<noteq> OT_COAP_CODE_PUT then send_response E OT_COAP_CODE_METHOD_NOT_ALLOWED None
     else do {
       request \<leftarrow> parse_redcon_request E;
       case request of None \<Rightarrow> send_response E OT_COAP_CODE_BAD_REQUEST None
       | Some (version, redcon) \<Rightarrow>
         if version \<noteq> TXING_PROTOCOL_VERSION \<or> redcon \<noteq> TXING_REDCON_ON \<and> redcon \<noteq> TXING_REDCON_OFF
         then send_response E OT_COAP_CODE_BAD_REQUEST None
         else apply_redcon E redcon } }"

definition sed_debug_redcon_sleep_work_handler :: "si_env \<Rightarrow> unit si" where
  "sed_debug_redcon_sleep_work_handler E = do {
     requested \<leftarrow> gets sleep_transition_requested;
     if \<not> requested then ret ()
     else do {
       modify (\<lambda>s. s\<lparr>sleep_transition_requested := False\<rparr>);
       ot \<leftarrow> sys_ok (kernel E) (Ot OtInstance);
       if \<not> ot then ret ()
       else do {
         apply_sed_debug_redcon_thread_mode E TXING_REDCON_OFF;
         ret () } } }"

section \<open>Recovery, transition and fallback\<close>

definition sed_recovery_delay_seconds :: "int \<Rightarrow> int" where
  "sed_recovery_delay_seconds completed_attempts =
     (if completed_attempts \<le> 0 then SED_RECOVERY_INITIAL_DELAY_SECONDS
      else if completed_attempts = 1 then SED_RECOVERY_SECOND_DELAY_SECONDS
      else SED_RECOVERY_MAX_DELAY_SECONDS)"

definition abandon_sed_recovery :: "unit si" where
  "abandon_sed_recovery = modify (\<lambda>s. s\<lparr>sed_transition_failed := True, sed_recovery_pending := False\<rparr>)"

text \<open>The role and mode that \<^verbatim>\<open>schedule_sed_recovery\<close> receives are only logged.\<close>

definition schedule_sed_recovery :: "si_env \<Rightarrow> unit si" where
  "schedule_sed_recovery E = do {
     completed_attempts \<leftarrow> gets sed_recovery_attempts;
     if completed_attempts \<ge> SED_RECOVERY_MAX_ATTEMPTS then abandon_sed_recovery
     else do {
       already \<leftarrow> gets sed_recovery_pending;
       if already then ret ()
       else do {
         modify (\<lambda>s. s\<lparr>sed_recovery_pending := True\<rparr>);
         work_schedule (kernel E) RecoveryWork (sed_recovery_delay_seconds completed_attempts * 1000) } } }"

text \<open>Whether the device is attached in the requested mode.\<close>

definition attached_as_requested :: "si_env \<Rightarrow> bool si" where
  "attached_as_requested E = do {
     role \<leftarrow> sys_code (kernel E) (Ot OtDeviceRole);
     rx_on \<leftarrow> sys_ok (kernel E) (Ot OtGetRxOnWhenIdle);
     receiver_on_expected \<leftarrow> thread_receiver_on_requested E;
     ret (role = OT_DEVICE_ROLE_CHILD \<and> rx_on = receiver_on_expected) }"

definition attempt_sed_recovery :: "si_env \<Rightarrow> unit si" where
  "attempt_sed_recovery E = do {
     modify (\<lambda>s. s\<lparr>sed_recovery_attempts := sed_recovery_attempts s + 1\<rparr>);
     rc \<leftarrow> restart_thread_in_requested_mode_locked E;
     if rc = 0 then work_schedule (kernel E) SedFallbackWork (SED_FALLBACK_GRACE_SECONDS * 1000)
     else schedule_sed_recovery E }"

definition sed_recovery_work_handler :: "si_env \<Rightarrow> unit si" where
  "sed_recovery_work_handler E = do {
     modify (\<lambda>s. s\<lparr>sed_recovery_pending := False\<rparr>);
     active \<leftarrow> gets sed_mode_active;
     failed \<leftarrow> gets sed_transition_failed;
     if \<not> active \<or> failed then ret ()
     else do {
       ot \<leftarrow> sys_ok (kernel E) (Ot OtInstance);
       if \<not> ot then schedule_sed_recovery E
       else do {
         attached \<leftarrow> attached_as_requested E;
         if attached then modify (\<lambda>s. s\<lparr>sed_recovery_attempts := 0\<rparr>)
         else attempt_sed_recovery E } } }"

definition schedule_sed_transition_if_ready :: "si_env \<Rightarrow> int \<Rightarrow> unit si" where
  "schedule_sed_transition_if_ready E role = do {
     requested \<leftarrow> thread_sed_mode_requested E;
     accepted \<leftarrow> gets srp_registration_accepted;
     active \<leftarrow> gets sed_mode_active;
     failed \<leftarrow> gets sed_transition_failed;
     doif (requested \<and> role = OT_DEVICE_ROLE_CHILD \<and> accepted \<and> \<not> active \<and> \<not> failed)
       (work_schedule (kernel E) SedTransitionWork 0) }"

text \<open>The switch of an attached device, with its two outcomes.\<close>

definition enter_sed_mode :: "si_env \<Rightarrow> unit si" where
  "enter_sed_mode E = do {
     rc \<leftarrow> switch_thread_to_sed_mode_locked E;
     if rc = 0 then do {
       modify (\<lambda>s. s\<lparr>sed_mode_active := True\<rparr>);
       reset_sed_recovery E;
       work_schedule (kernel E) SedFallbackWork (SED_FALLBACK_GRACE_SECONDS * 1000) }
     else work_schedule (kernel E) SedTransitionWork 5000 }"

definition sed_transition_work_handler :: "si_env \<Rightarrow> unit si" where
  "sed_transition_work_handler E = do {
     requested \<leftarrow> thread_sed_mode_requested E;
     accepted \<leftarrow> gets srp_registration_accepted;
     active \<leftarrow> gets sed_mode_active;
     if \<not> requested \<or> \<not> accepted \<or> active then ret ()
     else do {
       ot \<leftarrow> sys_ok (kernel E) (Ot OtInstance);
       if \<not> ot then work_schedule (kernel E) SedTransitionWork 1000
       else do {
         role \<leftarrow> sys_code (kernel E) (Ot OtDeviceRole);
         if role \<noteq> OT_DEVICE_ROLE_CHILD then work_schedule (kernel E) SedTransitionWork 1000
         else enter_sed_mode E } } }"

text \<open>Giving the sleepy mode up, in the builds without recovery.\<close>

definition revert_to_bootstrap :: "si_env \<Rightarrow> unit si" where
  "revert_to_bootstrap E = do {
     modify (\<lambda>s. s\<lparr>sed_mode_active := False, sed_transition_failed := True\<rparr>);
     rc \<leftarrow> restart_thread_in_bootstrap_mode_locked E;
     if rc = 0 then ret ()
     else do {
       modify (\<lambda>s. s\<lparr>sed_mode_active := True, sed_transition_failed := False\<rparr>);
       work_schedule (kernel E) SedFallbackWork 5000 } }"

definition sed_fallback_work_handler :: "si_env \<Rightarrow> unit si" where
  "sed_fallback_work_handler E = do {
     active \<leftarrow> gets sed_mode_active;
     failed \<leftarrow> gets sed_transition_failed;
     if \<not> active \<or> failed then ret ()
     else do {
       ot \<leftarrow> sys_ok (kernel E) (Ot OtInstance);
       if \<not> ot then work_schedule (kernel E) SedFallbackWork 5000
       else do {
         attached \<leftarrow> attached_as_requested E;
         if attached then reset_sed_recovery E
         else if sed_recovery_test E then schedule_sed_recovery E
         else revert_to_bootstrap E } } }"

section \<open>Callbacks\<close>

definition srp_client_callback :: "si_env \<Rightarrow> int \<Rightarrow> unit si" where
  "srp_client_callback E error =
     doif (error = OT_ERROR_NONE) (do {
       modify (\<lambda>s. s\<lparr>srp_registration_accepted := True\<rparr>);
       requested \<leftarrow> thread_sed_mode_requested E;
       active \<leftarrow> gets sed_mode_active;
       failed \<leftarrow> gets sed_transition_failed;
       doif (requested \<and> \<not> active \<and> \<not> failed) (work_schedule (kernel E) SedTransitionWork 500) })"

definition thread_state_changed :: "si_env \<Rightarrow> unit si" where
  "thread_state_changed E = do {
     role \<leftarrow> sys_code (kernel E) (Ot OtDeviceRole);
     active \<leftarrow> gets sed_mode_active;
     failed \<leftarrow> gets sed_transition_failed;
     doif (active \<and> \<not> failed \<and> role \<noteq> OT_DEVICE_ROLE_CHILD)
       (work_schedule (kernel E) SedFallbackWork (SED_FALLBACK_GRACE_SECONDS * 1000));
     schedule_sed_transition_if_ready E role }"

section \<open>Startup\<close>

definition start_coap :: "si_env \<Rightarrow> int si" where
  "start_coap E = do {
     port \<leftarrow> gets coap_port;
     error \<leftarrow> sys_code (kernel E) (Ot (OtCoapStart port));
     if error \<noteq> OT_ERROR_NONE then ret (- EIO)
     else do {
       sys (kernel E) (Ot (OtCoapAddResource ''txing/v1/state''));
       sys (kernel E) (Ot (OtCoapAddResource ''txing/v1/redcon''));
       ret 0 } }"

definition set_srp_host_address :: "si_env \<Rightarrow> int si" where
  "set_srp_host_address E = do {
     r \<leftarrow> sys (kernel E) (Ot OtMeshLocalEid);
     if code r = 0 then ret OT_ERROR_INVALID_STATE
     else do {
       modify (\<lambda>s. s\<lparr>srp_host_address := buffer 16 (data r)\<rparr>);
       sys_code (kernel E) (Ot (OtSrpSetHostAddress (buffer 16 (data r)))) } }"

definition start_srp :: "si_env \<Rightarrow> int si" where
  "start_srp E = do {
     modify (\<lambda>s. s\<lparr>srp_instance_name := thing_name s, srp_port := coap_port s\<rparr>);
     sys (kernel E) (Ot OtSrpSetCallback);
     name \<leftarrow> gets thing_name;
     port \<leftarrow> gets srp_port;
     error \<leftarrow> sys_code (kernel E) (Ot (OtSrpSetHostName name));
     if error \<noteq> OT_ERROR_NONE then ret (- EIO)
     else do {
       error \<leftarrow> set_srp_host_address E;
       if error \<noteq> OT_ERROR_NONE then ret (- EIO)
       else do {
         error \<leftarrow> sys_code (kernel E) (Ot (OtSrpAddService name port));
         if error \<noteq> OT_ERROR_NONE \<and> error \<noteq> OT_ERROR_ALREADY then ret (- EIO)
         else do {
           sys (kernel E) (Ot OtSrpEnableAutoStart);
           ret 0 } } } }"

definition reset_thread_flags :: "si_env \<Rightarrow> unit si" where
  "reset_thread_flags E = do {
     modify (\<lambda>s. s\<lparr>srp_registration_accepted := False, sed_mode_active := False,
       sed_transition_failed := False\<rparr>);
     doif (redcon_link_mode_test E)
       (modify (\<lambda>s. s\<lparr>receiver_on_requested := False, sleep_transition_requested := False\<rparr>));
     reset_sed_recovery E }"

definition start_thread :: "si_env \<Rightarrow> int si" where
  "start_thread E = do {
     valid \<leftarrow> gets factory_valid;
     if \<not> valid then ret (- EINVAL)
     else do {
       tlvs \<leftarrow> gets dataset_tlvs;
       error \<leftarrow> sys_code (kernel E) (Ot (OtDatasetSetActive tlvs));
       if error \<noteq> OT_ERROR_NONE then ret (- EIO)
       else do {
         reset_thread_flags E;
         rc \<leftarrow> configure_thread_bootstrap_mode_locked E;
         if rc \<noteq> 0 then ret (- EIO)
         else do {
           error \<leftarrow> sys_code (kernel E) (Ot OtIp6SetEnabled);
           if error \<noteq> OT_ERROR_NONE then ret (- EIO)
           else do {
             error \<leftarrow> sys_code (kernel E) (Ot (OtSetEnabled True));
             ret (if error \<noteq> OT_ERROR_NONE then - EIO else 0) } } } } }"

section \<open>Key store diagnostics\<close>

text \<open>
  The status values are those of the PSA Crypto API; what a function logs is its result, as pairs of
  an operation and a status.
\<close>

definition psa_status_label :: "int \<Rightarrow> string" where
  "psa_status_label status =
     (if status = 0 then ''SUCCESS'' else if status = - 139 then ''ALREADY_EXISTS''
      else if status = - 138 then ''BUFFER_TOO_SMALL'' else if status = - 140 then ''DOES_NOT_EXIST''
      else if status = - 135 then ''INVALID_ARGUMENT'' else if status = - 136 then ''INVALID_HANDLE''
      else if status = - 141 then ''INSUFFICIENT_MEMORY'' else if status = - 133 then ''NOT_PERMITTED''
      else if status = - 134 then ''NOT_SUPPORTED'' else if status = - 146 then ''STORAGE_FAILURE''
      else ''OTHER'')"

definition log_psa_status :: "string \<Rightarrow> int \<Rightarrow> string \<times> string" where
  "log_psa_status operation status = (operation, psa_status_label status)"

definition log_psa_key_attributes :: "si_env \<Rightarrow> u32 \<Rightarrow> (string \<times> string) list si" where
  "log_psa_key_attributes E key_id = do {
     status \<leftarrow> sys_code (kernel E) (Psa (PsaGetKeyAttributes key_id));
     ret [log_psa_status ''get-key-attributes'' status] }"

definition probe_psa_key_operations :: "si_env \<Rightarrow> u32 \<Rightarrow> string \<Rightarrow> (string \<times> string) list si" where
  "probe_psa_key_operations E key_id label = do {
     exported \<leftarrow> sys_code (kernel E) (Psa (PsaExportPublicKey key_id));
     signed \<leftarrow> sys_code (kernel E) (Psa (PsaSignHash key_id));
     ret [log_psa_status (label @ '' export-public'') exported,
          log_psa_status (label @ '' sign-hash'') signed] }"

definition probe_volatile_psa_key :: "si_env \<Rightarrow> (string \<times> string) list si" where
  "probe_volatile_psa_key E = do {
     r \<leftarrow> sys (kernel E) (Psa PsaGenerateKey);
     let generated = log_psa_status ''volatile-generate'' (code r);
     if code r \<noteq> 0 then ret [generated]
     else do {
       let key_id = word_of_int (out r);
       probed \<leftarrow> probe_psa_key_operations E key_id ''volatile'';
       destroyed \<leftarrow> sys_code (kernel E) (Psa (PsaDestroyKey key_id));
       ret (generated # probed @ [log_psa_status ''volatile-destroy'' destroyed]) } }"

definition log_srp_psa_diagnostics :: "si_env \<Rightarrow> (string \<times> string) list si" where
  "log_srp_psa_diagnostics E =
     (if \<not> srp_psa_diagnostics E then ret []
      else do {
        let key_id = openthread_key_ids_begin E + 7;
        volatile \<leftarrow> probe_volatile_psa_key E;
        before \<leftarrow> log_psa_key_attributes E key_id;
        sys (kernel E) (Psa (EcdsaGenerateAndImportKey key_id));
        imported \<leftarrow> log_psa_key_attributes E key_id;
        probed \<leftarrow> probe_psa_key_operations E key_id ''persistent'';
        ret (volatile @ before @ imported @ probed) })"

section \<open>The program\<close>

definition start_services :: "si_env \<Rightarrow> int si" where
  "start_services E = do {
     rc \<leftarrow> start_thread E;
     if rc \<noteq> 0 then ret rc
     else do {
       rc \<leftarrow> start_coap E;
       if rc \<noteq> 0 then ret rc else start_srp E } }"

text \<open>\<open>None\<close> stands for the endless loop at the end of \<^verbatim>\<open>main\<close>; it is reached even when the services
  do not start.\<close>

definition run_services :: "si_env \<Rightarrow> int option si" where
  "run_services E = do {
     init_battery E;
     ot \<leftarrow> sys_ok (kernel E) (Ot OtInstance);
     if \<not> ot then ret (Some (- ENODEV))
     else do {
       sys (kernel E) (Ot OtRegisterStateCallback);
       log_srp_psa_diagnostics E;
       start_services E;
       register_pm_transition_diagnostics E;
       ret None } }"

definition si_main :: "si_env \<Rightarrow> int option si" where
  "si_main E = do {
     load_factory_data E;
     rc \<leftarrow> init_outputs E;
     if rc \<noteq> 0 then ret (Some rc) else run_services E }"

datatype si_event = CoapRedcon | CoapState | SrpCallback int | SrpAutostart | StateChanged
  | PmTransition int | RunWork si_work

definition work_handler :: "si_env \<Rightarrow> si_work \<Rightarrow> unit si" where
  "work_handler E w =
     (case w of
        SedTransitionWork \<Rightarrow> sed_transition_work_handler E
      | SedFallbackWork \<Rightarrow> sed_fallback_work_handler E
      | RedconSleepWork \<Rightarrow> sed_debug_redcon_sleep_work_handler E
      | RecoveryWork \<Rightarrow> sed_recovery_work_handler E
      | PmLogWork \<Rightarrow> do { pm_transition_log_work_handler; ret () })"

fun si_handler :: "si_env \<Rightarrow> si_event \<Rightarrow> unit si" where
  "si_handler E CoapRedcon = redcon_handler E"
| "si_handler E CoapState = state_handler E"
| "si_handler E (SrpCallback error) = srp_client_callback E error"
| "si_handler E SrpAutostart = ret ()"
| "si_handler E StateChanged = thread_state_changed E"
| "si_handler E (PmTransition entered) = doif (pm_transition_diagnostics E) (pm_transition_event E entered)"
| "si_handler E (RunWork w) = work_handler E w"

inductive si_step :: "si_env \<Rightarrow> si_state \<Rightarrow> si_event \<Rightarrow> si_state \<Rightarrow> bool" for E where
  callback: "\<forall>w. ev \<noteq> RunWork w \<Longrightarrow> run_state (si_handler E ev) s = ((), t) \<Longrightarrow> si_step E s ev t"
| work: "w \<in> pending s \<Longrightarrow>
     run_state (si_handler E (RunWork w)) (s\<lparr>pending := pending s - {w}\<rparr>) = ((), t) \<Longrightarrow>
     si_step E s (RunWork w) t"

definition si_started :: "si_env \<Rightarrow> si_state \<Rightarrow> bool" where
  "si_started E s \<longleftrightarrow> run_state (si_main E) initial_si_state = (None, s)"

end
