(* ===== verification/PowerSiLife.thy ===== *)
theory PowerSiLife
  imports PowerSi
begin

text \<open>
  The life of a power-si device: invariants of the firmware of \<open>PowerSi\<close> that hold after every
  sequence of requests, callbacks and work items, in every build the options select.
\<close>

section \<open>Steps\<close>

lemmas si_work_defs = work_schedule_def work_cancel_def work_submit_def

lemma si_step_keeps:
  assumes "si_step E s ev t"
    and "\<And>ev. \<forall>w. ev \<noteq> RunWork w \<Longrightarrow> wp (si_handler E ev) (\<lambda>_. I) s"
    and "\<And>w. w \<in> pending s \<Longrightarrow> wp (work_handler E w) (\<lambda>_. I) (s\<lparr>pending := pending s - {w}\<rparr>)"
  shows "I t"
  using assms(1)
proof cases
  case callback
  from wpD [OF assms(2) [OF callback(1)] callback(2)] show ?thesis .
next
  case (work w)
  from wpD [OF assms(3) [OF work(2)]] work(3) show ?thesis by simp
qed

section \<open>Quiet computations\<close>

lemma si_quiet_response [calls_rules]:
  "only_calls quiet_call (response_type E)" "only_calls quiet_call (append_payload E payload)"
  unfolding response_type_def append_payload_def by (intro calls_rules only_calls_calls; simp)+

lemma si_quiet_send [calls_rules]: "only_calls quiet_call (send_response E cc payload)"
  unfolding send_response_def by (intro calls_rules only_calls_calls; simp)

lemma si_quiet_sample [calls_rules]: "only_calls quiet_call (sample_battery_mv E)"
  unfolding sample_battery_mv_def convert_battery_def Let_def by (intro calls_rules only_calls_calls; simp)

lemma si_quiet_send_state [calls_rules]: "only_calls quiet_call (send_state_response E cc)"
  unfolding send_state_response_def format_state_def by (intro calls_rules only_calls_calls; simp)

lemma si_quiet_parse [calls_rules]: "only_calls quiet_call (parse_redcon_request E)"
  unfolding parse_redcon_request_def Let_def by (intro calls_rules only_calls_calls; simp)

text \<open>An invariant that answering a request cannot break.\<close>

definition unheard :: "(si_state \<Rightarrow> bool) \<Rightarrow> bool" where
  "unheard I \<longleftrightarrow> (\<forall>s cs. I s \<longrightarrow> list_all (\<lambda>c. quiet_call (fst c)) cs \<longrightarrow> I (s\<lparr>calls := calls s @ cs\<rparr>))"

lemma unheard_quiet: "unheard I \<Longrightarrow> only_calls quiet_call m \<Longrightarrow> keeps I m"
  by (rule only_calls_keeps) (auto simp: unheard_def)

lemma unheard_answers:
  assumes "unheard I"
  shows "keeps I (send_response E cc payload)" "keeps I (send_state_response E cc)"
    "keeps I (parse_redcon_request E)" "keeps I (state_handler E)" "keeps I (sys_code k (Coap c))"
    "keeps I (sys_ok k (Ot OtInstance))"
  unfolding state_handler_def
  by (intro unheard_quiet [OF assms] calls_rules only_calls_calls; simp)+

lemma redcon_handler_unheard:
  assumes "unheard I"
    and "\<And>redcon. redcon = TXING_REDCON_ON \<or> redcon = TXING_REDCON_OFF \<Longrightarrow> keeps I (apply_redcon E redcon)"
  shows "keeps I (redcon_handler E)"
proof -
  have req: "keeps I (if version \<noteq> TXING_PROTOCOL_VERSION \<or> redcon \<noteq> TXING_REDCON_ON \<and> redcon \<noteq> TXING_REDCON_OFF
         then send_response E OT_COAP_CODE_BAD_REQUEST None else apply_redcon E redcon)" for version redcon
    using assms(2) [of redcon] unheard_answers(1) [OF assms(1)] by simp
  note ans = unheard_answers [OF assms(1)]
  show ?thesis
    unfolding redcon_handler_def
    by (rule keeps_bind [OF ans(5)], rule keeps_if [OF ans(1)], rule keeps_bind [OF ans(3)],
        rule keeps_option [OF ans(1)], rule keeps_prod, rule req)
qed

lemma receiver_on_wp [fw_simps]:
  "wp (thread_receiver_on_requested E) Q s = Q (redcon_link_mode_test E \<and> receiver_on_requested s) s"
  by (auto simp: thread_receiver_on_requested_def fw_simps)

lemma sed_requested_wp [fw_simps]:
  "wp (thread_sed_mode_requested E) Q s = Q (\<not> (redcon_link_mode_test E \<and> receiver_on_requested s)) s"
  by (simp add: thread_sed_mode_requested_def fw_simps)

text \<open>Setting the outputs changes nothing but the level, and that only when it succeeds.\<close>

lemma si_set_outputs_cases:
  "wp (set_outputs_for_redcon E level) (\<lambda>rc t. \<exists>cs. t = s\<lparr>calls := calls s @ cs,
     redcon_level := (if rc = 0 then level else redcon_level s)\<rparr> \<and>
     link_mode (calls t) = link_mode (calls s)) s"
  by (auto simp: set_outputs_for_redcon_def fw_simps log_call_def)

section \<open>Bookkeeping\<close>

definition si_ok :: "si_env \<Rightarrow> si_state \<Rightarrow> bool" where
  "si_ok E s \<longleftrightarrow>
     (redcon_level s = TXING_REDCON_ON \<or> redcon_level s = TXING_REDCON_OFF) \<and>
     0 \<le> sed_recovery_attempts s \<and> sed_recovery_attempts s \<le> SED_RECOVERY_MAX_ATTEMPTS \<and>
     (RecoveryWork \<in> pending s \<longrightarrow> sed_recovery_attempts s < SED_RECOVERY_MAX_ATTEMPTS) \<and>
     (sed_recovery_pending s \<longrightarrow> RecoveryWork \<in> pending s) \<and>
     (sleep_transition_requested s \<longrightarrow> redcon_link_mode_test E \<and> redcon_level s = TXING_REDCON_OFF) \<and>
     length (pm_sleep_mode_changes s) \<le> PM_SLEEP_MODE_CHANGE_QUEUE_DEPTH \<and>
     (pm_sleep_mode_changes s \<noteq> [] \<longrightarrow> PmLogWork \<in> pending s)"

lemma si_ok_unheard: "unheard (si_ok E)"
  by (simp add: unheard_def si_ok_def)

lemma si_ok_sys:
  "keeps (si_ok E) (sys k c)" "keeps (si_ok E) (sys_code k c)" "keeps (si_ok E) (sys_ok k c)"
  "keeps (si_ok E) (sys_void k c)" "w \<noteq> RecoveryWork \<Longrightarrow> keeps (si_ok E) (work_schedule k w ms)"
  by (auto simp: keeps_def fw_simps si_work_defs si_ok_def)

lemma si_ok_modify:
  "(\<And>s. redcon_level (f s) = redcon_level s \<and> pending (f s) = pending s \<and>
     sed_recovery_attempts (f s) = sed_recovery_attempts s \<and>
     sed_recovery_pending (f s) = sed_recovery_pending s \<and>
     (sleep_transition_requested (f s) \<longrightarrow> sleep_transition_requested s) \<and>
     pm_sleep_mode_changes (f s) = pm_sleep_mode_changes s) \<Longrightarrow> keeps (si_ok E) (modify f)"
  by (auto simp: keeps_def fw_simps si_ok_def)

lemma si_ok_reset: "keeps (si_ok E) (reset_sed_recovery E')"
  by (auto simp: keeps_def reset_sed_recovery_def fw_simps si_ok_def SED_RECOVERY_MAX_ATTEMPTS_def)

lemma si_ok_schedule: "keeps (si_ok E) (schedule_sed_recovery E')"
  by (auto simp: keeps_def schedule_sed_recovery_def abandon_sed_recovery_def fw_simps si_work_defs si_ok_def)

lemma si_ok_gets: "keeps (si_ok E) (thread_receiver_on_requested E')" "keeps (si_ok E) (thread_sed_mode_requested E')"
  by (simp_all add: keeps_def fw_simps)

lemmas si_ok_rules = keeps_bind keeps_if keeps_doif keeps_return keeps_gets si_ok_sys si_ok_modify
  si_ok_reset si_ok_schedule si_ok_gets

lemma si_ok_configure: "keeps (si_ok E) (configure_thread_mtd_mode_locked E' on)"
  unfolding configure_thread_mtd_mode_locked_def by (intro si_ok_rules)

lemmas configure_modes = configure_thread_bootstrap_mode_locked_def configure_thread_sed_mode_locked_def
  configure_thread_receiver_on_mode_locked_def switch_thread_to_sed_mode_locked_def

lemma si_ok_restart:
  "keeps (si_ok E) (restart_thread_in_bootstrap_mode_locked E')"
  "keeps (si_ok E) (restart_thread_in_requested_mode_locked E')"
  unfolding restart_thread_in_bootstrap_mode_locked_def restart_thread_in_requested_mode_locked_def
    restart_thread_with_config_locked_def configure_modes
  by (intro si_ok_rules si_ok_configure)+

lemma si_ok_settle: "keeps (si_ok E) (settle_redcon_thread_mode E' on)"
proof -
  have cancel: "keeps (si_ok E) (work_cancel k SedTransitionWork)" "keeps (si_ok E) (work_cancel k SedFallbackWork)" for k
    by (auto simp: keeps_def fw_simps si_work_defs si_ok_def)
  have recovery: "keeps (si_ok E) (do { doif (sed_recovery_test E') (work_cancel k RecoveryWork);
      reset_sed_recovery E' })" for k
    by (auto simp: keeps_def reset_sed_recovery_def fw_simps si_work_defs si_ok_def
        SED_RECOVERY_MAX_ATTEMPTS_def)
  show ?thesis
    unfolding settle_redcon_thread_mode_def
    by (rule keeps_bind [OF si_ok_modify], simp, rule keeps_if,
        rule keeps_bind [OF cancel(1)], rule keeps_bind [OF cancel(2)], rule recovery, rule si_ok_sys) simp
qed

lemma si_ok_apply_mode: "keeps (si_ok E) (apply_sed_debug_redcon_thread_mode E' redcon)"
  unfolding apply_sed_debug_redcon_thread_mode_def configure_modes
  by (intro si_ok_rules si_ok_configure si_ok_settle) simp_all

lemma si_ok_outputs:
  "level = TXING_REDCON_ON \<or> level = TXING_REDCON_OFF \<Longrightarrow>
   keeps (\<lambda>s. si_ok E s \<and> \<not> sleep_transition_requested s) (set_outputs_for_redcon E' level)"
  by (auto simp: keeps_def set_outputs_for_redcon_def fw_simps si_ok_def)

lemma si_ok_enter_on:
  assumes "si_ok E (s\<lparr>sleep_transition_requested := False\<rparr>)"
    and "previous = TXING_REDCON_ON \<or> previous = TXING_REDCON_OFF"
  shows "wp (enter_redcon_on E' previous) (\<lambda>_. si_ok E) s"
proof -
  let ?I = "\<lambda>s. si_ok E s \<and> \<not> sleep_transition_requested s"
  have "keeps ?I (work_cancel k RedconSleepWork)" for k
    by (auto simp: keeps_def fw_simps si_work_defs si_ok_def)
  moreover have "keeps (\<lambda>s. \<not> sleep_transition_requested s) (apply_sed_debug_redcon_thread_mode E' redcon)" for redcon
    by (simp add: keeps_def apply_sed_debug_redcon_thread_mode_def settle_redcon_thread_mode_def
        reset_sed_recovery_def configure_modes configure_thread_mtd_mode_locked_def fw_simps si_work_defs)
  then have "keeps ?I (apply_sed_debug_redcon_thread_mode E' redcon)" for redcon
    by (intro keeps_conj si_ok_apply_mode)
  moreover have "unheard ?I" by (simp add: unheard_def si_ok_def)
  ultimately have "keeps ?I (do { work_cancel (kernel E') RedconSleepWork;
     rc \<leftarrow> apply_sed_debug_redcon_thread_mode E' TXING_REDCON_ON;
     if rc \<noteq> 0 then do {
       set_outputs_for_redcon E' previous;
       send_response E' OT_COAP_CODE_INTERNAL_ERROR None }
     else send_state_response E' OT_COAP_CODE_CHANGED })"
    by (intro keeps_bind keeps_if si_ok_outputs [OF assms(2)] unheard_answers)
  from keepsD [OF this, of "s\<lparr>sleep_transition_requested := False\<rparr>"] assms(1) show ?thesis
    unfolding enter_redcon_on_def by (subst wp_bind, subst wp_modify) (auto elim: wp_mono)
qed

lemma si_ok_enter_off:
  assumes "redcon_link_mode_test E"
  shows "keeps (\<lambda>s. si_ok E s \<and> redcon_level s = TXING_REDCON_OFF) (enter_redcon_off E')"
  unfolding enter_redcon_off_def
  by (intro keeps_bind keeps_modify unheard_answers)
    (auto simp: assms si_ok_def unheard_def keeps_def si_work_defs fw_simps)

lemma si_ok_level:
  assumes "si_ok E s" and "l = TXING_REDCON_ON \<or> l = TXING_REDCON_OFF"
  shows "si_ok E (s\<lparr>calls := cs, redcon_level := l, sleep_transition_requested := False\<rparr>)"
    and "l = TXING_REDCON_OFF \<or> l = redcon_level s \<or> \<not> redcon_link_mode_test E \<Longrightarrow>
      si_ok E (s\<lparr>calls := cs, redcon_level := l\<rparr>)"
  using assms unfolding si_ok_def by simp_all force

lemma si_ok_apply_redcon:
  assumes "redcon = TXING_REDCON_ON \<or> redcon = TXING_REDCON_OFF"
  shows "keeps (si_ok E) (apply_redcon E redcon)"
  unfolding keeps_def
proof (intro allI impI)
  fix s
  assume s: "si_ok E s"
  then have level: "redcon_level s = TXING_REDCON_ON \<or> redcon_level s = TXING_REDCON_OFF"
    by (simp add: si_ok_def)
  note answers = keepsD [OF unheard_answers(1) [OF si_ok_unheard]] keepsD [OF unheard_answers(2) [OF si_ok_unheard]]
  have rest: "wp (if rc \<noteq> 0 then send_response E OT_COAP_CODE_INTERNAL_ERROR None
     else if \<not> redcon_link_mode_test E then send_state_response E OT_COAP_CODE_CHANGED
     else if redcon = TXING_REDCON_ON then enter_redcon_on E (redcon_level s)
     else enter_redcon_off E) (\<lambda>_. si_ok E) (s\<lparr>calls := cs, redcon_level := l\<rparr>)"
    if "l = (if rc = 0 then redcon else redcon_level s)" for rc :: int and cs l
    using that si_ok_level [OF s level, of cs] si_ok_level [OF s assms, of cs] level assms
    by (auto intro!: si_ok_enter_on answers wp_mono [OF keepsD [OF si_ok_enter_off]])
  show "wp (apply_redcon E redcon) (\<lambda>_. si_ok E) s"
    unfolding apply_redcon_def
    by (subst wp_bind, subst wp_gets, rule wp_bindI [OF si_set_outputs_cases]) (use rest in fastforce)
qed

lemma si_ok_attached: "keeps (si_ok E) (attached_as_requested E')"
  unfolding attached_as_requested_def by (intro si_ok_rules)

lemma si_ok_attempt:
  assumes "si_ok E s" and "RecoveryWork \<notin> pending s" "sed_recovery_attempts s < SED_RECOVERY_MAX_ATTEMPTS"
  shows "wp (attempt_sed_recovery E') (\<lambda>_. si_ok E) s"
proof -
  have "si_ok E (s\<lparr>sed_recovery_attempts := sed_recovery_attempts s + 1\<rparr>)"
    using assms by (auto simp: si_ok_def)
  moreover have "keeps (si_ok E) (do { rc \<leftarrow> restart_thread_in_requested_mode_locked E';
     if rc = 0 then work_schedule (kernel E') SedFallbackWork (SED_FALLBACK_GRACE_SECONDS * 1000)
     else schedule_sed_recovery E' })"
    by (intro si_ok_rules si_ok_restart) simp
  ultimately show ?thesis
    unfolding attempt_sed_recovery_def by (subst wp_bind, subst wp_modify) (rule keepsD)
qed

lemma si_ok_recovery:
  assumes "si_ok E (s\<lparr>sed_recovery_pending := False\<rparr>)" and "RecoveryWork \<notin> pending s"
    and "sed_recovery_attempts s < SED_RECOVERY_MAX_ATTEMPTS"
  shows "wp (sed_recovery_work_handler E') (\<lambda>_. si_ok E) s"
proof -
  let ?I = "\<lambda>s. si_ok E s \<and> RecoveryWork \<notin> pending s \<and> sed_recovery_attempts s < SED_RECOVERY_MAX_ATTEMPTS"
  have calls: "keeps ?I (sys_ok k c)" "keeps ?I (sys_code k c)" for k c
    by (auto simp: keeps_def fw_simps si_ok_def)
  then have "keeps ?I (attached_as_requested E')"
    unfolding attached_as_requested_def thread_receiver_on_requested_def
    by (intro keeps_bind keeps_if keeps_return keeps_gets)
  moreover have "wp (if a then modify (\<lambda>s. s\<lparr>sed_recovery_attempts := 0\<rparr>) else attempt_sed_recovery E')
      (\<lambda>_. si_ok E) t" if "?I t" for a t
    using that si_ok_attempt by (auto simp: fw_simps si_ok_def)
  ultimately have inspect: "wp (do { attached \<leftarrow> attached_as_requested E';
      if attached then modify (\<lambda>s. s\<lparr>sed_recovery_attempts := 0\<rparr>) else attempt_sed_recovery E' })
      (\<lambda>_. si_ok E) t" if "?I t" for t
    using that by (blast intro: wp_bindI keepsD)
  have "wp (do { ot \<leftarrow> sys_ok (kernel E') (Ot OtInstance); if \<not> ot then schedule_sed_recovery E'
      else do { attached \<leftarrow> attached_as_requested E';
        if attached then modify (\<lambda>s. s\<lparr>sed_recovery_attempts := 0\<rparr>) else attempt_sed_recovery E' } })
      (\<lambda>_. si_ok E) t" if "?I t" for t
    by (rule wp_bindI [OF keepsD [OF calls(1) that]]) (auto intro: inspect keepsD [OF si_ok_schedule])
  with assms show ?thesis
    unfolding sed_recovery_work_handler_def
    by (simp add: wp_bind [of "modify _"] wp_modify wp_bind [of "gets _"] wp_gets wp_return)
qed

lemma si_ok_handlers:
  "keeps (si_ok E) (sed_transition_work_handler E')" "keeps (si_ok E) (sed_fallback_work_handler E')"
  "keeps (si_ok E) (srp_client_callback E' error)" "keeps (si_ok E) (thread_state_changed E')"
  "keeps (si_ok E) (sed_debug_redcon_sleep_work_handler E')"
  unfolding sed_transition_work_handler_def enter_sed_mode_def configure_modes
    sed_fallback_work_handler_def revert_to_bootstrap_def srp_client_callback_def thread_state_changed_def
    schedule_sed_transition_if_ready_def sed_debug_redcon_sleep_work_handler_def
  by (intro si_ok_rules si_ok_configure si_ok_restart si_ok_attached si_ok_apply_mode; simp)+

lemma si_ok_pm:
  "keeps (si_ok E) (pm_transition_event E' entered)"
  "si_ok E (s\<lparr>pending := insert PmLogWork (pending s)\<rparr>) \<Longrightarrow>
   wp (do { pm_transition_log_work_handler; ret () }) (\<lambda>_. si_ok E) s"
  by (auto simp: keeps_def pm_transition_event_def pm_transition_log_work_handler_def fw_simps
      si_work_defs si_ok_def)

lemma si_step_ok:
  assumes "si_ok E s" and "si_step E s ev t"
  shows "si_ok E t"
proof (rule si_step_keeps [OF assms(2), where I = "si_ok E"])
  fix ev :: si_event
  assume ev: "\<forall>w. ev \<noteq> RunWork w"
  have "keeps (si_ok E) (redcon_handler E)"
    by (intro redcon_handler_unheard si_ok_unheard si_ok_apply_redcon)
  with ev have "keeps (si_ok E) (si_handler E ev)"
    by (cases ev) (auto intro: unheard_answers(4) [OF si_ok_unheard] si_ok_handlers keeps_return
        keeps_doif si_ok_pm)
  then show "wp (si_handler E ev) (\<lambda>_. si_ok E) s" using assms(1) by (rule keepsD)
next
  fix w
  assume w: "w \<in> pending s"
  let ?s = "s\<lparr>pending := pending s - {w}\<rparr>"
  have "si_ok E ?s" if "w \<noteq> RecoveryWork" "w \<noteq> PmLogWork"
    using assms(1) that by (auto simp: si_ok_def)
  moreover have "wp (sed_recovery_work_handler E) (\<lambda>_. si_ok E) ?s" if "w = RecoveryWork"
    using assms(1) w that by (intro si_ok_recovery) (auto simp: si_ok_def)
  moreover have "wp (do { pm_transition_log_work_handler; ret () }) (\<lambda>_. si_ok E) ?s" if "w = PmLogWork"
    using assms(1) w that by (intro si_ok_pm(2)) (auto simp: si_ok_def)
  ultimately show "wp (work_handler E w) (\<lambda>_. si_ok E) ?s"
    by (cases w) (auto simp: work_handler_def intro: keepsD [OF si_ok_handlers(1)]
        keepsD [OF si_ok_handlers(2)] keepsD [OF si_ok_handlers(5)])
qed

section \<open>Pins and radio\<close>

text \<open>
  The pins follow the level; with the link-mode option the receiver is on, and wanted on, at level 3.
  In the states \<open>dozing\<close> the radio may be switched either way.
\<close>

definition si_radio :: "si_env \<Rightarrow> si_state \<Rightarrow> bool" where
  "si_radio E s \<longleftrightarrow>
     pin_level PowerPin (calls s) = Some (redcon_level s = TXING_REDCON_ON) \<and>
     pin_level Led (calls s) = Some (redcon_level s = TXING_REDCON_ON) \<and>
     (redcon_link_mode_test E \<and> redcon_level s = TXING_REDCON_ON \<longrightarrow>
        receiver_on_requested s \<and> link_mode (calls s) = Some True)"

definition dozing :: "si_env \<Rightarrow> si_state \<Rightarrow> bool" where
  "dozing E s \<longleftrightarrow> si_radio E s \<and> \<not> (redcon_link_mode_test E \<and> redcon_level s = TXING_REDCON_ON)"

lemma si_radio_unheard: "unheard (si_radio E)" "unheard (dozing E)"
  by (simp_all add: unheard_def si_radio_def dozing_def quiet_views)

lemma dozing_radio: "keeps (dozing E) m \<Longrightarrow> dozing E s \<Longrightarrow> wp m (\<lambda>_. si_radio E) s"
  by (rule wp_mono [OF keepsD [where I = "dozing E"]]) (auto simp: dozing_def)

lemma si_radio_sys:
  assumes "\<not> radio_call c"
  shows "keeps (si_radio E) (sys k c)" "keeps (si_radio E) (sys_code k c)" "keeps (si_radio E) (sys_ok k c)"
    "keeps (si_radio E) (sys_void k c)"
    "keeps (dozing E) (sys k c)" "keeps (dozing E) (sys_code k c)" "keeps (dozing E) (sys_ok k c)"
    "keeps (dozing E) (sys_void k c)"
proof -
  have views: "drives PowerPin (c, r) = id" "drives Led (c, r) = id" "sets_mode (c, r) = id" for r
    using assms by (auto simp: radio_call_def drives_def sets_mode_def fun_eq_iff
        split: zcall.splits ot_call.splits gpio_call.splits)
  show "keeps (si_radio E) (sys k c)" "keeps (si_radio E) (sys_code k c)" "keeps (si_radio E) (sys_ok k c)"
    "keeps (si_radio E) (sys_void k c)"
    "keeps (dozing E) (sys k c)" "keeps (dozing E) (sys_code k c)" "keeps (dozing E) (sys_ok k c)"
    "keeps (dozing E) (sys_void k c)"
    by (simp_all add: keeps_def fw_simps si_radio_def dozing_def views)
qed

lemma si_radio_work:
  "keeps (si_radio E) (work_schedule k w ms)" "keeps (si_radio E) (work_cancel k w)"
  "keeps (si_radio E) (work_submit k w)" "keeps (dozing E) (work_schedule k w ms)"
  "keeps (dozing E) (work_cancel k w)" "keeps (dozing E) (work_submit k w)"
  by (simp_all add: keeps_def fw_simps si_work_defs si_radio_def dozing_def)

lemma si_radio_modify:
  "(\<And>s. calls (f s) = calls s \<and> redcon_level (f s) = redcon_level s \<and>
     (receiver_on_requested s \<longrightarrow> receiver_on_requested (f s))) \<Longrightarrow> keeps (si_radio E) (modify f)"
  "(\<And>s. calls (f s) = calls s \<and> redcon_level (f s) = redcon_level s) \<Longrightarrow> keeps (dozing E) (modify f)"
  by (auto simp: keeps_def fw_simps si_radio_def dozing_def)

lemma si_radio_gets: "keeps (si_radio E) (thread_receiver_on_requested E')"
  "keeps (si_radio E) (thread_sed_mode_requested E')" "keeps (dozing E) (thread_receiver_on_requested E')"
  "keeps (dozing E) (thread_sed_mode_requested E')"
  by (simp_all add: keeps_def fw_simps)

lemmas si_radio_rules = keeps_bind keeps_if keeps_doif keeps_return keeps_gets si_radio_sys si_radio_work
  si_radio_modify si_radio_gets

lemma si_radio_set_mode:
  "keeps (si_radio E) (sys_code k (Ot (OtSetLinkMode True)))"
  "keeps (dozing E) (sys_code k (Ot (OtSetLinkMode on)))"
  by (auto simp: keeps_def fw_simps si_radio_def dozing_def)

lemma si_radio_configure:
  "keeps (si_radio E) (configure_thread_mtd_mode_locked E' True)"
  "keeps (dozing E) (configure_thread_mtd_mode_locked E' on)"
  unfolding configure_thread_mtd_mode_locked_def
  by (intro si_radio_rules si_radio_set_mode; simp add: radio_call_def)+

lemma si_radio_restart:
  "keeps (si_radio E) (restart_thread_with_config_locked E' (configure_thread_mtd_mode_locked E' True))"
  "keeps (dozing E) (restart_thread_with_config_locked E' (configure_thread_mtd_mode_locked E' on))"
  unfolding restart_thread_with_config_locked_def
  by (intro si_radio_rules si_radio_configure; simp add: radio_call_def)+

lemma si_radio_requested:
  "keeps (si_radio E) (restart_thread_in_requested_mode_locked E)"
  unfolding keeps_def restart_thread_in_requested_mode_locked_def configure_modes
  using keepsD [OF si_radio_restart(1)] dozing_radio [OF si_radio_restart(2)]
  by (auto simp: wp_bind receiver_on_wp si_radio_def dozing_def)

lemma si_radio_recovery:
  "keeps (si_radio E) (reset_sed_recovery E')" "keeps (dozing E) (reset_sed_recovery E')"
  "keeps (si_radio E) (schedule_sed_recovery E')"
  "keeps (si_radio E) (attached_as_requested E')"
  unfolding reset_sed_recovery_def schedule_sed_recovery_def abandon_sed_recovery_def attached_as_requested_def
  by (intro si_radio_rules; simp add: radio_call_def)+

lemma si_radio_handlers:
  "keeps (si_radio E) (sed_recovery_work_handler E)" "keeps (si_radio E) (sed_fallback_work_handler E)"
  "keeps (si_radio E) (srp_client_callback E error)" "keeps (si_radio E) (thread_state_changed E)"
  "keeps (si_radio E) (pm_transition_event E entered)" "keeps (si_radio E) pm_transition_log_work_handler"
  unfolding sed_recovery_work_handler_def attempt_sed_recovery_def sed_fallback_work_handler_def
    revert_to_bootstrap_def restart_thread_in_bootstrap_mode_locked_def configure_modes
    srp_client_callback_def thread_state_changed_def schedule_sed_transition_if_ready_def
    pm_transition_event_def pm_transition_log_work_handler_def
  by (intro si_radio_rules si_radio_requested si_radio_recovery si_radio_restart; simp add: radio_call_def)+

lemma si_radio_transition: "keeps (si_radio E) (sed_transition_work_handler E)"
  unfolding keeps_def
proof (intro allI impI)
  fix s
  assume s: "si_radio E s"
  have "keeps (dozing E) (sed_transition_work_handler E)"
    unfolding sed_transition_work_handler_def enter_sed_mode_def configure_modes
    by (intro si_radio_rules si_radio_configure si_radio_recovery; simp add: radio_call_def)
  from dozing_radio [OF this] s show "wp (sed_transition_work_handler E) (\<lambda>_. si_radio E) s"
    by (cases "dozing E s") (auto simp: sed_transition_work_handler_def wp_bind sed_requested_wp wp_gets
        wp_return dozing_def si_radio_def)
qed

lemma dozing_apply_mode: "keeps (dozing E) (apply_sed_debug_redcon_thread_mode E' redcon)"
  unfolding apply_sed_debug_redcon_thread_mode_def settle_redcon_thread_mode_def configure_modes
  by (intro si_radio_rules si_radio_configure si_radio_recovery; simp add: radio_call_def)

lemma si_radio_sleep:
  assumes "si_radio E s" and "sleep_transition_requested s \<longrightarrow> redcon_level s = TXING_REDCON_OFF"
  shows "wp (sed_debug_redcon_sleep_work_handler E) (\<lambda>_. si_radio E) s"
proof (cases "sleep_transition_requested s")
  case True
  with assms have "dozing E s" by (simp add: dozing_def redcon_levels)
  moreover have "keeps (dozing E) (sed_debug_redcon_sleep_work_handler E)"
    unfolding sed_debug_redcon_sleep_work_handler_def
    by (intro si_radio_rules dozing_apply_mode; simp add: radio_call_def)
  ultimately show ?thesis by (rule dozing_radio [rotated])
qed (simp add: sed_debug_redcon_sleep_work_handler_def fw_simps assms(1))

text \<open>The request for level 3: what the mode change leaves behind, and how a failure is rolled back.\<close>

definition on_view :: "bool option \<Rightarrow> bool \<Rightarrow> si_state \<Rightarrow> bool" where
  "on_view m r s \<longleftrightarrow> radio_view (Some True) (Some True) m TXING_REDCON_ON s \<and> receiver_on_requested s = r"

lemma apply_on_view:
  assumes "on_view m r s"
  shows "wp (apply_sed_debug_redcon_thread_mode E TXING_REDCON_ON) (\<lambda>rc t.
     if rc = 0 then on_view (Some True) True t else on_view m r t \<or> on_view (Some True) r t) s"
proof -
  have settle: "wp (settle_redcon_thread_mode E True) (\<lambda>_. on_view (Some True) True) t"
    if "on_view (Some True) True t" for t
    using that by (simp add: settle_redcon_thread_mode_def reset_sed_recovery_def fw_simps si_work_defs
        on_view_def radio_view_def)
  show ?thesis
    using assms
    by (auto simp: apply_sed_debug_redcon_thread_mode_def configure_modes configure_thread_mtd_mode_locked_def
        fw_simps errno_defs ot_errors on_view_def radio_view_def intro!: wp_mono [OF settle])
qed

lemma si_outputs_view:
  "gpio_works (kernel E) \<Longrightarrow>
   wp (set_outputs_for_redcon E level) (\<lambda>rc t. rc = 0 \<and> redcon_level t = level \<and>
     pin_level PowerPin (calls t) = Some (level = TXING_REDCON_ON) \<and>
     pin_level Led (calls t) = Some (level = TXING_REDCON_ON) \<and>
     link_mode (calls t) = link_mode (calls s) \<and> receiver_on_requested t = receiver_on_requested s) s"
  by (simp add: set_outputs_for_redcon_def fw_simps gpio_works_def)

lemma enter_on_si_radio:
  assumes works: "gpio_works (kernel E)" and s: "on_view m r s"
    and before: "previous = TXING_REDCON_ON \<longrightarrow> r \<and> m = Some True"
  shows "wp (enter_redcon_on E previous) (\<lambda>_. si_radio E) s"
proof -
  note answers = keepsD [OF unheard_answers(1) [OF si_radio_unheard(1)]]
    keepsD [OF unheard_answers(2) [OF si_radio_unheard(1)]]
  have prelude: "wp (work_cancel (kernel E) RedconSleepWork) (\<lambda>_. on_view m r)
      (s\<lparr>sleep_transition_requested := False\<rparr>)"
    using s by (simp add: fw_simps si_work_defs on_view_def radio_view_def)
  have restore: "wp (do { set_outputs_for_redcon E previous; send_response E OT_COAP_CODE_INTERNAL_ERROR None })
      (\<lambda>_. si_radio E) t" if "on_view m r t \<or> on_view (Some True) r t" for t
    by (rule wp_bindI [OF si_outputs_view [OF works]], rule answers)
      (use that before in \<open>auto simp: si_radio_def on_view_def radio_view_def\<close>)
  have tail: "wp (if rc \<noteq> 0 then do { set_outputs_for_redcon E previous;
      send_response E OT_COAP_CODE_INTERNAL_ERROR None }
      else send_state_response E OT_COAP_CODE_CHANGED) (\<lambda>_. si_radio E) t"
    if "if rc = 0 then on_view (Some True) True t else on_view m r t \<or> on_view (Some True) r t"
    for rc :: int and t
    using that restore [of t]
    by (auto intro!: answers(2) simp: si_radio_def on_view_def radio_view_def split: if_splits)
  show ?thesis
    unfolding enter_redcon_on_def
    by (subst wp_bind, subst wp_modify, rule wp_bindI [OF prelude], rule wp_bindI [OF apply_on_view],
        assumption, erule tail)
qed

lemma apply_redcon_si_radio:
  assumes works: "gpio_works (kernel E)" and redcon: "redcon = TXING_REDCON_ON \<or> redcon = TXING_REDCON_OFF"
  shows "keeps (si_radio E) (apply_redcon E redcon)"
  unfolding keeps_def
proof (intro allI impI)
  fix s
  assume s: "si_radio E s"
  note answers = keepsD [OF unheard_answers(2) [OF si_radio_unheard(1)]]
  have off: "keeps (si_radio E) (enter_redcon_off E)"
    unfolding enter_redcon_off_def
    by (intro si_radio_rules unheard_answers si_radio_unheard) simp_all
  have rest: "wp (if rc \<noteq> 0 then send_response E OT_COAP_CODE_INTERNAL_ERROR None
     else if \<not> redcon_link_mode_test E then send_state_response E OT_COAP_CODE_CHANGED
     else if redcon = TXING_REDCON_ON then enter_redcon_on E (redcon_level s)
     else enter_redcon_off E) (\<lambda>_. si_radio E) t"
    if t: "rc = 0 \<and> redcon_level t = redcon \<and> pin_level PowerPin (calls t) = Some (redcon = TXING_REDCON_ON) \<and>
      pin_level Led (calls t) = Some (redcon = TXING_REDCON_ON) \<and>
      link_mode (calls t) = link_mode (calls s) \<and> receiver_on_requested t = receiver_on_requested s"
    for rc :: int and t
  proof (cases "redcon_link_mode_test E \<and> redcon = TXING_REDCON_ON")
    case True
    with t have "on_view (link_mode (calls s)) (receiver_on_requested s) t"
      by (simp add: on_view_def radio_view_def)
    from enter_on_si_radio [OF works this] True s t show ?thesis by (simp add: si_radio_def)
  next
    case False
    with t redcon have "si_radio E t" by (auto simp: si_radio_def redcon_levels)
    with False t show ?thesis by (auto intro: answers keepsD [OF off])
  qed
  show "wp (apply_redcon E redcon) (\<lambda>_. si_radio E) s"
    unfolding apply_redcon_def
    by (subst wp_bind, subst wp_gets, rule wp_bindI [OF si_outputs_view [OF works]], erule rest)
qed

lemma si_step_radio:
  assumes "gpio_works (kernel E)" and "si_ok E s" "si_radio E s" and "si_step E s ev t"
  shows "si_radio E t"
proof (rule si_step_keeps [OF assms(4), where I = "si_radio E"])
  fix ev :: si_event
  assume ev: "\<forall>w. ev \<noteq> RunWork w"
  have "keeps (si_radio E) (redcon_handler E)"
    by (intro redcon_handler_unheard si_radio_unheard apply_redcon_si_radio assms)
  with ev have "keeps (si_radio E) (si_handler E ev)"
    by (cases ev) (auto intro: unheard_answers(4) [OF si_radio_unheard(1)] si_radio_handlers keeps_return keeps_doif)
  then show "wp (si_handler E ev) (\<lambda>_. si_radio E) s" using assms(3) by (rule keepsD)
next
  fix w
  let ?s = "s\<lparr>pending := pending s - {w}\<rparr>"
  have s: "si_radio E ?s" "sleep_transition_requested ?s \<longrightarrow> redcon_level ?s = TXING_REDCON_OFF"
    using assms(2,3) by (auto simp: si_radio_def si_ok_def)
  have "keeps (si_radio E) (do { pm_transition_log_work_handler; ret () })"
    by (intro keeps_bind keeps_return si_radio_handlers)
  from keepsD [OF this s(1)] s show "wp (work_handler E w) (\<lambda>_. si_radio E) ?s"
    by (cases w) (auto simp: work_handler_def intro!: keepsD [OF si_radio_handlers(1)] si_radio_sleep
        keepsD [OF si_radio_handlers(2)] keepsD [OF si_radio_transition])
qed

section \<open>The way to the sleepy mode\<close>

text \<open>
  In a production build, without the two test options: a registered device is sleepy, has given the
  sleepy mode up and listens, or still has the transition pending.
\<close>

definition production :: "si_env \<Rightarrow> bool" where
  "production E \<longleftrightarrow> \<not> redcon_link_mode_test E \<and> \<not> sed_recovery_test E"

definition sed_progress :: "si_state \<Rightarrow> bool" where
  "sed_progress s \<longleftrightarrow>
     (srp_registration_accepted s \<and> \<not> sed_mode_active s \<and> \<not> sed_transition_failed s \<longrightarrow>
        SedTransitionWork \<in> pending s) \<and>
     (sed_mode_active s \<or> sed_transition_failed s \<longrightarrow> SedTransitionWork \<notin> pending s) \<and>
     (sed_transition_failed s \<longrightarrow> \<not> sed_mode_active s \<and> link_mode (calls s) = Some True) \<and>
     RecoveryWork \<notin> pending s"

lemma sed_progress_unheard: "unheard sed_progress"
  by (simp add: unheard_def sed_progress_def quiet_views)

lemma sed_progress_sys:
  assumes "\<And>r m. sets_mode (c, r) m = m"
  shows "keeps sed_progress (sys k c)" "keeps sed_progress (sys_code k c)" "keeps sed_progress (sys_ok k c)"
    "keeps sed_progress (sys_void k c)"
  by (simp_all add: keeps_def fw_simps sed_progress_def assms)

lemma sed_progress_outputs: "keeps sed_progress (set_outputs_for_redcon E level)"
  by (simp add: keeps_def set_outputs_for_redcon_def fw_simps sed_progress_def)

lemma sed_progress_apply:
  assumes "production E"
  shows "keeps sed_progress (apply_redcon E redcon)"
  using assms unfolding apply_redcon_def production_def
  by (auto intro!: keeps_bind keeps_gets sed_progress_outputs unheard_answers sed_progress_unheard)

lemma sed_progress_callbacks:
  assumes "production E"
  shows "keeps sed_progress (srp_client_callback E error)" "keeps sed_progress (thread_state_changed E)"
    "keeps sed_progress (pm_transition_event E entered)" "keeps sed_progress pm_transition_log_work_handler"
  using assms
  by (auto simp: keeps_def srp_client_callback_def thread_state_changed_def production_def
      schedule_sed_transition_if_ready_def pm_transition_event_def pm_transition_log_work_handler_def
      fw_simps si_work_defs sed_progress_def)

lemma enter_sed_mode_progress:
  assumes "production E" "\<not> sed_mode_active s" "\<not> sed_transition_failed s"
    and "SedTransitionWork \<notin> pending s" "RecoveryWork \<notin> pending s"
  shows "wp (enter_sed_mode E) (\<lambda>_. sed_progress) s"
  using assms
  by (auto simp: enter_sed_mode_def configure_modes configure_thread_mtd_mode_locked_def
      reset_sed_recovery_def production_def fw_simps si_work_defs sed_progress_def)

lemma sed_transition_progress:
  assumes "production E" "\<not> sed_mode_active s" "\<not> sed_transition_failed s"
    and "SedTransitionWork \<notin> pending s" "RecoveryWork \<notin> pending s"
  shows "wp (sed_transition_work_handler E) (\<lambda>_. sed_progress) s"
  using assms
  by (auto simp: sed_transition_work_handler_def production_def fw_simps si_work_defs sed_progress_def
      intro!: enter_sed_mode_progress)

lemma revert_progress:
  assumes "SedTransitionWork \<notin> pending s" "RecoveryWork \<notin> pending s"
  shows "wp (revert_to_bootstrap E) (\<lambda>_. sed_progress) s"
  using assms
  by (auto simp: revert_to_bootstrap_def restart_thread_in_bootstrap_mode_locked_def
      restart_thread_with_config_locked_def configure_modes configure_thread_mtd_mode_locked_def
      fw_simps si_work_defs sed_progress_def ot_errors errno_defs)

lemma sed_fallback_progress:
  assumes "production E"
  shows "keeps sed_progress (sed_fallback_work_handler E)"
  unfolding keeps_def
  using assms
  by (auto simp: sed_fallback_work_handler_def attached_as_requested_def reset_sed_recovery_def
      production_def fw_simps si_work_defs sed_progress_def intro!: revert_progress)

lemma si_step_progress:
  assumes "production E" and "si_ok E s" "sed_progress s" and "si_step E s ev t"
  shows "sed_progress t"
proof (rule si_step_keeps [OF assms(4), where I = sed_progress])
  fix ev :: si_event
  assume ev: "\<forall>w. ev \<noteq> RunWork w"
  have "keeps sed_progress (redcon_handler E)"
    by (intro redcon_handler_unheard sed_progress_unheard sed_progress_apply assms)
  with ev have "keeps sed_progress (si_handler E ev)"
    by (cases ev) (auto intro: unheard_answers(4) [OF sed_progress_unheard] keeps_return keeps_doif
        sed_progress_callbacks [OF assms(1)])
  then show "wp (si_handler E ev) (\<lambda>_. sed_progress) s" using assms(3) by (rule keepsD)
next
  fix w
  assume w: "w \<in> pending s"
  let ?s = "s\<lparr>pending := pending s - {w}\<rparr>"
  have "keeps sed_progress (do { pm_transition_log_work_handler; ret () })"
    by (intro keeps_bind keeps_return sed_progress_callbacks [OF assms(1)])
  moreover have "sed_progress ?s" if "w \<noteq> SedTransitionWork"
    using assms(3) that by (auto simp: sed_progress_def)
  moreover have "wp (sed_transition_work_handler E) (\<lambda>_. sed_progress) ?s" if "w = SedTransitionWork"
    using assms(1,3) w that by (intro sed_transition_progress) (auto simp: sed_progress_def)
  moreover have "wp (sed_debug_redcon_sleep_work_handler E) (\<lambda>_. sed_progress) ?s" if "sed_progress ?s"
    using assms(1,2) that by (simp add: sed_debug_redcon_sleep_work_handler_def fw_simps si_ok_def production_def)
  ultimately show "wp (work_handler E w) (\<lambda>_. sed_progress) ?s"
    using w assms(3) [unfolded sed_progress_def]
    by (cases w) (auto simp: work_handler_def intro: keepsD sed_fallback_progress [OF assms(1)])
qed

section \<open>Invariants of the call history\<close>

text \<open>
  The contract of an invariant that speaks of the calls and of the name only.  It has to care about
  four functions; every other function makes plain calls, so that startup and all handlers keep it.
\<close>

definition plain_call :: "si_work zcall \<Rightarrow> bool" where
  "plain_call c \<longleftrightarrow> (case c of
     Coap m \<Rightarrow> m \<notin> {NewMessage, SendResponse, MessageFree}
   | Gpio (GpioSet p v) \<Rightarrow> p \<noteq> BatteryEnable
   | Gpio (GpioConfigureInactive p) \<Rightarrow> p \<noteq> BatteryEnable
   | Driver d \<Rightarrow> d \<notin> {PmResume, PmSuspend}
   | _ \<Rightarrow> True)"

locale history_invariant =
  fixes E :: si_env and I :: "si_state \<Rightarrow> bool"
  assumes only_history: "calls t = calls s \<Longrightarrow> thing_name t = thing_name s \<Longrightarrow> I s \<Longrightarrow> I t"
    and plain: "plain_call c \<Longrightarrow> I s \<Longrightarrow> I (log_call c r s)"
    and send: "keeps I (send_response E cc payload)"
    and sample: "keeps I (sample_battery_mv E)"
    and load: "keeps I (load_factory_data E)"
    and battery: "keeps I (init_battery E)"
begin

lemma keeps_plain:
  assumes "plain_call c"
  shows "keeps I (sys k c)" "keeps I (sys_code k c)" "keeps I (sys_ok k c)" "keeps I (sys_void k c)"
  using plain [OF assms] by (simp_all add: keeps_def fw_simps)

lemma keeps_update: "(\<And>s. calls (f s) = calls s \<and> thing_name (f s) = thing_name s) \<Longrightarrow> keeps I (modify f)"
  by (rule keeps_modify) (metis only_history)

lemma keeps_work:
  "keeps I (work_schedule k w ms)" "keeps I (work_cancel k w)" "keeps I (work_submit k w)"
  unfolding si_work_defs by (intro keeps_bind keeps_plain keeps_update; simp add: plain_call_def)+

lemmas history_rules = keeps_bind keeps_if keeps_doif keeps_return keeps_gets keeps_option keeps_prod
  keeps_plain keeps_update keeps_work send sample

lemma keeps_answers:
  "keeps I (send_state_response E cc)" "keeps I (parse_redcon_request E)"
  unfolding send_state_response_def format_state_def parse_redcon_request_def Let_def
  by (intro history_rules; simp add: plain_call_def)+

lemma keeps_modes:
  "keeps I (set_outputs_for_redcon E level)" "keeps I (configure_thread_mtd_mode_locked E on)"
  "keeps I (thread_receiver_on_requested E)" "keeps I (thread_sed_mode_requested E)"
  "keeps I (reset_sed_recovery E)" "keeps I (schedule_sed_recovery E)" "keeps I (attached_as_requested E)"
  unfolding set_outputs_for_redcon_def configure_thread_mtd_mode_locked_def thread_receiver_on_requested_def
    thread_sed_mode_requested_def reset_sed_recovery_def schedule_sed_recovery_def abandon_sed_recovery_def
    attached_as_requested_def
  by (intro history_rules; simp add: plain_call_def)+

lemma keeps_restart:
  "keeps I (restart_thread_in_bootstrap_mode_locked E)" "keeps I (restart_thread_in_requested_mode_locked E)"
  unfolding restart_thread_in_bootstrap_mode_locked_def restart_thread_in_requested_mode_locked_def
    restart_thread_with_config_locked_def configure_modes
  by (intro history_rules keeps_modes; simp add: plain_call_def)+

lemma keeps_apply_mode: "keeps I (apply_sed_debug_redcon_thread_mode E redcon)"
  unfolding apply_sed_debug_redcon_thread_mode_def settle_redcon_thread_mode_def configure_modes
  by (intro history_rules keeps_modes; simp add: plain_call_def)

lemma keeps_requests: "keeps I (redcon_handler E)" "keeps I (state_handler E)"
  unfolding redcon_handler_def apply_redcon_def enter_redcon_on_def enter_redcon_off_def state_handler_def
  by (intro history_rules keeps_answers keeps_modes keeps_apply_mode; simp add: plain_call_def)+

lemma keeps_works:
  "keeps I (sed_transition_work_handler E)" "keeps I (sed_fallback_work_handler E)"
  "keeps I (sed_debug_redcon_sleep_work_handler E)" "keeps I (sed_recovery_work_handler E)"
  "keeps I pm_transition_log_work_handler"
  unfolding sed_transition_work_handler_def enter_sed_mode_def configure_modes sed_fallback_work_handler_def
    revert_to_bootstrap_def sed_debug_redcon_sleep_work_handler_def sed_recovery_work_handler_def
    attempt_sed_recovery_def pm_transition_log_work_handler_def
  by (intro history_rules keeps_modes keeps_restart keeps_apply_mode; simp add: plain_call_def)+

lemma keeps_callbacks:
  "keeps I (srp_client_callback E error)" "keeps I (thread_state_changed E)"
  "keeps I (pm_transition_event E entered)"
  unfolding srp_client_callback_def thread_state_changed_def schedule_sed_transition_if_ready_def
    pm_transition_event_def
  by (intro history_rules keeps_modes; simp add: plain_call_def)+

lemma keeps_handler: "keeps I (si_handler E ev)"
  by (cases ev) (auto simp: work_handler_def split: si_work.split
      intro!: keeps_requests keeps_works keeps_callbacks keeps_return keeps_doif keeps_bind)

lemma step_inv:
  assumes "I s" and "si_step E s ev t"
  shows "I t"
proof (rule si_step_keeps [OF assms(2), where I = I])
  show "wp (si_handler E ev) (\<lambda>_. I) s" for ev using keeps_handler assms(1) by (rule keepsD)
  show "wp (work_handler E w) (\<lambda>_. I) (s\<lparr>pending := pending s - {w}\<rparr>)" for w
    using keepsD [OF keeps_handler [of "RunWork w"]] only_history [OF _ _ assms(1)] by simp
qed

lemma keeps_startup: "keeps I (start_services E)" "keeps I (log_srp_psa_diagnostics E)"
  "keeps I (register_pm_transition_diagnostics E)" "keeps I (init_outputs E)"
  unfolding start_services_def start_thread_def start_coap_def start_srp_def set_srp_host_address_def
    reset_thread_flags_def configure_modes log_srp_psa_diagnostics_def probe_volatile_psa_key_def
    log_psa_key_attributes_def probe_psa_key_operations_def register_pm_transition_diagnostics_def
    init_outputs_def Let_def
  by (intro history_rules keeps_modes; simp add: plain_call_def)+

lemma keeps_main: "keeps I (si_main E)"
  unfolding si_main_def run_services_def
  by (intro history_rules keeps_startup load battery; simp add: plain_call_def)

end

text \<open>Every response message is sent or freed, and the name fits its field.\<close>

lemma si_tidy_send: "keeps (tidy k n) (send_response E cc payload)"
proof -
  have appended: "keeps (tidy k n) (append_payload E payload)" "keeps (tidy k n) (response_type E)" for k
    unfolding append_payload_def response_type_def
    by (intro keeps_bind keeps_if keeps_return keeps_option tidy_sys; simp)+
  have last: "wp (do { error \<leftarrow> (if error \<noteq> OT_ERROR_NONE then ret error
                   else sys_code (kernel E) (Coap SendResponse));
         doif (error \<noteq> OT_ERROR_NONE) (sys_void (kernel E) (Coap MessageFree)) }) (\<lambda>_. tidy k n) s"
    if "tidy (k + 1) n s" for error s
    using that by (auto simp: fw_simps tidy_def ot_errors)
  have init: "keeps (tidy k n) (sys_code (kernel E) (Coap (InitResponse ty cc)))" for k ty
    by (intro tidy_sys) simp
  have body: "wp (do { ty \<leftarrow> response_type E; error \<leftarrow> sys_code (kernel E) (Coap (InitResponse ty cc));
      error \<leftarrow> (if error \<noteq> OT_ERROR_NONE then ret error else append_payload E payload);
      error \<leftarrow> (if error \<noteq> OT_ERROR_NONE then ret error else sys_code (kernel E) (Coap SendResponse));
      doif (error \<noteq> OT_ERROR_NONE) (sys_void (kernel E) (Coap MessageFree)) }) (\<lambda>_. tidy k n) s"
    if "tidy (k + 1) n s" for s
    by (rule wp_bindI [OF keepsD [OF appended(2) that]], rule wp_bindI [OF keepsD [OF init]],
        assumption, rule wp_bindI [OF keepsD [OF keeps_if [OF keeps_return appended(1)]]],
        assumption, rule last)
  have new: "wp (sys_ok (kernel E) (Coap NewMessage)) (\<lambda>r t. tidy (if r then k + 1 else k) n t) s"
    if "tidy k n s" for s
    using that by (simp add: fw_simps tidy_def)
  have ot: "keeps (tidy k n) (sys (kernel E) (Ot OtInstance))" by (intro tidy_sys) simp
  show ?thesis
    unfolding keeps_def send_response_def
    by (auto intro!: wp_bindI [OF keepsD [OF ot]] wp_bindI [OF new] body simp: wp_return)
qed

lemma si_tidy_load: "keeps (tidy k 64) (load_factory_data E)"
proof -
  have store: "keeps (tidy k 64) (modify (\<lambda>s. s\<lparr>thing_name := takeWhile P (take n b), dataset_tlvs := d,
      coap_port := p, factory_valid := v\<rparr>))" if "n \<le> 64" for n P b d p v
    using that length_takeWhile_le [of P "take n b"] by (simp add: keeps_def fw_simps tidy_def)
  have "keeps (tidy k 64) (read_factory_record E)"
    unfolding read_factory_record_def Let_def
    by (auto intro!: keeps_bind tidy_sys keeps_return store simp: txt1_constants)
  then show ?thesis
    unfolding load_factory_data_def by (intro keeps_bind keeps_if keeps_return tidy_sys; simp)
qed

interpretation si_responses: history_invariant E "tidy k 64" for E k
proof unfold_locales
  show "calls t = calls s \<Longrightarrow> thing_name t = thing_name s \<Longrightarrow> tidy k 64 s \<Longrightarrow> tidy k 64 t" for s t
    by (simp add: tidy_def)
  show "plain_call c \<Longrightarrow> tidy k 64 s \<Longrightarrow> tidy k 64 (log_call c r s)" for c r s
    by (auto simp: plain_call_def tidy_def message_weight_def split: zcall.splits coap_call.splits)
  show "keeps (tidy k 64) (sample_battery_mv E)" "keeps (tidy k 64) (init_battery E)"
    unfolding sample_battery_mv_def convert_battery_def init_battery_def Let_def
    by (intro keeps_bind keeps_if keeps_return keeps_gets tidy_sys tidy_modify; simp)+
qed (rule si_tidy_send si_tidy_load)+

text \<open>The divider is switched off and the converter suspended whenever no sample is being taken.\<close>

definition wakes_adc :: "'w zcall \<times> reply \<Rightarrow> bool \<Rightarrow> bool" where
  "wakes_adc c awake = (case fst c of
     Driver PmResume \<Rightarrow> awake \<or> code (snd c) = 0 \<or> code (snd c) = - EALREADY
   | Driver PmSuspend \<Rightarrow> awake \<and> code (snd c) \<noteq> 0 \<and> code (snd c) \<noteq> - EALREADY
   | _ \<Rightarrow> awake)"

definition adc_awake :: "'w calls \<Rightarrow> bool" where
  "adc_awake cs = foldl (\<lambda>a c. wakes_adc c a) False cs"

lemma adc_awake_append [simp]: "adc_awake (cs @ ds) = foldl (\<lambda>a c. wakes_adc c a) (adc_awake cs) ds"
  by (simp add: adc_awake_def)

definition battery_rest :: "si_state \<Rightarrow> bool" where
  "battery_rest s \<longleftrightarrow> \<not> adc_awake (calls s) \<and> pin_level BatteryEnable (calls s) \<noteq> Some True"

text \<open>Hardware that can be switched off.\<close>

definition battery_stops :: "'w kernel \<Rightarrow> bool" where
  "battery_stops k \<longleftrightarrow> (\<forall>cs. code (k cs (Gpio (GpioSet BatteryEnable False))) = 0 \<and>
     (code (k cs (Driver PmSuspend)) = 0 \<or> code (k cs (Driver PmSuspend)) = - EALREADY))"

lemma sample_battery_rests:
  assumes "battery_stops (kernel E)"
  shows "keeps battery_rest (sample_battery_mv E)"
proof -
  have stop: "wp (do { sys (kernel E) (Gpio (GpioSet BatteryEnable False)); sys (kernel E) (Driver PmSuspend); ret v })
      (\<lambda>_. battery_rest) t" for v :: "u16 option" and t
    using assms by (auto simp: fw_simps battery_rest_def battery_stops_def wakes_adc_def)
  have convert: "wp (do { v \<leftarrow> convert_battery E; sys (kernel E) (Gpio (GpioSet BatteryEnable False));
      sys (kernel E) (Driver PmSuspend); ret v }) (\<lambda>_. battery_rest) t" for t
    by (rule wp_after, rule stop)
  have "wp (sys_code (kernel E) (Driver PmResume)) (\<lambda>rc t. rc \<noteq> 0 \<and> rc \<noteq> - EALREADY \<longrightarrow> battery_rest t) s"
    if "battery_rest s" for s
    using that by (simp add: fw_simps battery_rest_def wakes_adc_def)
  note resume = this
  show ?thesis
    unfolding keeps_def sample_battery_mv_def
    by (auto simp: wp_bind [of "gets _"] wp_gets wp_return intro!: wp_bindI [OF resume] convert)
qed

lemma battery_rest_sys:
  assumes "plain_call c"
  shows "battery_rest s \<Longrightarrow> battery_rest (log_call c r s)"
  using assms
  by (auto simp: battery_rest_def plain_call_def wakes_adc_def drives_def
      split: zcall.splits driver_call.splits gpio_call.splits)

interpretation si_battery: history_invariant E "\<lambda>s. battery_stops (kernel E) \<longrightarrow> battery_rest s" for E
proof unfold_locales
  let ?I = "\<lambda>s. battery_stops (kernel E) \<longrightarrow> battery_rest s"
  show "calls t = calls s \<Longrightarrow> thing_name t = thing_name s \<Longrightarrow> ?I s \<Longrightarrow> ?I t" for s t
    by (simp add: battery_rest_def)
  show plain: "plain_call c \<Longrightarrow> ?I s \<Longrightarrow> ?I (log_call c r s)" for c r s
    by (simp add: battery_rest_sys)
  have calls: "keeps ?I (sys_code k c)" "keeps ?I (sys_ok k c)" "keeps ?I (sys k c)" "keeps ?I (sys_void k c)"
    if "plain_call c" for k c
    using plain [OF that] by (simp_all add: keeps_def fw_simps)
  have coap: "keeps ?I (sys_code k (Coap c))" "keeps ?I (sys_ok k (Coap c))" "keeps ?I (sys_void k (Coap c))" for k c
    by (simp_all add: keeps_def fw_simps battery_rest_def wakes_adc_def)
  show "keeps ?I (send_response E cc payload)" for cc payload
    unfolding send_response_def append_payload_def response_type_def
    by (intro keeps_bind keeps_if keeps_return keeps_doif keeps_option coap calls; simp add: plain_call_def)
  show "keeps ?I (sample_battery_mv E)"
  proof (cases "battery_stops (kernel E)")
    case True
    from sample_battery_rests [OF True] True show ?thesis by simp
  qed (simp add: keeps_def wp_def split: prod.split)
  have stores: "keeps ?I (modify f)" if "\<And>s. calls (f s) = calls s" for f
    using that by (simp add: keeps_def fw_simps battery_rest_def)
  show "keeps ?I (load_factory_data E)"
    unfolding load_factory_data_def read_factory_record_def Let_def
    by (intro keeps_bind keeps_if keeps_return calls stores; simp add: plain_call_def)
  have hardware: "keeps ?I (sys_code k (Gpio (GpioConfigureInactive p)))" "keeps ?I (sys_code k (Driver PmSuspend))" for k p
    by (simp_all add: keeps_def fw_simps battery_rest_def wakes_adc_def)
  show "keeps ?I (init_battery E)"
    unfolding init_battery_def
    by (intro keeps_bind keeps_if keeps_return hardware calls stores; simp add: plain_call_def)
qed

section \<open>Startup\<close>

lemma initial_si_ok: "si_ok E initial_si_state"
  by (simp add: si_ok_def initial_si_state_def SED_RECOVERY_MAX_ATTEMPTS_def)

lemma si_ok_main: "keeps (si_ok E) (si_main E)"
proof -
  have off: "keeps (si_ok E) (set_outputs_for_redcon E TXING_REDCON_OFF)"
    by (auto simp: keeps_def set_outputs_for_redcon_def fw_simps si_ok_def)
  have "keeps (si_ok E) (start_services E)" "keeps (si_ok E) (log_srp_psa_diagnostics E)"
    "keeps (si_ok E) (register_pm_transition_diagnostics E)" "keeps (si_ok E) (init_battery E)"
    "keeps (si_ok E) (load_factory_data E)" "keeps (si_ok E) (init_outputs E)"
    unfolding start_services_def start_thread_def start_coap_def start_srp_def set_srp_host_address_def
      reset_thread_flags_def configure_modes log_srp_psa_diagnostics_def probe_volatile_psa_key_def
      log_psa_key_attributes_def probe_psa_key_operations_def register_pm_transition_diagnostics_def
      init_battery_def load_factory_data_def read_factory_record_def init_outputs_def Let_def
    by (intro si_ok_rules si_ok_configure off; simp)+
  then show ?thesis
    unfolding si_main_def run_services_def by (intro si_ok_rules)
qed

text \<open>Before the first callback nothing is registered, active or scheduled.\<close>

definition fresh :: "si_state \<Rightarrow> bool" where
  "fresh s \<longleftrightarrow> \<not> srp_registration_accepted s \<and> \<not> sed_mode_active s \<and> \<not> sed_transition_failed s \<and>
     SedTransitionWork \<notin> pending s \<and> RecoveryWork \<notin> pending s"

lemma fresh_rules:
  "keeps fresh (sys k c)" "keeps fresh (sys_code k c)" "keeps fresh (sys_ok k c)" "keeps fresh (sys_void k c)"
  "(\<And>s. pending (f s) = pending s \<and> (srp_registration_accepted (f s) \<longrightarrow> srp_registration_accepted s) \<and>
     (sed_mode_active (f s) \<longrightarrow> sed_mode_active s) \<and> (sed_transition_failed (f s) \<longrightarrow> sed_transition_failed s)) \<Longrightarrow>
   keeps fresh (modify f)"
  by (auto simp: keeps_def fw_simps fresh_def)

lemma fresh_main: "keeps fresh (si_main E)"
  unfolding si_main_def run_services_def
    start_services_def start_thread_def start_coap_def start_srp_def set_srp_host_address_def
    reset_thread_flags_def reset_sed_recovery_def configure_modes configure_thread_mtd_mode_locked_def
    log_srp_psa_diagnostics_def probe_volatile_psa_key_def
    log_psa_key_attributes_def probe_psa_key_operations_def register_pm_transition_diagnostics_def
    init_battery_def load_factory_data_def read_factory_record_def init_outputs_def
    set_outputs_for_redcon_def Let_def
  by (intro keeps_bind keeps_if keeps_doif keeps_return keeps_gets fresh_rules; simp)

lemma fresh_progress: "fresh s \<Longrightarrow> sed_progress s"
  by (simp add: fresh_def sed_progress_def)

lemma si_radio_main:
  assumes "gpio_works (kernel E)"
  shows "wp (si_main E) (\<lambda>r t. r = None \<longrightarrow> si_radio E t) s"
proof -
  have "wp (set_outputs_for_redcon E TXING_REDCON_OFF) (\<lambda>rc t. rc = 0 \<longrightarrow> dozing E t) t" for t
    by (rule wp_mono [OF si_outputs_view [OF assms]]) (auto simp: dozing_def si_radio_def redcon_levels)
  then have outputs: "wp (init_outputs E) (\<lambda>rc t. rc = 0 \<longrightarrow> dozing E t) t" for t
    unfolding init_outputs_def by (auto simp: fw_simps errno_defs)
  have "keeps (dozing E) (start_services E)" "keeps (dozing E) (log_srp_psa_diagnostics E)"
    "keeps (dozing E) (register_pm_transition_diagnostics E)" "keeps (dozing E) (init_battery E)"
    unfolding start_services_def start_thread_def start_coap_def start_srp_def set_srp_host_address_def
      reset_thread_flags_def configure_modes log_srp_psa_diagnostics_def probe_volatile_psa_key_def
      log_psa_key_attributes_def probe_psa_key_operations_def register_pm_transition_diagnostics_def
      init_battery_def Let_def
    by (intro si_radio_rules si_radio_configure si_radio_recovery; simp add: radio_call_def)+
  then have services: "keeps (dozing E) (run_services E)"
    unfolding run_services_def by (intro si_radio_rules; simp add: radio_call_def)
  have "wp (if rc \<noteq> 0 then ret (Some rc) else run_services E) (\<lambda>r t. r = None \<longrightarrow> si_radio E t) t"
    if "rc = 0 \<longrightarrow> dozing E t" for rc t
    using that wp_mono [OF keepsD [OF services]] by (auto simp: wp_return dozing_def)
  then show ?thesis
    unfolding si_main_def by (intro wp_after wp_bindI [OF outputs]) blast
qed

definition si_inv :: "si_env \<Rightarrow> si_state \<Rightarrow> bool" where
  "si_inv E s \<longleftrightarrow> si_ok E s \<and> tidy 0 64 s \<and> (gpio_works (kernel E) \<longrightarrow> si_radio E s) \<and>
     (production E \<longrightarrow> sed_progress s) \<and> (battery_stops (kernel E) \<longrightarrow> battery_rest s)"

interpretation si_life: event_system "si_started E" "si_step E" "si_inv E" for E
proof unfold_locales
  fix s
  assume "si_started E s"
  then have run: "run_state (si_main E) initial_si_state = (None, s)" by (simp add: si_started_def)
  have "fresh initial_si_state" "tidy 0 64 initial_si_state" "battery_rest initial_si_state"
    by (simp_all add: fresh_def tidy_def battery_rest_def initial_si_state_def ascii_def adc_awake_def pin_level_def)
  then show "si_inv E s"
    using keeps_run [OF si_ok_main initial_si_ok run] keeps_run [OF fresh_main _ run]
      keeps_run [OF si_responses.keeps_main _ run] keeps_run [OF si_battery.keeps_main _ run]
      wpD [OF si_radio_main run]
    by (simp add: si_inv_def fresh_progress)
next
  fix s ev t
  assume "si_inv E s" "si_step E s ev t"
  then show "si_inv E t"
    unfolding si_inv_def
    using si_battery.step_inv [of E s ev t]
    by (auto intro: si_step_ok si_step_radio si_step_progress si_responses.step_inv)
qed

end
