(* ===== verification/PowerSiProps.thy ===== *)
theory PowerSiProps
  imports PowerSiLife
begin

text \<open>
  The properties of the power-si firmware, with the devices that witness them.
\<close>

section \<open>A device for the witnesses\<close>

text \<open>
  A provisioned device whose hardware works; OpenThread reports the role child with the receiver on.
  The two arguments select the test options of the build.
\<close>

definition sample_si_record :: bytes where
  "sample_si_record = TXT1_MAGIC @ [1, 1, 1, 0, 1, 0, 0x61, 0x7f, 0, 0, 0, 0]"

definition sample_si_kernel :: "si_work kernel" where
  "sample_si_kernel cs c = (case c of
     Driver d \<Rightarrow> (case d of DeviceReady dv \<Rightarrow> \<lparr>code = 1, out = 0, data = []\<rparr>
                 | _ \<Rightarrow> \<lparr>code = 0, out = 0, data = []\<rparr>)
   | Bus b \<Rightarrow> (case b of FlashRead pos len \<Rightarrow> \<lparr>code = 0, out = 0, data = take len (drop pos sample_si_record)\<rparr>
               | _ \<Rightarrow> \<lparr>code = 0, out = 0, data = []\<rparr>)
   | Ot t \<Rightarrow> \<lparr>code = (if t = OtInstance \<or> t = OtMeshLocalEid \<or> t = OtGetRxOnWhenIdle then 1
                     else if t = OtDeviceRole then 2 else 0), out = 0, data = []\<rparr>
   | Coap m \<Rightarrow> (case m of MessageCode \<Rightarrow> \<lparr>code = 3, out = 0, data = []\<rparr>
                | MessageLength \<Rightarrow> \<lparr>code = 0, out = 10, data = []\<rparr>
                | MessageRead pos len \<Rightarrow> \<lparr>code = int len, out = 0, data = []\<rparr>
                | NewMessage \<Rightarrow> \<lparr>code = 1, out = 0, data = []\<rparr>
                | _ \<Rightarrow> \<lparr>code = 0, out = 0, data = []\<rparr>)
   | _ \<Rightarrow> \<lparr>code = 0, out = 0, data = []\<rparr>)"

definition sample_si_env :: "bool \<Rightarrow> bool \<Rightarrow> si_env" where
  "sample_si_env link_test recovery_test =
     \<lparr>kernel = sample_si_kernel, json_obj_parse = (\<lambda>_. (3, 1, 3)), crc32_ieee = (\<lambda>_. 0),
      has_factory_partition = True, battery_reporting = True, adc_differential = False,
      redcon_link_mode_test = link_test, sed_recovery_test = recovery_test,
      pm_transition_diagnostics = True, srp_psa_diagnostics = True, openthread_key_ids_begin = 0\<rparr>"

lemma sample_si_options [simp]:
  "redcon_link_mode_test (sample_si_env l r) = l" "sed_recovery_test (sample_si_env l r) = r"
  "kernel (sample_si_env l r) = sample_si_kernel" "battery_reporting (sample_si_env l r)"
  "json_obj_parse (sample_si_env l r) bs = (3, 1, 3)"
  by (simp_all add: sample_si_env_def)

lemma sample_si_codes [simp]:
  "code (sample_si_kernel cs (Gpio g)) = 0" "code (sample_si_kernel cs (Driver (DeviceReady dv))) = 1"
  "code (sample_si_kernel cs (Driver PmSuspend)) = 0"
  "code (sample_si_kernel cs (Ot OtInstance)) = 1" "code (sample_si_kernel cs (Ot OtDeviceRole)) = 2"
  "code (sample_si_kernel cs (Ot OtGetRxOnWhenIdle)) = 1"
  "code (sample_si_kernel cs (Ot (OtSetLinkMode on))) = 0" "code (sample_si_kernel cs (Ot OtSetPollPeriod)) = 0"
  by (simp_all add: sample_si_kernel_def)

lemma sample_si_works: "gpio_works sample_si_kernel" "battery_stops sample_si_kernel"
  by (simp_all add: gpio_works_def battery_stops_def)

lemma sample_si_started: "\<exists>s. si_started (sample_si_env l r) s"
proof -
  let ?E = "sample_si_env l r"
  have outputs: "wp (init_outputs ?E) (\<lambda>rc _. rc = 0) t" for t
    by (simp add: init_outputs_def set_outputs_for_redcon_def fw_simps)
  have "wp (run_services ?E) (\<lambda>r _. r = None) t" for t
    unfolding run_services_def
    by (rule wp_after, subst wp_bind, subst wp_sys_ok, simp, (rule wp_after)+) (simp add: wp_return)
  then have "wp (si_main ?E) (\<lambda>r _. r = None) initial_si_state"
    unfolding si_main_def by (intro wp_after wp_bindI [OF outputs]) simp
  then show ?thesis by (auto simp: si_started_def wp_def split: prod.splits)
qed

text \<open>From a started device, an event whose handler establishes \<open>Q\<close>.\<close>

lemma sample_si_callback:
  assumes "\<And>s. si_started E s \<Longrightarrow> wp (si_handler E ev) (\<lambda>_. Q) s" and "\<forall>w. ev \<noteq> RunWork w"
    and "\<exists>s. si_started E s"
  shows "\<exists>s t. si_started E s \<and> steps (si_step E) s [ev] t \<and> Q t"
proof -
  obtain s where s: "si_started E s" using assms(3) by blast
  obtain u t where run: "run_state (si_handler E ev) s = (u, t)" by (rule prod.exhaust)
  with assms(2) have "si_step E s ev t" by (auto intro: si_step.callback)
  then have "steps (si_step E) s [ev] t" by (rule steps_single [of "si_step E"])
  with s wpD [OF assms(1) [OF s] run] show ?thesis by blast
qed

lemma sample_si_wakes:
  "wp (redcon_handler (sample_si_env True False)) (\<lambda>_ t. redcon_level t = TXING_REDCON_ON) s"
proof -
  let ?E = "sample_si_env True False"
  have answer: "wp (send_state_response ?E cc) (\<lambda>_ t. redcon_level t = TXING_REDCON_ON) t"
    if "redcon_level t = TXING_REDCON_ON" for cc t
    by (rule keepsD [OF only_calls_keeps [OF si_quiet_send_state]]) (simp_all add: that)
  have "wp (apply_redcon ?E TXING_REDCON_ON) (\<lambda>_ t. redcon_level t = TXING_REDCON_ON) t" for t
    by (simp add: apply_redcon_def set_outputs_for_redcon_def enter_redcon_on_def configure_modes
        apply_sed_debug_redcon_thread_mode_def settle_redcon_thread_mode_def reset_sed_recovery_def
        configure_thread_mtd_mode_locked_def si_work_defs fw_simps ot_errors answer)
  moreover have "wp (parse_redcon_request ?E) (\<lambda>r _. r = Some (1, 3)) t" for t
    by (simp add: parse_redcon_request_def fw_simps Let_def sample_si_kernel_def REQUEST_JSON_SIZE_def)
  ultimately show ?thesis
    unfolding redcon_handler_def
    by (subst wp_bind, subst wp_sys_code)
      (auto simp: sample_si_kernel_def OT_COAP_CODE_PUT_def TXING_PROTOCOL_VERSION_def redcon_levels
        intro!: wp_bindI)
qed

section \<open>Properties\<close>





text \<open>
  Recovery attempts are bounded.  In every build and whatever the kernel answers, at most three
  recovery attempts are counted, the recovery work is only pending while attempts are left, the
  pending flag implies that Zephyr holds the work, a delayed return to sleep belongs to level 4, and
  the queue of power-mode changes never exceeds its depth and is always going to be drained.
\<close>

theorem si_recovery_bounded:
  assumes "si_started E s" and "steps (si_step E) s es t"
  shows "0 \<le> sed_recovery_attempts t \<and> sed_recovery_attempts t \<le> 3 \<and>
    (RecoveryWork \<in> pending t \<longrightarrow> sed_recovery_attempts t < 3) \<and>
    (sed_recovery_pending t \<longrightarrow> RecoveryWork \<in> pending t) \<and>
    (sleep_transition_requested t \<longrightarrow> redcon_level t = 4) \<and>
    length (pm_sleep_mode_changes t) \<le> 8 \<and>
    (pm_sleep_mode_changes t \<noteq> [] \<longrightarrow> PmLogWork \<in> pending t)"
  using si_life.run_inv [OF assms]
  by (simp add: si_inv_def si_ok_def SED_RECOVERY_MAX_ATTEMPTS_def PM_SLEEP_MODE_CHANGE_QUEUE_DEPTH_def
      redcon_levels)

text \<open>A run that goes to sleep and is then found with the receiver on.\<close>

lemma sample_si_lost:
  obtains s t where "si_started (sample_si_env False True) s"
    "steps (si_step (sample_si_env False True)) s
       [SrpCallback 0, RunWork SedTransitionWork, RunWork SedFallbackWork] t"
    "sed_recovery_pending t"
proof -
  let ?E = "sample_si_env False True"
  obtain s where s: "si_started ?E s" using sample_si_started by blast
  then have fresh: "fresh s" using keeps_run [OF fresh_main, of initial_si_state]
    by (auto simp: si_started_def fresh_def initial_si_state_def)
  obtain u1 s1 where r1: "run_state (si_handler ?E (SrpCallback 0)) s = (u1, s1)" by (rule prod.exhaust)
  let ?s1 = "s1\<lparr>pending := pending s1 - {SedTransitionWork}\<rparr>"
  obtain u2 s2 where r2: "run_state (si_handler ?E (RunWork SedTransitionWork)) ?s1 = (u2, s2)"
    by (rule prod.exhaust)
  let ?s2 = "s2\<lparr>pending := pending s2 - {SedFallbackWork}\<rparr>"
  obtain u3 t where r3: "run_state (si_handler ?E (RunWork SedFallbackWork)) ?s2 = (u3, t)"
    by (rule prod.exhaust)
  have "wp (si_handler ?E (SrpCallback 0)) (\<lambda>_ t. SedTransitionWork \<in> pending t \<and>
      srp_registration_accepted t \<and> \<not> sed_mode_active t \<and> \<not> sed_transition_failed t) s"
    using fresh by (simp add: srp_client_callback_def ot_errors fresh_def fw_simps si_work_defs)
  note 1 = wpD [OF this r1]
  have "wp (si_handler ?E (RunWork SedTransitionWork)) (\<lambda>_ t. sed_mode_active t \<and>
      \<not> sed_transition_failed t \<and> SedFallbackWork \<in> pending t \<and> sed_recovery_attempts t = 0) ?s1"
    using 1 by (simp add: work_handler_def sed_transition_work_handler_def enter_sed_mode_def configure_modes
        reset_sed_recovery_def configure_thread_mtd_mode_locked_def fw_simps si_work_defs
        OT_DEVICE_ROLE_CHILD_def ot_errors)
  note 2 = wpD [OF this r2]
  have "wp (si_handler ?E (RunWork SedFallbackWork)) (\<lambda>_ t. sed_recovery_pending t) ?s2"
    using 2 by (simp add: work_handler_def sed_fallback_work_handler_def attached_as_requested_def
        schedule_sed_recovery_def fw_simps si_work_defs SED_RECOVERY_MAX_ATTEMPTS_def)
  note 3 = wpD [OF this r3]
  have "si_step ?E s (SrpCallback 0) s1" "si_step ?E s1 (RunWork SedTransitionWork) s2"
    "si_step ?E s2 (RunWork SedFallbackWork) t"
    using r1 r2 r3 1 2 by (auto intro: si_step.callback si_step.work)
  then have "steps (si_step ?E) s [SrpCallback 0, RunWork SedTransitionWork, RunWork SedFallbackWork] t"
    by (meson steps_Cons steps_single)
  with s 3 that show ?thesis by blast
qed

theorem si_recovery_bounded_witness:
  "\<exists>s t. si_started (sample_si_env False True) s \<and>
     steps (si_step (sample_si_env False True)) s
       [SrpCallback 0, RunWork SedTransitionWork, RunWork SedFallbackWork] t \<and>
     RecoveryWork \<in> pending t \<and> sed_recovery_attempts t < 3"
proof -
  obtain s t where run: "si_started (sample_si_env False True) s"
    "steps (si_step (sample_si_env False True)) s
       [SrpCallback 0, RunWork SedTransitionWork, RunWork SedFallbackWork] t"
    and t: "sed_recovery_pending t" using sample_si_lost .
  from si_recovery_bounded [OF run] run t show ?thesis by blast
qed

text \<open>
  Responses and battery.  After any sequence of events every response message that was allocated
  has been sent or freed and the next state response fits its buffer, so that the internal-error
  branch for an overlong text is never taken; on hardware that can be switched off, the battery
  divider is off and the converter is suspended, on every path of a measurement.
\<close>

theorem si_responses_and_battery:
  assumes "si_started E s" and "steps (si_step E) s es t"
  shows "held_messages (calls t) = 0 \<and>
    (\<exists>battery u. run_state (send_state_response E cc) t =
       run_state (send_response E cc (Some (state_json (thing_name t) (redcon_level t) battery))) u) \<and>
    (battery_stops (kernel E) \<longrightarrow> \<not> adc_awake (calls t) \<and> pin_level BatteryEnable (calls t) \<noteq> Some True)"
proof -
  from si_life.run_inv [OF assms]
  have ok: "si_ok E t" "tidy 0 64 t" and rest: "battery_stops (kernel E) \<longrightarrow> battery_rest t"
    by (simp_all add: si_inv_def)
  obtain battery u where run: "run_state (if battery_reporting E then sample_battery_mv E else ret None) t =
      (battery, u)" by (rule prod.exhaust)
  have "keeps (\<lambda>v. thing_name v = thing_name t \<and> redcon_level v = redcon_level t)
      (if battery_reporting E then sample_battery_mv E else ret None)"
    by (intro keeps_if keeps_return only_calls_keeps [OF si_quiet_sample]) simp
  from keeps_run [OF this _ run] have "thing_name u = thing_name t" "redcon_level u = redcon_level t" by simp_all
  moreover have "length (state_json (thing_name t) (redcon_level t) battery) < STATE_JSON_SIZE"
    using length_state_json [of "thing_name t" "redcon_level t" battery] ok
    by (simp add: si_ok_def tidy_def STATE_JSON_SIZE_def)
  ultimately have "run_state (send_state_response E cc) t =
      run_state (send_response E cc (Some (state_json (thing_name t) (redcon_level t) battery))) u"
    by (simp add: send_state_response_def format_state_def gets_def run)
  with ok rest show ?thesis by (auto simp: tidy_def battery_rest_def)
qed

theorem si_responses_and_battery_witness:
  "\<exists>s t. si_started (sample_si_env True False) s \<and>
     steps (si_step (sample_si_env True False)) s [CoapRedcon] t \<and> held_messages (calls t) = 0 \<and>
     \<not> adc_awake (calls t)"
proof -
  have "\<exists>s t. si_started (sample_si_env True False) s \<and>
      steps (si_step (sample_si_env True False)) s [CoapRedcon] t \<and> redcon_level t = TXING_REDCON_ON"
    by (rule sample_si_callback) (simp_all add: sample_si_wakes sample_si_started)
  then obtain s t where run: "si_started (sample_si_env True False) s"
    "steps (si_step (sample_si_env True False)) s [CoapRedcon] t" by blast
  have "battery_stops (kernel (sample_si_env True False))" using sample_si_works by simp
  with si_responses_and_battery [OF run] run show ?thesis by blast
qed

text \<open>
  A half-failed request is answered with an error but not rolled back.  When the power pin
  accepts its level and the LED pin does not, a request for level 3 leaves the power pin on while the
  device keeps reporting its previous level, and the link mode is not touched.
\<close>

theorem si_half_failed_request:
  assumes "\<And>cs. code (kernel E cs (Gpio (GpioSet PowerPin True))) = 0"
    and "\<And>cs. code (kernel E cs (Gpio (GpioSet Led True))) \<noteq> 0"
    and "run_state (apply_redcon E TXING_REDCON_ON) s = (u, t)"
  shows "pin_level PowerPin (calls t) = Some True \<and> redcon_level t = redcon_level s \<and>
    pin_level Led (calls t) = pin_level Led (calls s) \<and> link_mode (calls t) = link_mode (calls s)"
proof -
  let ?Q = "\<lambda>t. pin_level PowerPin (calls t) = Some True \<and> redcon_level t = redcon_level s \<and>
    pin_level Led (calls t) = pin_level Led (calls s) \<and> link_mode (calls t) = link_mode (calls s)"
  have "keeps ?Q (send_response E OT_COAP_CODE_INTERNAL_ERROR None)"
    by (rule only_calls_keeps [OF si_quiet_send]) (simp add: quiet_views)
  note answer = keepsD [OF this]
  have "wp (apply_redcon E TXING_REDCON_ON) (\<lambda>_. ?Q) s"
    unfolding apply_redcon_def set_outputs_for_redcon_def
    using assms(1,2) by (auto simp: fw_simps intro!: answer)
  from wpD [OF this assms(3)] show ?thesis .
qed

text \<open>A device at level 4 whose LED port is broken.\<close>

definition broken_led_env :: si_env where
  "broken_led_env = (sample_si_env False False)\<lparr>kernel := \<lambda>cs c.
     if c = Gpio (GpioSet Led True) then \<lparr>code = - EIO, out = 0, data = []\<rparr> else sample_si_kernel cs c\<rparr>"

theorem si_half_failed_request_witness:
  "pin_level PowerPin (calls (snd (run_state (apply_redcon broken_led_env TXING_REDCON_ON) initial_si_state))) =
     Some True \<and>
   redcon_level (snd (run_state (apply_redcon broken_led_env TXING_REDCON_ON) initial_si_state)) = 4"
proof -
  have power: "code (kernel broken_led_env cs (Gpio (GpioSet PowerPin True))) = 0" for cs
    by (simp add: broken_led_env_def)
  have led: "code (kernel broken_led_env cs (Gpio (GpioSet Led True))) \<noteq> 0" for cs
    by (simp add: broken_led_env_def errno_defs)
  from si_half_failed_request [OF power led surjective_pairing] show ?thesis
    by (simp add: initial_si_state_def redcon_levels)
qed

end
