(* ===== verification/Binary64.thy ===== *)
theory Binary64
  imports Prelude "HOL-Library.Log_Nat"
begin

text \<open>
  The C++ \<^verbatim>\<open>double\<close> of the board code: IEEE 754 binary64 with rounding to nearest, ties to even, as
  executable functions on rational numbers.  Infinities and NaN are values of their own; the sign of
  a zero is not represented, since no operation that the sources use can tell the two zeros apart
  (they compare equal and the sources never divide by a computed zero).  The component proofs rest
  on two laws of rounding, stated as a locale and proved here for binary64.
\<close>

section \<open>Rounding\<close>

text \<open>The exponent of a positive rational: \<open>2 ^ e \<le> x < 2 ^ (e + 1)\<close>.\<close>

definition exponent :: "rat \<Rightarrow> int" where
  "exponent x = (if 1 \<le> x then int (floorlog 2 (nat \<lfloor>x\<rfloor>)) - 1
                 else - int (floorlog 2 (nat (\<lceil>1 / x\<rceil> - 1))))"

text \<open>The distance of neighbouring values, as a power of two: 53 bits of precision, at least
  \<open>2 ^ (-1074)\<close>.\<close>

definition unit_exponent :: "rat \<Rightarrow> int" where
  "unit_exponent x = max (exponent x - 52) (- 1074)"

definition power2 :: "int \<Rightarrow> rat" where
  "power2 e = (if 0 \<le> e then 2 ^ nat e else 1 / 2 ^ nat (- e))"

definition round_even :: "rat \<Rightarrow> int" where
  "round_even x = (let n = \<lfloor>x\<rfloor>; d = x - of_int n in
     if d < 1 / 2 \<or> (d = 1 / 2 \<and> even n) then n else n + 1)"

definition rnd :: "rat \<Rightarrow> rat" where
  "rnd x = (if x = 0 then 0
            else let q = power2 (unit_exponent \<bar>x\<bar>) in of_int (round_even (x / q)) * q)"

section \<open>The laws of rounding\<close>

text \<open>Between the integers around its argument, hence exact on integers, below \<open>2 ^ 53\<close>.\<close>

locale rounding =
  fixes rn :: "rat \<Rightarrow> rat"
  assumes between: "\<bar>x\<bar> < 2 ^ 53 \<Longrightarrow> of_int \<lfloor>x\<rfloor> \<le> rn x \<and> rn x \<le> of_int \<lceil>x\<rceil>"
begin

lemma int_exact: "\<bar>n\<bar> < 2 ^ 53 \<Longrightarrow> rn (of_int n) = of_int n"
proof -
  assume "\<bar>n\<bar> < 2 ^ 53"
  then have "\<bar>of_int n :: rat\<bar> < 2 ^ 53"
    by (metis of_int_abs of_int_less_iff of_int_numeral of_int_power)
  from between [OF this] show ?thesis by simp
qed

lemma le_int: "x \<le> of_int n \<Longrightarrow> \<bar>x\<bar> < 2 ^ 53 \<Longrightarrow> rn x \<le> of_int n"
  using between [of x] by (meson ceiling_le of_int_le_iff order.trans)

lemma int_le: "of_int n \<le> x \<Longrightarrow> \<bar>x\<bar> < 2 ^ 53 \<Longrightarrow> of_int n \<le> rn x"
  using between [of x] by (meson le_floor_iff of_int_le_iff order.trans)

end

lemma round_even_between: "\<lfloor>x\<rfloor> \<le> round_even x \<and> round_even x \<le> \<lceil>x\<rceil>"
proof -
  have "\<lfloor>x\<rfloor> + 1 \<le> \<lceil>x\<rceil>" if "x - of_int \<lfloor>x\<rfloor> \<ge> 1 / 2"
    using that by linarith
  then show ?thesis
    by (auto simp: round_even_def Let_def floor_le_ceiling)
qed

lemma power2_pos [simp]: "0 < power2 e"
  by (simp add: power2_def)

lemma power2_inverse: "e \<le> 0 \<Longrightarrow> 1 / power2 e = of_int (2 ^ nat (- e))"
  by (simp add: power2_def)

lemma exponent_small: "0 < x \<Longrightarrow> x < 2 ^ 53 \<Longrightarrow> exponent x \<le> 52"
proof (cases "1 \<le> x")
  case True
  assume "x < 2 ^ 53"
  then have "\<lfloor>x\<rfloor> < 2 ^ 53" by (simp add: floor_less_iff)
  with True have "nat \<lfloor>x\<rfloor> < 2 ^ 53" by (simp add: nat_less_iff)
  then have "floorlog 2 (nat \<lfloor>x\<rfloor>) \<le> 53" by (simp add: floorlog_le_iff)
  with True show ?thesis by (simp add: exponent_def)
qed (simp add: exponent_def)

lemma rnd_between:
  assumes "\<bar>x\<bar> < 2 ^ 53"
  shows "of_int \<lfloor>x\<rfloor> \<le> rnd x \<and> rnd x \<le> of_int \<lceil>x\<rceil>"
proof (cases "x = 0")
  case True
  then show ?thesis by (simp add: rnd_def)
next
  case False
  then have x: "0 < \<bar>x\<bar>" "\<bar>x\<bar> < 2 ^ 53" using assms by auto
  let ?e = "unit_exponent \<bar>x\<bar>" and ?k = "2 ^ nat (- unit_exponent \<bar>x\<bar>) :: int"
  let ?q = "power2 ?e"
  have "?e \<le> 0" using exponent_small [OF x] by (simp add: unit_exponent_def)
  then have q: "1 / ?q = of_int ?k" by (rule power2_inverse)
  then have k: "of_int ?k * ?q = 1" by (metis less_irrefl nonzero_eq_divide_eq power2_pos)
  have "\<lfloor>x\<rfloor> * ?k \<le> round_even (x / ?q)"
  proof -
    have "of_int (\<lfloor>x\<rfloor> * ?k) \<le> x * of_int ?k" by (simp add: mult_right_mono)
    also have "\<dots> = x / ?q" using q by (metis times_divide_eq_right mult_1_right)
    finally have "\<lfloor>x\<rfloor> * ?k \<le> \<lfloor>x / ?q\<rfloor>" by (simp only: le_floor_iff)
    with round_even_between [of "x / ?q"] show ?thesis by linarith
  qed
  moreover have "round_even (x / ?q) \<le> \<lceil>x\<rceil> * ?k"
  proof -
    have "x / ?q = x * of_int ?k" using q by (metis times_divide_eq_right mult_1_right)
    also have "\<dots> \<le> of_int (\<lceil>x\<rceil> * ?k)" by (simp add: mult_right_mono)
    finally have "\<lceil>x / ?q\<rceil> \<le> \<lceil>x\<rceil> * ?k" by (simp only: ceiling_le_iff)
    with round_even_between [of "x / ?q"] show ?thesis by linarith
  qed
  ultimately have "of_int (\<lfloor>x\<rfloor> * ?k) * ?q \<le> of_int (round_even (x / ?q)) * ?q"
      "of_int (round_even (x / ?q)) * ?q \<le> of_int (\<lceil>x\<rceil> * ?k) * ?q"
    by (simp_all only: mult_right_mono of_int_le_iff less_imp_le power2_pos)
  then have "of_int \<lfloor>x\<rfloor> \<le> of_int (round_even (x / ?q)) * ?q"
      "of_int (round_even (x / ?q)) * ?q \<le> of_int \<lceil>x\<rceil>"
    by (simp_all only: of_int_mult mult.assoc k mult_1_right)
  moreover have "rnd x = of_int (round_even (x / ?q)) * ?q"
    using False by (simp only: rnd_def Let_def if_False)
  ultimately show ?thesis by simp
qed

interpretation binary64: rounding rnd
  by unfold_locales (rule rnd_between)

section \<open>Values and operations\<close>

datatype double = Fin rat | Infinite bool | NaN

text \<open>The result of an operation whose exact value is \<open>x\<close>; \<open>Infinite True\<close> is negative infinity.\<close>

definition round_double :: "rat \<Rightarrow> double" where
  "round_double x = (let y = rnd x in if \<bar>y\<bar> \<ge> 2 ^ 1024 then Infinite (y < 0) else Fin y)"

definition of_integer :: "int \<Rightarrow> double" where
  "of_integer n = round_double (of_int n)"

fun isfinite :: "double \<Rightarrow> bool" where
  "isfinite (Fin x) = True"
| "isfinite (Infinite s) = False"
| "isfinite NaN = False"

fun dadd :: "double \<Rightarrow> double \<Rightarrow> double" where
  "dadd (Fin x) (Fin y) = round_double (x + y)"
| "dadd (Infinite s) (Infinite t) = (if s = t then Infinite s else NaN)"
| "dadd (Infinite s) (Fin y) = Infinite s"
| "dadd (Fin x) (Infinite t) = Infinite t"
| "dadd NaN y = NaN"
| "dadd x NaN = NaN"

fun dneg :: "double \<Rightarrow> double" where
  "dneg (Fin x) = Fin (- x)"
| "dneg (Infinite s) = Infinite (\<not> s)"
| "dneg NaN = NaN"

definition dsub :: "double \<Rightarrow> double \<Rightarrow> double" where
  "dsub x y = dadd x (dneg y)"

fun dmul :: "double \<Rightarrow> double \<Rightarrow> double" where
  "dmul (Fin x) (Fin y) = round_double (x * y)"
| "dmul (Infinite s) (Infinite t) = Infinite (s \<noteq> t)"
| "dmul (Infinite s) (Fin y) = (if y = 0 then NaN else Infinite (s \<noteq> (y < 0)))"
| "dmul (Fin x) (Infinite t) = (if x = 0 then NaN else Infinite (t \<noteq> (x < 0)))"
| "dmul NaN y = NaN"
| "dmul x NaN = NaN"

text \<open>Division by a nonzero finite number, the only kind that the sources perform.\<close>

fun ddiv :: "double \<Rightarrow> rat \<Rightarrow> double" where
  "ddiv (Fin x) y = round_double (x / y)"
| "ddiv (Infinite s) y = Infinite (s \<noteq> (y < 0))"
| "ddiv NaN y = NaN"

text \<open>Division by any value that is converted from an unsigned integer (so that a zero is positive).\<close>

fun ddivd :: "double \<Rightarrow> double \<Rightarrow> double" where
  "ddivd x (Fin y) = (if y \<noteq> 0 then ddiv x y else case x of
     Fin v \<Rightarrow> if v = 0 then NaN else Infinite (v < 0) | Infinite s \<Rightarrow> Infinite s | NaN \<Rightarrow> NaN)"
| "ddivd (Fin x) (Infinite s) = Fin 0"
| "ddivd x y = NaN"

fun dless :: "double \<Rightarrow> double \<Rightarrow> bool" where
  "dless (Fin x) (Fin y) = (x < y)"
| "dless (Infinite s) (Infinite t) = (s \<and> \<not> t)"
| "dless (Infinite s) (Fin y) = s"
| "dless (Fin x) (Infinite t) = (\<not> t)"
| "dless NaN y = False"
| "dless x NaN = False"

text \<open>\<^verbatim>\<open>x <= y\<close>, false for NaN.\<close>

definition dle :: "double \<Rightarrow> double \<Rightarrow> bool" where
  "dle x y \<longleftrightarrow> x \<noteq> NaN \<and> y \<noteq> NaN \<and> \<not> dless y x"

text \<open>\<^verbatim>\<open>std::clamp\<close>.\<close>

definition dclamp :: "double \<Rightarrow> rat \<Rightarrow> rat \<Rightarrow> double" where
  "dclamp v lo hi = (if dless v (Fin lo) then Fin lo else if dless (Fin hi) v then Fin hi else v)"

text \<open>\<^verbatim>\<open>std::llround\<close>: nearest integer, ties away from zero; a non-finite argument has no defined
  result and the value chosen is the one of the common hardware.\<close>

fun llround :: "double \<Rightarrow> int" where
  "llround (Fin x) = (if 0 \<le> x then \<lfloor>x + 1 / 2\<rfloor> else - \<lfloor>1 / 2 - x\<rfloor>)"
| "llround (Infinite s) = - (2 ^ 63)"
| "llround NaN = - (2 ^ 63)"

text \<open>\<^verbatim>\<open>static_cast<std::int32_t>\<close> of a 64-bit value.\<close>

definition to_i32 :: "int \<Rightarrow> int" where
  "to_i32 x = (x + 2 ^ 31) mod 2 ^ 32 - 2 ^ 31"

lemma to_i32_id [simp]: "- (2 ^ 31) \<le> x \<Longrightarrow> x < 2 ^ 31 \<Longrightarrow> to_i32 x = x"
  by (simp add: to_i32_def)

text \<open>The finite values of the type lie below \<open>2 ^ 1024\<close>.\<close>

fun in_range :: "double \<Rightarrow> bool" where
  "in_range (Fin x) = (\<bar>x\<bar> < 2 ^ 1024)"
| "in_range (Infinite s) = True"
| "in_range NaN = True"

section \<open>Bounds\<close>

lemma in_range_round_double [simp]: "in_range (round_double x)"
  by (simp add: round_double_def Let_def)

lemma exponent_le:
  assumes "x < 2 ^ n"
  shows "exponent x \<le> int n"
proof (cases "1 \<le> x")
  case True
  from assms have "\<lfloor>x\<rfloor> < 2 ^ n" by (simp add: floor_less_iff)
  with True have "nat \<lfloor>x\<rfloor> < 2 ^ n" by (simp add: nat_less_iff)
  then have "floorlog 2 (nat \<lfloor>x\<rfloor>) \<le> n" by (simp add: floorlog_le_iff)
  with True show ?thesis by (simp add: exponent_def)
qed (simp add: exponent_def)

lemma power2_scale:
  assumes "e \<le> int n"
  shows "of_int (2 ^ nat (int n - e)) * power2 e = 2 ^ n"
proof (cases "0 \<le> e")
  case True
  then have "nat (int n - e) + nat e = n" using assms by linarith
  with True show ?thesis by (simp add: power2_def flip: power_add)
next
  case False
  then have "nat (int n - e) = n + nat (- e)" by linarith
  with False show ?thesis by (simp add: power2_def power_add)
qed

text \<open>Rounding does not cross a power of two.\<close>

lemma rnd_le_power:
  assumes "\<bar>x\<bar> < 2 ^ n"
  shows "\<bar>rnd x\<bar> \<le> 2 ^ n"
proof (cases "x = 0")
  case False
  let ?e = "unit_exponent \<bar>x\<bar>"
  let ?q = "power2 ?e" and ?k = "2 ^ nat (int n - ?e) :: int"
  have "?e \<le> int n" using exponent_le [OF assms] by (simp add: unit_exponent_def)
  then have k: "of_int ?k * ?q = 2 ^ n" by (rule power2_scale)
  have "\<bar>x\<bar> \<le> of_int ?k * ?q" using assms k by simp
  then have "\<bar>x / ?q\<bar> \<le> of_int ?k" by (simp add: abs_divide abs_of_pos pos_divide_le_eq)
  then have "- ?k \<le> \<lfloor>x / ?q\<rfloor>" "\<lceil>x / ?q\<rceil> \<le> ?k"
    by (simp_all only: le_floor_iff ceiling_le_iff abs_le_iff of_int_minus minus_le_iff simp_thms)
  with round_even_between [of "x / ?q"] have "\<bar>round_even (x / ?q)\<bar> \<le> ?k" by linarith
  then have "\<bar>of_int (round_even (x / ?q)) :: rat\<bar> \<le> of_int ?k" by (metis of_int_abs of_int_le_iff)
  then have "\<bar>of_int (round_even (x / ?q))\<bar> * ?q \<le> of_int ?k * ?q" by (intro mult_right_mono) (simp_all add: less_imp_le)
  moreover have "\<bar>rnd x\<bar> = \<bar>of_int (round_even (x / ?q))\<bar> * ?q"
    using False by (simp only: rnd_def Let_def if_False abs_mult abs_of_pos power2_pos)
  ultimately show ?thesis using k by (simp only:)
qed (simp add: rnd_def)

lemma half_finite:
  assumes "\<bar>w\<bar> < 2 ^ 1024"
  shows "isfinite (ddiv (Fin w) 2)"
proof -
  from assms have "\<bar>w / 2\<bar> < 2 ^ 1023" by simp
  from rnd_le_power [OF this] have "\<bar>rnd (w / 2)\<bar> \<le> 2 ^ 1023" .
  also have "(2 ^ 1023 :: rat) < 2 ^ 1024" by (rule power_strict_increasing) simp_all
  finally show ?thesis by (simp add: round_double_def Let_def not_le)
qed

lemma round_double_small:
  assumes "\<bar>x\<bar> < 2 ^ 53"
  shows "round_double x = Fin (rnd x)"
proof -
  have "of_int (- (2 ^ 53)) \<le> x" "x \<le> of_int (2 ^ 53)"
    using assms by (simp_all add: abs_less_iff)
  then have "of_int (- (2 ^ 53)) \<le> rnd x" "rnd x \<le> of_int (2 ^ 53)"
    using assms binary64.int_le binary64.le_int by blast+
  then have "\<bar>rnd x\<bar> \<le> 2 ^ 53" by (simp add: abs_le_iff)
  also have "(2 ^ 53 :: rat) < 2 ^ 1024" by (rule power_strict_increasing) simp_all
  finally show ?thesis by (simp add: round_double_def Let_def not_le)
qed

text \<open>A product or sum of bounded values stays within integer bounds.\<close>

lemma round_double_bounds:
  assumes "of_int a \<le> x" and "x \<le> of_int b" and "- (2 ^ 53) < a" and "b < 2 ^ 53"
  obtains y where "round_double x = Fin y" and "of_int a \<le> y" and "y \<le> of_int b"
proof -
  have "(of_int (- (2 ^ 53)) :: rat) < of_int a" "(of_int b :: rat) < of_int (2 ^ 53)"
    using assms(3,4) by (simp_all only: of_int_less_iff)
  with assms have "\<bar>x\<bar> < 2 ^ 53" by (simp add: abs_less_iff)
  then show thesis
    using that round_double_small binary64.int_le [OF assms(1)] binary64.le_int [OF assms(2)] by blast
qed

lemma of_integer_exact: "\<bar>n\<bar> < 2 ^ 53 \<Longrightarrow> of_integer n = Fin (of_int n)"
proof -
  assume n: "\<bar>n\<bar> < 2 ^ 53"
  then have "\<bar>of_int n :: rat\<bar> < 2 ^ 53"
    by (metis of_int_abs of_int_less_iff of_int_numeral of_int_power)
  with n show ?thesis by (simp add: of_integer_def round_double_small binary64.int_exact)
qed

lemma llround_bounds: "of_int a \<le> x \<Longrightarrow> x \<le> of_int b \<Longrightarrow> a \<le> llround (Fin x) \<and> llround (Fin x) \<le> b"
  by (simp, linarith)

lemma llround_of_int [simp]: "llround (Fin (of_int n)) = n"
  using llround_bounds [of n "of_int n" n] by simp

lemma dclamp_finite:
  assumes "v \<noteq> NaN" and "lo \<le> hi"
  shows "\<exists>y. dclamp v lo hi = Fin y \<and> lo \<le> y \<and> y \<le> hi"
  using assms by (cases v) (auto simp: dclamp_def)

end
