(* ===== verification/HwConfig.thy ===== *)
theory HwConfig
  imports Binary64
begin

text \<open>
  Model of \<^verbatim>\<open>src/devices/common/board/hardware_worker/src/config.cpp\<close>: the configuration of the motor
  worker, its validation, and its reading from the command line and the environment.
\<close>

section \<open>Data\<close>

record motor_config =
  enabled :: bool
  pwm_sysfs_root :: string
  raw_max_speed :: int
  cmd_raw_min_speed :: int
  cmd_raw_max_speed :: int
  pwm_hz :: u64
  pwm_chip :: u32
  gpio_chip :: u32
  left_pwm_channel :: u32
  right_pwm_channel :: u32
  left_dir_gpio :: u32
  right_dir_gpio :: u32
  left_inverted :: bool
  right_inverted :: bool
  track_width_m :: double
  max_wheel_linear_speed_mps :: double
  left_track_power_percent :: double
  right_track_power_percent :: double
  watchdog_timeout_ms :: u64

section \<open>Numbers in texts\<close>

text \<open>
  \<^verbatim>\<open>std::stol\<close>, \<^verbatim>\<open>std::stoul\<close> and \<^verbatim>\<open>std::stoull\<close> in base 10 with 64-bit results: leading white space and a
  sign are skipped, at least one digit is needed, and the rest of the text is returned (its length
  gives the position that the sources compare).  A negative number wraps in the unsigned versions.
\<close>

definition isspace :: "char \<Rightarrow> bool" where
  "isspace c \<longleftrightarrow> c = CHR '' '' \<or> (9 \<le> (of_char c :: nat) \<and> (of_char c :: nat) \<le> 13)"

definition isdigit :: "char \<Rightarrow> bool" where
  "isdigit c \<longleftrightarrow> 48 \<le> (of_char c :: nat) \<and> (of_char c :: nat) \<le> 57"

definition number :: "string \<Rightarrow> nat" where
  "number ds = foldl (\<lambda>n c. 10 * n + (of_char c - 48)) 0 ds"

definition parse_sign :: "string \<Rightarrow> bool \<times> string" where
  "parse_sign s = (case s of c # t \<Rightarrow> if c = CHR ''-'' then (True, t) else if c = CHR ''+'' then (False, t)
     else (False, s) | [] \<Rightarrow> (False, []))"

definition parse_integer :: "string \<Rightarrow> (bool \<times> nat \<times> string) option" where
  "parse_integer v = (case parse_sign (dropWhile isspace v) of (neg, s) \<Rightarrow>
     let ds = takeWhile isdigit s in
     if ds = [] then None else Some (neg, number ds, dropWhile isdigit s))"

definition stol :: "string \<Rightarrow> exn + int \<times> string" where
  "stol v = (case parse_integer v of None \<Rightarrow> Inl (InvalidArgument ''stol'')
     | Some (neg, n, rest) \<Rightarrow> let i = (if neg then - int n else int n) in
         if i < - (2 ^ 63) \<or> i \<ge> 2 ^ 63 then Inl (LogicError ''stol'') else Inr (i, rest))"

definition stoul :: "string \<Rightarrow> exn + u64 \<times> string" where
  "stoul v = (case parse_integer v of None \<Rightarrow> Inl (InvalidArgument ''stoul'')
     | Some (neg, n, rest) \<Rightarrow> if n \<ge> 2 ^ 64 then Inl (LogicError ''stoul'')
         else Inr (if neg then - of_nat n else of_nat n, rest))"

section \<open>Validation\<close>

definition not_positive_finite :: "double \<Rightarrow> bool" where
  "not_positive_finite x \<longleftrightarrow> dle x (Fin 0) \<or> \<not> isfinite x"

definition not_a_percentage :: "double \<Rightarrow> bool" where
  "not_a_percentage x \<longleftrightarrow> dle x (Fin 0) \<or> dless (Fin 100) x \<or> \<not> isfinite x"

definition ValidateMotorConfig :: "motor_config \<Rightarrow> exn + unit" where
  "ValidateMotorConfig c =
     (if raw_max_speed c \<le> 0 then Inl (RuntimeError ''motor-raw-max-speed must be positive'')
      else if cmd_raw_min_speed c < 0
      then Inl (RuntimeError ''motor-cmd-raw-min-speed must be non-negative'')
      else if cmd_raw_max_speed c \<le> 0 then Inl (RuntimeError ''motor-cmd-raw-max-speed must be positive'')
      else if cmd_raw_min_speed c \<ge> cmd_raw_max_speed c
      then Inl (RuntimeError ''motor-cmd-raw-min-speed must be less than motor-cmd-raw-max-speed'')
      else if cmd_raw_max_speed c > raw_max_speed c
      then Inl (RuntimeError ''motor-cmd-raw-max-speed must be less than or equal to motor-raw-max-speed'')
      else if pwm_hz c = 0 then Inl (RuntimeError ''motor-pwm-hz must be positive'')
      else if left_pwm_channel c = right_pwm_channel c
      then Inl (RuntimeError ''left and right motor PWM channels must differ'')
      else if left_dir_gpio c = right_dir_gpio c
      then Inl (RuntimeError ''left and right motor direction GPIOs must differ'')
      else if not_positive_finite (track_width_m c)
      then Inl (RuntimeError ''motor-track-width-m must be a positive finite number'')
      else if not_positive_finite (max_wheel_linear_speed_mps c)
      then Inl (RuntimeError ''motor-max-wheel-linear-speed-mps must be a positive finite number'')
      else if not_a_percentage (left_track_power_percent c)
      then Inl (RuntimeError ''motor-left-track-power-percent must be a finite percentage in (0, 100]'')
      else if not_a_percentage (right_track_power_percent c)
      then Inl (RuntimeError ''motor-right-track-power-percent must be a finite percentage in (0, 100]'')
      else if watchdog_timeout_ms c = 0
      then Inl (RuntimeError ''motor-watchdog-timeout-ms must be positive'')
      else Inr ())"

text \<open>What the types of the fields guarantee, and the declarative reading of a valid configuration.\<close>

definition config_typed :: "motor_config \<Rightarrow> bool" where
  "config_typed c \<longleftrightarrow>
     - (2 ^ 31) \<le> raw_max_speed c \<and> raw_max_speed c < 2 ^ 31 \<and>
     - (2 ^ 31) \<le> cmd_raw_min_speed c \<and> cmd_raw_min_speed c < 2 ^ 31 \<and>
     - (2 ^ 31) \<le> cmd_raw_max_speed c \<and> cmd_raw_max_speed c < 2 ^ 31 \<and>
     in_range (track_width_m c) \<and> in_range (max_wheel_linear_speed_mps c) \<and>
     in_range (left_track_power_percent c) \<and> in_range (right_track_power_percent c)"

definition valid_config :: "motor_config \<Rightarrow> bool" where
  "valid_config c \<longleftrightarrow>
     0 \<le> cmd_raw_min_speed c \<and> cmd_raw_min_speed c < cmd_raw_max_speed c \<and>
     cmd_raw_max_speed c \<le> raw_max_speed c \<and> raw_max_speed c < 2 ^ 31 \<and>
     pwm_hz c \<noteq> 0 \<and> left_pwm_channel c \<noteq> right_pwm_channel c \<and> left_dir_gpio c \<noteq> right_dir_gpio c \<and>
     (\<exists>w. track_width_m c = Fin w \<and> 0 < w) \<and> in_range (track_width_m c) \<and> (\<exists>v. max_wheel_linear_speed_mps c = Fin v \<and> 0 < v) \<and>
     (\<exists>p. left_track_power_percent c = Fin p \<and> 0 < p \<and> p \<le> 100) \<and>
     (\<exists>p. right_track_power_percent c = Fin p \<and> 0 < p \<and> p \<le> 100) \<and>
     watchdog_timeout_ms c \<noteq> 0"

lemma positive_finite_iff: "\<not> not_positive_finite x \<longleftrightarrow> (\<exists>v. x = Fin v \<and> 0 < v)"
  by (cases x) (auto simp: not_positive_finite_def dle_def)

lemma percentage_iff: "\<not> not_a_percentage x \<longleftrightarrow> (\<exists>v. x = Fin v \<and> 0 < v \<and> v \<le> 100)"
  by (cases x) (auto simp: not_a_percentage_def dle_def)

lemma ValidateMotorConfig_iff:
  assumes "config_typed c"
  shows "ValidateMotorConfig c = Inr () \<longleftrightarrow> valid_config c"
  using assms
  by (auto simp: ValidateMotorConfig_def valid_config_def config_typed_def
      positive_finite_iff [symmetric] percentage_iff [symmetric])

end
