(* ===== verification/Motor.thy ===== *)
theory Motor
  imports HwConfig
begin

text \<open>
  Model of \<^verbatim>\<open>src/devices/common/board/hardware_worker/src/motor.cpp\<close>: the arithmetic from velocity
  commands to raw motor speeds, the sysfs driver over PWM files and GPIO lines, and the motor
  controller with its deadline.  Functions keep their C++ names; \<^verbatim>\<open>double\<close> is \<open>Binary64.double\<close>.
\<close>

section \<open>Arithmetic\<close>

definition ClampI32 :: "int \<Rightarrow> int \<Rightarrow> int \<Rightarrow> int" where
  "ClampI32 value low high = max low (min value high)"

definition ApplyRawTrackPowerPercent :: "int \<Rightarrow> double \<Rightarrow> motor_config \<Rightarrow> int" where
  "ApplyRawTrackPowerPercent raw_speed track_power_percent c =
     (if raw_speed = 0 then 0
      else let trimmed = to_i32 (llround (dmul (of_integer \<bar>raw_speed\<bar>) (ddiv track_power_percent 100)));
               bounded = ClampI32 trimmed (cmd_raw_min_speed c) (cmd_raw_max_speed c)
           in if raw_speed < 0 then - bounded else bounded)"

definition scaled_magnitude :: "int \<Rightarrow> motor_config \<Rightarrow> int" where
  "scaled_magnitude magnitude c =
     (if cmd_raw_min_speed c = 0
      then to_i32 (llround (dmul (ddiv (of_integer magnitude) 100) (of_integer (cmd_raw_max_speed c))))
      else let position = (if magnitude = 1 then Fin 0 else ddiv (of_integer (magnitude - 1)) 99)
        in to_i32 (llround (dadd (of_integer (cmd_raw_min_speed c))
             (dmul position (of_integer (cmd_raw_max_speed c - cmd_raw_min_speed c))))))"

definition ScalePercentToRaw :: "int \<Rightarrow> motor_config \<Rightarrow> int" where
  "ScalePercentToRaw value c =
     (let clamped = ClampI32 value (- 100) 100 in
      if clamped = 0 then 0
      else let scaled = scaled_magnitude \<bar>clamped\<bar> c in if clamped < 0 then - scaled else scaled)"

record vector3 =
  x_of :: double
  y_of :: double
  z_of :: double

record twist =
  linear :: vector3
  angular :: vector3

text \<open>\<^verbatim>\<open>std::to_string(double)\<close>: six decimals of the exact value.\<close>

definition double_string :: "double \<Rightarrow> string" where
  "double_string v = (case v of
     Fin q \<Rightarrow> let n = nat (round_even (\<bar>q\<bar> * 1000000)); f = decimal_string (n mod 1000000) in
       (if q < 0 then ''-'' else '''') @ decimal_string (n div 1000000) @ ''.'' @
       replicate (6 - length f) (CHR ''0'') @ f
   | Infinite s \<Rightarrow> if s then ''-inf'' else ''inf''
   | NaN \<Rightarrow> ''nan'')"

fun first_infinite :: "(string \<times> double) list \<Rightarrow> string option" where
  "first_infinite [] = None"
| "first_infinite ((name, value) # vs) = (if \<not> isfinite value then Some name else first_infinite vs)"

text \<open>The loop that collects the unsupported axes, separated by commas.\<close>

fun list_unsupported :: "string \<Rightarrow> (string \<times> double) list \<Rightarrow> string" where
  "list_unsupported acc [] = acc"
| "list_unsupported acc ((name, value) # vs) =
     list_unsupported (if value \<noteq> Fin 0
       then (if acc \<noteq> [] then acc @ '', '' else acc) @ name @ ''='' @ double_string value
       else acc) vs"

definition ValidateTwist :: "twist \<Rightarrow> exn + unit" where
  "ValidateTwist t =
     (case first_infinite [(''linear.x'', x_of (linear t)), (''linear.y'', y_of (linear t)),
         (''linear.z'', z_of (linear t)), (''angular.x'', x_of (angular t)),
         (''angular.y'', y_of (angular t)), (''angular.z'', z_of (angular t))] of
        Some name \<Rightarrow> Inl (RuntimeError (''cmd_vel '' @ name @ '' must be finite''))
      | None \<Rightarrow>
          let unsupported = list_unsupported '''' [(''linear.y'', y_of (linear t)),
            (''linear.z'', z_of (linear t)), (''angular.x'', x_of (angular t)),
            (''angular.y'', y_of (angular t))]
          in if unsupported \<noteq> [] then Inl (RuntimeError (''unsupported cmd_vel axes: '' @ unsupported))
             else Inr ())"

text \<open>A double that validation has shown to be finite and nonzero, as a divisor.\<close>

fun divisor :: "double \<Rightarrow> rat" where
  "divisor (Fin q) = q"
| "divisor (Infinite s) = 0"
| "divisor NaN = 0"

definition tank_speed :: "double \<Rightarrow> motor_config \<Rightarrow> int" where
  "tank_speed wheel_linear_speed c =
     to_i32 (llround (dmul (dclamp (ddiv wheel_linear_speed (divisor (max_wheel_linear_speed_mps c))) (- 1) 1)
       (Fin 100)))"

definition MixTwistToTankSpeeds :: "twist \<Rightarrow> motor_config \<Rightarrow> exn + int \<times> int" where
  "MixTwistToTankSpeeds t c =
     (case ValidateMotorConfig c of Inl e \<Rightarrow> Inl e
      | Inr _ \<Rightarrow>
          let half_track_width_m = ddiv (track_width_m c) 2;
              turn = dmul (z_of (angular t)) half_track_width_m;
              left_wheel_linear_speed = dsub (x_of (linear t)) turn;
              right_wheel_linear_speed = dadd (x_of (linear t)) turn
          in Inr (tank_speed left_wheel_linear_speed c, tank_speed right_wheel_linear_speed c))"

section \<open>Bounds of the arithmetic\<close>

lemma to_i32_llround:
  assumes "of_int a \<le> x" and "x \<le> of_int b" and "- (2 ^ 31) \<le> a" and "b < 2 ^ 31"
  shows "a \<le> to_i32 (llround (Fin x)) \<and> to_i32 (llround (Fin x)) \<le> b"
proof -
  from llround_bounds [OF assms(1,2)] have "a \<le> llround (Fin x)" "llround (Fin x) \<le> b" by simp_all
  with assms(3,4) show ?thesis by simp
qed

lemma tank_speed_bounds:
  assumes "v \<noteq> NaN"
  shows "- 100 \<le> tank_speed v c \<and> tank_speed v c \<le> 100"
proof -
  have "ddiv v q \<noteq> NaN" for q using assms by (cases v) (auto simp: round_double_def Let_def)
  from dclamp_finite [OF this, of "- 1" 1]
  obtain y where y: "dclamp (ddiv v (divisor (max_wheel_linear_speed_mps c))) (- 1) 1 = Fin y" "- 1 \<le> y" "y \<le> 1"
    by auto
  obtain z where "round_double (y * 100) = Fin z" "of_int (- 100) \<le> z" "z \<le> of_int 100"
    by (rule round_double_bounds [of "- 100" "y * 100" 100]) (use y in simp_all)
  with y to_i32_llround [of "- 100" z 100] show ?thesis by (simp add: tank_speed_def)
qed

lemma finite_sum: "isfinite u \<Longrightarrow> v \<noteq> NaN \<Longrightarrow> dadd u v \<noteq> NaN"
  by (cases u; cases v) (auto simp: round_double_def Let_def)

lemma finite_product: "isfinite u \<Longrightarrow> isfinite v \<Longrightarrow> dmul u v \<noteq> NaN"
  by (cases u; cases v) (auto simp: round_double_def Let_def)

lemma ValidateTwist_finite:
  assumes "ValidateTwist t = Inr ()"
  shows "isfinite (x_of (linear t))" "isfinite (z_of (angular t))"
    "y_of (linear t) = Fin 0" "z_of (linear t) = Fin 0" "x_of (angular t) = Fin 0" "y_of (angular t) = Fin 0"
proof -
  have grows: "list_unsupported acc vs = [] \<Longrightarrow> acc = [] \<and> (\<forall>v \<in> snd ` set vs. v = Fin 0)" for acc vs
    by (induction acc vs rule: list_unsupported.induct) (auto split: if_splits)
  show "isfinite (x_of (linear t))" "isfinite (z_of (angular t))"
    "y_of (linear t) = Fin 0" "z_of (linear t) = Fin 0" "x_of (angular t) = Fin 0" "y_of (angular t) = Fin 0"
    using assms
    by (auto simp: ValidateTwist_def Let_def simp del: list_unsupported.simps
        dest!: grows split: option.splits if_splits)
qed

lemma mix_bounds:
  assumes "valid_config c" and "ValidateTwist t = Inr ()" and "MixTwistToTankSpeeds t c = Inr (l, r)"
  shows "- 100 \<le> l \<and> l \<le> 100 \<and> - 100 \<le> r \<and> r \<le> 100"
proof -
  from assms(1) obtain w where "track_width_m c = Fin w" "\<bar>w\<bar> < 2 ^ 1024" by (auto simp: valid_config_def)
  then have half: "isfinite (ddiv (track_width_m c) 2)" using half_finite by (simp del: ddiv.simps)
  have turn: "dmul (z_of (angular t)) (ddiv (track_width_m c) 2) \<noteq> NaN"
    using finite_product [OF ValidateTwist_finite(2) [OF assms(2)] half] .
  then have "dneg (dmul (z_of (angular t)) (ddiv (track_width_m c) 2)) \<noteq> NaN"
    by (cases "dmul (z_of (angular t)) (ddiv (track_width_m c) 2)") auto
  with turn have "dsub (x_of (linear t)) (dmul (z_of (angular t)) (ddiv (track_width_m c) 2)) \<noteq> NaN"
    "dadd (x_of (linear t)) (dmul (z_of (angular t)) (ddiv (track_width_m c) 2)) \<noteq> NaN"
    unfolding dsub_def using finite_sum [OF ValidateTwist_finite(1) [OF assms(2)]] by blast+
  with assms(3) tank_speed_bounds show ?thesis
    by (auto simp: MixTwistToTankSpeeds_def Let_def simp del: ddiv.simps split: sum.splits)
qed

lemma of_integer_small: "\<bar>n\<bar> < 2 ^ 32 \<Longrightarrow> of_integer n = Fin (of_int n)"
  by (rule of_integer_exact) simp

lemma scaled_bounds:
  assumes "valid_config c" and "1 \<le> m" "m \<le> 100"
  shows "cmd_raw_min_speed c \<le> scaled_magnitude m c" and "scaled_magnitude m c \<le> cmd_raw_max_speed c"
proof -
  let ?lo = "cmd_raw_min_speed c" and ?hi = "cmd_raw_max_speed c"
  have c: "0 \<le> ?lo" "?lo < ?hi" "?hi < 2 ^ 31" using assms(1) by (auto simp: valid_config_def)
  have ints: "of_integer ?lo = Fin (of_int ?lo)" "of_integer ?hi = Fin (of_int ?hi)"
    "of_integer (?hi - ?lo) = Fin (of_int (?hi - ?lo))"
    by (rule of_integer_small; use c in simp)+
  have m: "of_integer m = Fin (of_int m)" "of_integer (m - 1) = Fin (of_int (m - 1))"
    by (rule of_integer_small; use assms(2,3) in simp)+
  obtain f where f: "round_double (of_int m / 100) = Fin f" "0 \<le> f" "f \<le> 1"
    by (rule round_double_bounds [of 0 "of_int m / 100" 1]) (use assms(2,3) in simp_all)
  have "0 \<le> f * of_int ?hi" "f * of_int ?hi \<le> of_int ?hi"
    using f c by (simp_all add: mult_left_le_one_le)
  then obtain g where g: "round_double (f * of_int ?hi) = Fin g" "0 \<le> g" "g \<le> of_int ?hi"
    by (rule round_double_bounds [of 0 _ ?hi, simplified]) (use c in auto)
  obtain p where p: "(if m = 1 then Fin 0 else ddiv (of_integer (m - 1)) 99) = Fin p" "0 \<le> p" "p \<le> 1"
  proof (cases "m = 1")
    case False
    obtain p where "round_double (of_int (m - 1) / 99) = Fin p" "0 \<le> p" "p \<le> 1"
      by (rule round_double_bounds [of 0 "of_int (m - 1) / 99" 1]) (use assms(2,3) in simp_all)
    with False m that show ?thesis by simp
  qed (use that in simp)
  have pd: "of_int 0 \<le> p * of_int (?hi - ?lo)" "p * of_int (?hi - ?lo) \<le> of_int (?hi - ?lo)"
    using p c by (simp_all add: mult_left_le_one_le)
  obtain d where d: "round_double (p * of_int (?hi - ?lo)) = Fin d" "of_int 0 \<le> d" "d \<le> of_int (?hi - ?lo)"
    by (rule round_double_bounds [OF pd]) (use c in auto)
  obtain e where e: "round_double (of_int ?lo + d) = Fin e" "of_int ?lo \<le> e" "e \<le> of_int ?hi"
    by (rule round_double_bounds [of ?lo "of_int ?lo + d" ?hi]) (use c d in auto)
  have s: "scaled_magnitude m c = (if ?lo = 0 then to_i32 (llround (Fin g)) else to_i32 (llround (Fin e)))"
    unfolding scaled_magnitude_def Let_def p
    by (simp only: ints m dmul.simps ddiv.simps dadd.simps f g d e)
  show "?lo \<le> scaled_magnitude m c" "scaled_magnitude m c \<le> ?hi"
    unfolding s using to_i32_llround [of 0 g ?hi] to_i32_llround [of ?lo e ?hi] g e c by auto
qed

lemma ScalePercentToRaw_bounds:
  assumes "valid_config c"
  shows "v \<noteq> 0 \<Longrightarrow> cmd_raw_min_speed c \<le> \<bar>ScalePercentToRaw v c\<bar>"
    and "\<bar>ScalePercentToRaw v c\<bar> \<le> cmd_raw_max_speed c"
    and "0 \<le> v \<Longrightarrow> 0 \<le> ScalePercentToRaw v c" and "v \<le> 0 \<Longrightarrow> ScalePercentToRaw v c \<le> 0"
proof -
  let ?k = "ClampI32 v (- 100) 100"
  have c: "0 \<le> cmd_raw_min_speed c" "0 \<le> cmd_raw_max_speed c" using assms by (auto simp: valid_config_def)
  have k: "v = 0 \<longleftrightarrow> ?k = 0" "v < 0 \<longleftrightarrow> ?k < 0" "\<bar>?k\<bar> \<le> 100" by (auto simp: ClampI32_def)
  have b: "cmd_raw_min_speed c \<le> scaled_magnitude \<bar>?k\<bar> c" "scaled_magnitude \<bar>?k\<bar> c \<le> cmd_raw_max_speed c"
    if "?k \<noteq> 0" using scaled_bounds [OF assms, of "\<bar>?k\<bar>"] that k(3) by linarith+
  show "v \<noteq> 0 \<Longrightarrow> cmd_raw_min_speed c \<le> \<bar>ScalePercentToRaw v c\<bar>"
    "\<bar>ScalePercentToRaw v c\<bar> \<le> cmd_raw_max_speed c"
    "0 \<le> v \<Longrightarrow> 0 \<le> ScalePercentToRaw v c" "v \<le> 0 \<Longrightarrow> ScalePercentToRaw v c \<le> 0"
    using b c k by (cases "?k = 0"; cases "?k < 0"; simp add: ScalePercentToRaw_def Let_def)+
qed

text \<open>The raw speed of a track: what the controller sends for a speed in percent.\<close>

definition track_raw :: "int \<Rightarrow> double \<Rightarrow> motor_config \<Rightarrow> int" where
  "track_raw speed percent c = ApplyRawTrackPowerPercent (ScalePercentToRaw speed c) percent c"

lemma track_raw_zero [simp]: "track_raw 0 percent c = 0"
  by (simp add: track_raw_def ScalePercentToRaw_def ApplyRawTrackPowerPercent_def ClampI32_def)

lemma track_raw_bounds:
  assumes "valid_config c"
  shows "v \<noteq> 0 \<Longrightarrow> cmd_raw_min_speed c \<le> \<bar>track_raw v p c\<bar>"
    and "\<bar>track_raw v p c\<bar> \<le> cmd_raw_max_speed c"
    and "0 \<le> v \<Longrightarrow> 0 \<le> track_raw v p c" and "v \<le> 0 \<Longrightarrow> track_raw v p c \<le> 0"
  using assms ScalePercentToRaw_bounds [OF assms, of v]
  by (auto simp: track_raw_def ApplyRawTrackPowerPercent_def Let_def ClampI32_def valid_config_def)

end
