(* ===== verification/MotorDriver.thy ===== *)
theory MotorDriver
  imports Motor
begin

text \<open>
  The motor drivers of \<^verbatim>\<open>motor.cpp\<close>: the sysfs driver, over PWM files and GPIO lines, and the one that
  does nothing.  The operating system is a function from the calls made so far to the reply of the
  next one.  The interface that the controller relies on is the locale \<open>motor_driver\<close>.
\<close>

section \<open>The operating system\<close>

text \<open>
  Replies are numbers, with 0 for failure.  A file is written through a buffered stream that is
  flushed when it is destroyed: 0 when it cannot be opened, 1 when the insertion fails, 2 when the
  text is inserted but the flush fails, and more when the text reaches the file.  Asking for a
  directory gives 0 for none, 1 when its status cannot be read, which throws, and more when it is there.
\<close>

datatype hw_call =
  WriteFile string string
| IsDirectory string
| SteadyClockMs
| SleepMs nat
| OpenGpioChip u32
| RequestLine u32 u32
| SetLine u32 u32 bool
| CloseLine u32 u32
| CloseGpioChip u32

type_synonym hw_calls = "(hw_call \<times> nat) list"
type_synonym hardware = "hw_calls \<Rightarrow> hw_call \<Rightarrow> nat"

datatype side = LeftSide | RightSide

record sysfs_device =
  hw_log :: hw_calls
  owns_channel :: "side \<Rightarrow> bool"
  channel_closed :: "side \<Rightarrow> bool"

definition hw_do :: "hardware \<Rightarrow> hw_call \<Rightarrow> (sysfs_device, nat) io" where
  "hw_do hw c d = (let r = hw (hw_log d) c in (Inr r, d\<lparr>hw_log := hw_log d @ [(c, r)]\<rparr>))"

definition WriteText :: "hardware \<Rightarrow> string \<Rightarrow> string \<Rightarrow> (sysfs_device, unit) io" where
  "WriteText hw path value = io_bind (hw_do hw (WriteFile path value)) (\<lambda>r.
     if r = 0 then io_throw (RuntimeError (''open '' @ path))
     else if r = 1 then io_throw (RuntimeError (''write '' @ path))
     else io_return ())"

definition WriteInt :: "hardware \<Rightarrow> string \<Rightarrow> nat \<Rightarrow> (sysfs_device, unit) io" where
  "WriteInt hw path value = WriteText hw path (decimal_string value @ [CHR 0x0A])"

definition directory_error :: "string \<Rightarrow> exn" where
  "directory_error path = RuntimeError (''filesystem error: status: '' @ path)"

definition is_directory :: "hardware \<Rightarrow> string \<Rightarrow> (sysfs_device, bool) io" where
  "is_directory hw path = io_bind (hw_do hw (IsDirectory path)) (\<lambda>r.
     if r = 1 then io_throw (directory_error path) else io_return (r \<noteq> 0))"

text \<open>The loop may run forever, when the clock stands still and the directory never appears.\<close>

partial_function (option) wait_for_directory ::
  "hardware \<Rightarrow> string \<Rightarrow> nat \<Rightarrow> nat \<Rightarrow> sysfs_device \<Rightarrow> ((exn + unit) \<times> sysfs_device) option" where
  "wait_for_directory hw path timeout started d =
     (let now = hw (hw_log d) SteadyClockMs; d1 = snd (hw_do hw SteadyClockMs d) in
      if int now - int started < int timeout then
        (case is_directory hw path d1 of
           (Inl e, d2) \<Rightarrow> Some (Inl e, d2)
         | (Inr there, d2) \<Rightarrow> if there then Some (Inr (), d2)
         else wait_for_directory hw path timeout started (snd (hw_do hw (SleepMs 10) d2)))
      else Some (Inl (RuntimeError (''path did not appear after export: '' @ path)), d1))"

definition WaitForDirectory ::
  "hardware \<Rightarrow> string \<Rightarrow> nat \<Rightarrow> sysfs_device \<Rightarrow> ((exn + unit) \<times> sysfs_device) option" where
  "WaitForDirectory hw path timeout d =
     wait_for_directory hw path timeout (hw (hw_log d) SteadyClockMs) (snd (hw_do hw SteadyClockMs d))"

section \<open>PWM channels\<close>

text \<open>\<^verbatim>\<open>std::filesystem::path::operator/\<close> with a relative right side, and \<^verbatim>\<open>filename()\<close>.\<close>

definition path_join :: "string \<Rightarrow> string \<Rightarrow> string" where
  "path_join a b = (if a = [] \<or> last a = CHR ''/'' then a @ b else a @ ''/'' @ b)"

definition path_filename :: "string \<Rightarrow> string" where
  "path_filename p = rev (takeWhile (\<lambda>c. c \<noteq> CHR ''/'') (rev p))"

definition ChannelNumberFromPath :: "string \<Rightarrow> exn + u32" where
  "ChannelNumberFromPath path =
     (let name = path_filename path in
      if take 3 name \<noteq> ''pwm'' then Inl (RuntimeError (''invalid PWM channel path '' @ path))
      else case stoul (drop 3 name) of Inl e \<Rightarrow> Inl e | Inr (n, _) \<Rightarrow> Inr (ucast n))"

definition pwm_channel :: "motor_config \<Rightarrow> side \<Rightarrow> u32" where
  "pwm_channel c s = (case s of LeftSide \<Rightarrow> left_pwm_channel c | RightSide \<Rightarrow> right_pwm_channel c)"

definition chip_path :: "motor_config \<Rightarrow> string" where
  "chip_path c = path_join (pwm_sysfs_root c) (''pwmchip'' @ decimal_string (unat (pwm_chip c)))"

definition channel_path :: "motor_config \<Rightarrow> side \<Rightarrow> string" where
  "channel_path c s = path_join (chip_path c) (''pwm'' @ decimal_string (unat (pwm_channel c s)))"

definition period_ns :: "motor_config \<Rightarrow> u64" where
  "period_ns c = word_of_int (llround (ddivd (Fin 1000000000) (of_integer (uint (pwm_hz c)))))"

definition duty_path :: "motor_config \<Rightarrow> side \<Rightarrow> string" where
  "duty_path c s = path_join (channel_path c s) ''duty_cycle''"

definition SetDutyCycleNs :: "hardware \<Rightarrow> motor_config \<Rightarrow> side \<Rightarrow> u64 \<Rightarrow> (sysfs_device, unit) io" where
  "SetDutyCycleNs hw c s value = WriteInt hw (duty_path c s) (unat (min value (period_ns c)))"

definition SetPeriodNs :: "hardware \<Rightarrow> motor_config \<Rightarrow> side \<Rightarrow> (sysfs_device, unit) io" where
  "SetPeriodNs hw c s = WriteInt hw (path_join (channel_path c s) ''period'') (unat (period_ns c))"

definition Enable :: "hardware \<Rightarrow> motor_config \<Rightarrow> side \<Rightarrow> (sysfs_device, unit) io" where
  "Enable hw c s = WriteInt hw (path_join (channel_path c s) ''enable'') 1"

definition DisableNoThrow :: "hardware \<Rightarrow> motor_config \<Rightarrow> side \<Rightarrow> (sysfs_device, unit) io" where
  "DisableNoThrow hw c s =
     io_catch (WriteInt hw (path_join (channel_path c s) ''enable'') 0) (\<lambda>_. io_return ())"

definition ClosePwm :: "hardware \<Rightarrow> motor_config \<Rightarrow> side \<Rightarrow> (sysfs_device, unit) io" where
  "ClosePwm hw c s = io_bind (io_get (\<lambda>d. channel_closed d s)) (\<lambda>closed.
     if closed then io_return ()
     else io_bind (io_update (\<lambda>d. d\<lparr>channel_closed := (channel_closed d)(s := True)\<rparr>)) (\<lambda>_.
       io_bind (SetDutyCycleNs hw c s 0) (\<lambda>_.
       io_bind (DisableNoThrow hw c s) (\<lambda>_.
       io_bind (io_get (\<lambda>d. owns_channel d s)) (\<lambda>owns.
         if \<not> owns then io_return ()
         else case ChannelNumberFromPath (channel_path c s) of
             Inl e \<Rightarrow> io_throw e
           | Inr n \<Rightarrow> WriteInt hw (path_join (chip_path c) ''unexport'') (unat n))))))"

definition ClosePwmNoThrow :: "hardware \<Rightarrow> motor_config \<Rightarrow> side \<Rightarrow> (sysfs_device, unit) io" where
  "ClosePwmNoThrow hw c s = io_catch (ClosePwm hw c s) (\<lambda>_. io_return ())"

section \<open>GPIO lines\<close>

definition dir_gpio :: "motor_config \<Rightarrow> side \<Rightarrow> u32" where
  "dir_gpio c s = (case s of LeftSide \<Rightarrow> left_dir_gpio c | RightSide \<Rightarrow> right_dir_gpio c)"

definition NewGpioOutputPin :: "hardware \<Rightarrow> motor_config \<Rightarrow> side \<Rightarrow> (sysfs_device, unit) io" where
  "NewGpioOutputPin hw c s =
     (let chip = gpio_chip c; pin = dir_gpio c s in
      io_bind (hw_do hw (OpenGpioChip chip)) (\<lambda>r.
        if r = 0 then io_throw (RuntimeError (''open /dev/gpiochip'' @ decimal_string (unat chip)))
        else io_bind (hw_do hw (RequestLine chip pin)) (\<lambda>r.
          if r = 0 then io_bind (hw_do hw (CloseGpioChip chip)) (\<lambda>_.
            io_throw (RuntimeError (''request GPIO direction pin '' @ decimal_string (unat pin) @
              '' on gpiochip'' @ decimal_string (unat chip))))
          else io_return ())))"

definition SetLineValue :: "hardware \<Rightarrow> motor_config \<Rightarrow> side \<Rightarrow> bool \<Rightarrow> (sysfs_device, unit) io" where
  "SetLineValue hw c s high =
     io_bind (hw_do hw (SetLine (gpio_chip c) (dir_gpio c s) high)) (\<lambda>r.
       if r = 0 then io_throw (RuntimeError (''set GPIO direction pin '' @ decimal_string (unat (dir_gpio c s)) @
         '' on gpiochip'' @ decimal_string (unat (gpio_chip c))))
       else io_return ())"

definition CloseLineNoThrow :: "hardware \<Rightarrow> motor_config \<Rightarrow> side \<Rightarrow> (sysfs_device, unit) io" where
  "CloseLineNoThrow hw c s =
     io_bind (io_catch (SetLineValue hw c s False) (\<lambda>_. io_return ())) (\<lambda>_.
     io_bind (hw_do hw (CloseLine (gpio_chip c) (dir_gpio c s))) (\<lambda>_.
     io_bind (hw_do hw (CloseGpioChip (gpio_chip c))) (\<lambda>_. io_return ())))"

section \<open>The sysfs driver\<close>

definition inverted :: "motor_config \<Rightarrow> side \<Rightarrow> bool" where
  "inverted c s = (case s of LeftSide \<Rightarrow> left_inverted c | RightSide \<Rightarrow> right_inverted c)"

definition duty_ns :: "int \<Rightarrow> motor_config \<Rightarrow> u64" where
  "duty_ns effective c = word_of_int (llround (dmul
     (ddivd (of_integer \<bar>effective\<bar>) (of_integer (raw_max_speed c))) (of_integer (uint (period_ns c)))))"

definition ApplyMotorSide :: "hardware \<Rightarrow> motor_config \<Rightarrow> side \<Rightarrow> int \<Rightarrow> (sysfs_device, unit) io" where
  "ApplyMotorSide hw c s raw_speed =
     (let clamped = ClampI32 raw_speed (- raw_max_speed c) (raw_max_speed c);
          effective = (if inverted c s then - clamped else clamped) in
      io_bind (SetLineValue hw c s (effective < 0)) (\<lambda>_. SetDutyCycleNs hw c s (duty_ns effective c)))"

definition SetRawSpeeds :: "hardware \<Rightarrow> motor_config \<Rightarrow> int \<Rightarrow> int \<Rightarrow> (sysfs_device, unit) io" where
  "SetRawSpeeds hw c left_raw right_raw =
     io_bind (ApplyMotorSide hw c LeftSide left_raw) (\<lambda>_. ApplyMotorSide hw c RightSide right_raw)"

definition SysfsSetSpeeds :: "hardware \<Rightarrow> motor_config \<Rightarrow> int \<Rightarrow> int \<Rightarrow> (sysfs_device, unit) io" where
  "SysfsSetSpeeds hw c left_raw right_raw =
     io_catch (SetRawSpeeds hw c left_raw right_raw) (\<lambda>e.
       io_bind (io_catch (SetRawSpeeds hw c 0 0) (\<lambda>_. io_return ())) (\<lambda>_. io_throw e))"

definition SysfsClose :: "hardware \<Rightarrow> motor_config \<Rightarrow> (sysfs_device, unit) io" where
  "SysfsClose hw c = io_bind (SetRawSpeeds hw c 0 0) (\<lambda>_.
     io_bind (ClosePwm hw c LeftSide) (\<lambda>_. ClosePwm hw c RightSide))"

text \<open>
  Construction, which may wait forever for the exported channel.  When it throws, the members built
  so far are destroyed in reverse order.
\<close>

type_synonym 'a maybe_io = "sysfs_device \<Rightarrow> ((exn + 'a) \<times> sysfs_device) option"

definition returning :: "(sysfs_device, 'a) io \<Rightarrow> 'a maybe_io" where
  "returning m d = Some (m d)"

definition maybe_bind :: "'a maybe_io \<Rightarrow> ('a \<Rightarrow> 'b maybe_io) \<Rightarrow> 'b maybe_io" where
  "maybe_bind m k d = (case m d of None \<Rightarrow> None | Some (Inl e, d') \<Rightarrow> Some (Inl e, d')
     | Some (Inr x, d') \<Rightarrow> k x d')"

definition destroying :: "'a maybe_io \<Rightarrow> (sysfs_device, unit) io \<Rightarrow> 'a maybe_io" where
  "destroying m destroy d = (case m d of Some (Inl e, d') \<Rightarrow> Some (Inl e, snd (destroy d')) | r \<Rightarrow> r)"

definition export_channel :: "hardware \<Rightarrow> motor_config \<Rightarrow> side \<Rightarrow> unit maybe_io" where
  "export_channel hw c s =
     maybe_bind (returning (is_directory hw (channel_path c s))) (\<lambda>present.
       if present then returning (io_return ())
       else maybe_bind (returning (WriteInt hw (path_join (chip_path c) ''export'') (unat (pwm_channel c s)))) (\<lambda>_.
         maybe_bind (returning (io_update (\<lambda>d. d\<lparr>owns_channel := (owns_channel d)(s := True)\<rparr>))) (\<lambda>_.
         WaitForDirectory hw (channel_path c s) 1000)))"

definition NewSysfsPwmChannel :: "hardware \<Rightarrow> motor_config \<Rightarrow> side \<Rightarrow> unit maybe_io" where
  "NewSysfsPwmChannel hw c s =
     maybe_bind (returning (is_directory hw (chip_path c))) (\<lambda>present.
       if \<not> present
       then returning (io_throw (RuntimeError (''PWM chip path does not exist: '' @ chip_path c)))
       else maybe_bind (export_channel hw c s) (\<lambda>_.
         returning (io_bind (DisableNoThrow hw c s) (\<lambda>_.
           io_bind (SetPeriodNs hw c s) (\<lambda>_.
           io_bind (SetDutyCycleNs hw c s 0) (\<lambda>_. Enable hw c s))))))"

definition NewSysfsMotorDriver :: "hardware \<Rightarrow> motor_config \<Rightarrow> unit maybe_io" where
  "NewSysfsMotorDriver hw c =
     maybe_bind (NewSysfsPwmChannel hw c LeftSide) (\<lambda>_.
       destroying (maybe_bind (NewSysfsPwmChannel hw c RightSide) (\<lambda>_.
         destroying (maybe_bind (returning (NewGpioOutputPin hw c LeftSide)) (\<lambda>_.
           destroying (maybe_bind (returning (NewGpioOutputPin hw c RightSide)) (\<lambda>_.
             destroying (returning (SetRawSpeeds hw c 0 0)) (CloseLineNoThrow hw c RightSide)))
             (CloseLineNoThrow hw c LeftSide)))
           (ClosePwmNoThrow hw c RightSide)))
         (ClosePwmNoThrow hw c LeftSide))"

text \<open>Waiting ends when the clock advances: the loop returns whatever the directory does.\<close>

lemma wait_for_directory_ends:
  assumes "\<And>d. hw (hw_log (snd (hw_do hw (SleepMs 10) d))) SteadyClockMs \<ge>
      hw (hw_log d) SteadyClockMs + 1"
    and "\<And>d c. hw (hw_log (snd (hw_do hw c d))) SteadyClockMs \<ge> hw (hw_log d) SteadyClockMs"
    and "started \<le> hw (hw_log d) SteadyClockMs"
  shows "\<exists>r. wait_for_directory hw path timeout started d = Some r"
  using assms(3)
proof (induction "started + timeout - hw (hw_log d) SteadyClockMs" arbitrary: d rule: less_induct)
  case less
  let ?clock = "\<lambda>d. hw (hw_log d) SteadyClockMs"
  let ?d1 = "snd (hw_do hw SteadyClockMs d)"
  let ?d3 = "snd (hw_do hw (SleepMs 10) (snd (hw_do hw (IsDirectory path) ?d1)))"
  have "?clock d + 1 \<le> ?clock ?d3" using assms(1,2) by (meson add_le_mono1 order_trans)
  then have step: "started \<le> ?clock ?d3"
    "int (?clock d) - int started < int timeout \<Longrightarrow>
     started + timeout - ?clock ?d3 < started + timeout - ?clock d" using less.prems by linarith+
  show ?case
    by (subst wait_for_directory.simps) (use less.hyps [OF step(2,1)] in \<open>auto simp: Let_def is_directory_def io_simps hw_do_def\<close>)
qed

section \<open>The driver interface\<close>

text \<open>The virtual functions of \<^verbatim>\<open>MotorDriver\<close>, and its two implementations.\<close>

record 'w driver =
  SetSpeeds :: "int \<Rightarrow> int \<Rightarrow> ('w, unit) io"
  CloseDriver :: "('w, unit) io"

definition NoopMotorDriver :: "'w driver" where
  "NoopMotorDriver = \<lparr>SetSpeeds = (\<lambda>_ _. io_return ()), CloseDriver = io_return ()\<rparr>"

definition SysfsMotorDriver :: "hardware \<Rightarrow> motor_config \<Rightarrow> sysfs_device driver" where
  "SysfsMotorDriver hw c = \<lparr>SetSpeeds = SysfsSetSpeeds hw c, CloseDriver = SysfsClose hw c\<rparr>"

locale motor_driver =
  fixes D :: "'w driver" and moving :: "'w \<Rightarrow> bool"
  assumes stop_stops: "SetSpeeds D 0 0 w = (Inr (), w') \<Longrightarrow> \<not> moving w'"
    and close_stops: "CloseDriver D w = (Inr (), w') \<Longrightarrow> \<not> moving w'"

interpretation noop: motor_driver NoopMotorDriver "\<lambda>_. False"
  by unfold_locales simp_all

text \<open>The text that a file holds, and tracks that turn.\<close>

definition writes_to :: "string \<Rightarrow> hw_call \<times> nat \<Rightarrow> string option \<Rightarrow> string option" where
  "writes_to path c t = (case c of (WriteFile p v, r) \<Rightarrow> if p = path \<and> 3 \<le> r then Some v else t | _ \<Rightarrow> t)"

definition file_text :: "string \<Rightarrow> hw_calls \<Rightarrow> string option" where
  "file_text path cs = foldl (\<lambda>t c. writes_to path c t) None cs"

lemma file_text_append [simp]: "file_text path (cs @ ds) = foldl (\<lambda>t c. writes_to path c t) (file_text path cs) ds"
  by (simp add: file_text_def)

definition duty_zero :: "motor_config \<Rightarrow> side \<Rightarrow> sysfs_device \<Rightarrow> bool" where
  "duty_zero c s d \<longleftrightarrow> file_text (duty_path c s) (hw_log d) = Some [CHR ''0'', CHR 0x0A]"

text \<open>Files that take what the stream has accepted.\<close>

definition writes_reach :: "hardware \<Rightarrow> bool" where
  "writes_reach hw \<longleftrightarrow> (\<forall>cs path v. hw cs (WriteFile path v) \<noteq> 2)"

definition tracks_turn :: "hardware \<Rightarrow> motor_config \<Rightarrow> sysfs_device \<Rightarrow> bool" where
  "tracks_turn hw c d \<longleftrightarrow> valid_config c \<and> writes_reach hw \<and>
     \<not> (duty_zero c LeftSide d \<and> duty_zero c RightSide d)"

lemma io_wp_hw_do [io_simps]:
  "io_wp (hw_do hw k) Q d = Q (Inr (hw (hw_log d) k)) (d\<lparr>hw_log := hw_log d @ [(k, hw (hw_log d) k)]\<rparr>)"
  by (simp add: io_wp_def hw_do_def Let_def)

lemma of_integer_u64: "isfinite (of_integer (uint (w :: u64)))"
proof -
  have "uint w < 2 ^ 64" using uint_lt2p [of w] by simp
  then have "(of_int (uint w) :: rat) < of_int (2 ^ 64)" by (simp only: of_int_less_iff)
  moreover have "(0 :: rat) \<le> of_int (uint w)" by (simp only: of_int_0_le_iff uint_ge_0)
  ultimately have "\<bar>of_int (uint w) :: rat\<bar> < 2 ^ 64" by (simp only: abs_of_nonneg of_int_power of_int_numeral)
  from rnd_le_power [OF this] have "\<bar>rnd (of_int (uint w))\<bar> \<le> 2 ^ 64" .
  also have "(2 ^ 64 :: rat) < 2 ^ 1024" by (rule power_strict_increasing) simp_all
  finally show ?thesis by (simp add: of_integer_def round_double_def Let_def not_le)
qed

lemma round_double_0 [simp]: "round_double 0 = Fin 0"
  by (simp add: round_double_def rnd_def Let_def)

lemma duty_ns_0:
  assumes "valid_config c"
  shows "duty_ns 0 c = 0"
proof -
  have "0 < raw_max_speed c" "raw_max_speed c < 2 ^ 31" using assms by (auto simp: valid_config_def)
  then have m: "of_integer (raw_max_speed c) = Fin (of_int (raw_max_speed c))" "raw_max_speed c \<noteq> 0"
    by (auto intro!: of_integer_small)
  obtain q where "of_integer (uint (period_ns c)) = Fin q"
    using of_integer_u64 [of "period_ns c"] by (cases "of_integer (uint (period_ns c))") auto
  moreover have "\<lfloor>1 / 2 :: rat\<rfloor> = 0" by (simp add: floor_eq_iff)
  ultimately show ?thesis using m by (simp add: duty_ns_def of_integer_def)
qed

text \<open>Two files of different channels or purposes are different files.\<close>

lemma path_join_suffix: "\<exists>x. path_join a b = x @ b"
  by (auto simp: path_join_def)

lemma other_paths:
  "path_join a ''enable'' \<noteq> duty_path c s" "path_join a ''unexport'' \<noteq> duty_path c s"
proof -
  obtain x where x: "duty_path c s = x @ ''duty_cycle''" using path_join_suffix by (auto simp: duty_path_def)
  obtain y where y: "path_join a ''enable'' = y @ ''enable''" using path_join_suffix by blast
  obtain z where z: "path_join a ''unexport'' = z @ ''unexport''" using path_join_suffix by blast
  have "rev (y @ ''enable'') \<noteq> rev (x @ ''duty_cycle'')" "rev (z @ ''unexport'') \<noteq> rev (x @ ''duty_cycle'')"
    by simp_all
  with x y z show "path_join a ''enable'' \<noteq> duty_path c s" "path_join a ''unexport'' \<noteq> duty_path c s"
    by metis+
qed

lemma duty_zero_log:
  "duty_zero c s (d\<lparr>hw_log := hw_log d @ [(k, r)]\<rparr>) =
     (case k of WriteFile p v \<Rightarrow> if p = duty_path c s \<and> 3 \<le> r then v = [CHR ''0'', CHR 0x0A] else duty_zero c s d
      | _ \<Rightarrow> duty_zero c s d)"
  by (auto simp: duty_zero_def writes_to_def split: hw_call.split)

lemma duty_zero_flags [simp]:
  "duty_zero c s (d\<lparr>channel_closed := f\<rparr>) = duty_zero c s d"
  "duty_zero c s (d\<lparr>owns_channel := f\<rparr>) = duty_zero c s d"
  by (simp_all add: duty_zero_def)

lemma set_duty_zero:
  assumes "writes_reach hw"
  shows "io_wp (SetDutyCycleNs hw c s 0) (\<lambda>r d'. (r = Inr () \<longrightarrow> duty_zero c s d') \<and>
     (\<forall>s'. duty_zero c s' d \<longrightarrow> duty_zero c s' d')) d"
proof -
  have reply: "3 \<le> r" if "r \<noteq> 0" "r \<noteq> Suc 0" "r \<noteq> 2" for r :: nat using that by linarith
  show ?thesis
    using assms
    by (auto simp: SetDutyCycleNs_def WriteInt_def WriteText_def io_simps duty_zero_log writes_reach_def
        intro!: reply)
qed

lemma apply_side_zero:
  assumes "valid_config c" "writes_reach hw"
  shows "io_wp (ApplyMotorSide hw c s 0) (\<lambda>r d'. (r = Inr () \<longrightarrow> duty_zero c s d') \<and>
     (\<forall>s'. duty_zero c s' d \<longrightarrow> duty_zero c s' d')) d"
proof -
  have zero: "ClampI32 0 (- raw_max_speed c) (raw_max_speed c) = 0"
    using assms(1) by (auto simp: ClampI32_def valid_config_def)
  have line: "io_wp (SetLineValue hw c s False) (\<lambda>_ d'. \<forall>s'. duty_zero c s' d' = duty_zero c s' d) d" for d
    by (simp add: SetLineValue_def io_simps duty_zero_log)
  show ?thesis
    unfolding ApplyMotorSide_def
    by (simp add: zero duty_ns_0 [OF assms(1)] Let_def)
      (rule io_wp_bindI [OF line]; fastforce intro: io_wp_mono [OF set_duty_zero [OF assms(2)]])
qed

lemma set_raw_zero:
  assumes "valid_config c" "writes_reach hw"
  shows "io_wp (SetRawSpeeds hw c 0 0)
     (\<lambda>r d'. r = Inr () \<longrightarrow> duty_zero c LeftSide d' \<and> duty_zero c RightSide d') d"
  unfolding SetRawSpeeds_def
  by (rule io_wp_bindI [OF apply_side_zero [OF assms, of LeftSide]])
    (auto intro: io_wp_mono [OF apply_side_zero [OF assms, of RightSide]])

lemma close_pwm_zero:
  assumes "writes_reach hw"
  shows "io_keeps (duty_zero c s') (ClosePwm hw c s)"
proof -
  have "io_keeps (duty_zero c s') (DisableNoThrow hw c s)"
    "io_keeps (duty_zero c s') (WriteInt hw (path_join (chip_path c) ''unexport'') n)" for n
    by (simp_all add: io_keeps_def DisableNoThrow_def WriteInt_def WriteText_def io_simps duty_zero_log other_paths)
  moreover have "io_keeps (duty_zero c s') (SetDutyCycleNs hw c s 0)"
    by (rule io_keepsI, rule io_wp_mono [OF set_duty_zero [OF assms]]) blast
  ultimately show ?thesis
    unfolding ClosePwm_def by (intro io_keeps_rules io_keeps_update) simp_all
qed

interpretation sysfs: motor_driver "SysfsMotorDriver hw c" "tracks_turn hw c" for hw c
proof unfold_locales
  fix d d' :: sysfs_device
  show "\<not> tracks_turn hw c d'" if "SetSpeeds (SysfsMotorDriver hw c) 0 0 d = (Inr (), d')"
  proof -
    have "io_wp (SysfsSetSpeeds hw c 0 0) (\<lambda>r d'. r = Inr () \<longrightarrow> \<not> tracks_turn hw c d') d"
    proof (cases "valid_config c \<and> writes_reach hw")
      case True
      then show ?thesis
        unfolding SysfsSetSpeeds_def
        by (auto simp: io_wp_catch io_wp_bind [of "io_catch _ _"] io_simps tracks_turn_def
            intro!: io_wp_mono [OF set_raw_zero] split: sum.split)
    qed (auto simp: tracks_turn_def io_wp_def)
    from io_wpD [OF this] that show ?thesis by (simp add: SysfsMotorDriver_def)
  qed
  show "\<not> tracks_turn hw c d'" if "CloseDriver (SysfsMotorDriver hw c) d = (Inr (), d')"
  proof -
    have "io_wp (SysfsClose hw c) (\<lambda>r d'. r = Inr () \<longrightarrow> \<not> tracks_turn hw c d') d"
    proof (cases "valid_config c \<and> writes_reach hw")
      case True
      let ?Z = "\<lambda>d. duty_zero c LeftSide d \<and> duty_zero c RightSide d"
      have close: "io_wp (ClosePwm hw c s) (\<lambda>_. ?Z) d" if "?Z d" for s d
        using io_keepsD [OF close_pwm_zero] True that by (simp add: io_wp_def)
      show ?thesis
        unfolding SysfsClose_def
        by (rule io_wp_bindI [OF set_raw_zero], simp_all add: True)
          (rule io_wp_bindI [OF close]; auto simp: tracks_turn_def intro: io_wp_mono [OF close])
    qed (auto simp: tracks_turn_def io_wp_def)
    from io_wpD [OF this] that show ?thesis by (simp add: SysfsMotorDriver_def)
  qed
qed

text \<open>A driver that was constructed starts with its tracks at rest.\<close>

lemma new_driver_still:
  assumes "NewSysfsMotorDriver hw c d = Some (Inr (), d')"
  shows "\<not> tracks_turn hw c d'"
proof -
  have last: "\<exists>d1. SetRawSpeeds hw c 0 0 d1 = (Inr (), d')"
    using assms
    by (auto simp: NewSysfsMotorDriver_def maybe_bind_def destroying_def returning_def
        split: option.splits prod.splits sum.splits)
  then obtain d1 where run: "SetRawSpeeds hw c 0 0 d1 = (Inr (), d')" by blast
  have "duty_zero c LeftSide d' \<and> duty_zero c RightSide d'" if "valid_config c" "writes_reach hw"
    using io_wpD [OF set_raw_zero [OF that] run] by simp
  then show ?thesis by (auto simp: tracks_turn_def)
qed

end
