(* ===== verification/MotorControl.thy ===== *)
theory MotorControl
  imports MotorDriver
begin

text \<open>
  Model of \<^verbatim>\<open>MotorController\<close> in \<^verbatim>\<open>motor.cpp\<close> and of the service around it in \<^verbatim>\<open>main.cpp\<close>: velocity commands
  with a deadline, the watchdog tick, the error latch and the gRPC handlers.  The driver is an
  argument; the safety lemmas are proved once for every driver that meets \<open>motor_driver\<close>.
\<close>

section \<open>State\<close>

record motion_state =
  left_speed :: int
  right_speed :: int
  sequence :: u64

datatype hardware_state = Starting | Ready | Degraded | ErrorState | StoppedState

record 'w motor_controller =
  device :: 'w
  motion :: motion_state
  active_deadline_unix_ms :: "u64 option"
  state_of :: hardware_state
  actuator_ready :: bool
  last_error :: string
  closed :: bool

record hardware_status =
  status_state :: hardware_state
  status_actuator_ready :: bool
  status_last_error :: string
  status_motion :: motion_state
  status_deadline :: "u64 option"

type_synonym ('w, 'a) motor_io = "('w motor_controller, 'a) io"

definition NewMotorController :: "motor_config \<Rightarrow> 'w \<Rightarrow> exn + 'w motor_controller" where
  "NewMotorController c d = (case ValidateMotorConfig c of Inl e \<Rightarrow> Inl e
     | Inr _ \<Rightarrow> Inr \<lparr>device = d, motion = \<lparr>left_speed = 0, right_speed = 0, sequence = 0\<rparr>,
         active_deadline_unix_ms = None, state_of = Ready, actuator_ready = True, last_error = '''',
         closed = False\<rparr>)"

text \<open>
  \<^verbatim>\<open>FromConfig\<close> builds the driver first; when the configuration is then refused, the driver is destroyed.
\<close>

definition DestroySysfsMotorDriver :: "hardware \<Rightarrow> motor_config \<Rightarrow> (sysfs_device, unit) io" where
  "DestroySysfsMotorDriver hw c =
     io_bind (CloseLineNoThrow hw c RightSide) (\<lambda>_. io_bind (CloseLineNoThrow hw c LeftSide) (\<lambda>_.
     io_bind (ClosePwmNoThrow hw c RightSide) (\<lambda>_. ClosePwmNoThrow hw c LeftSide)))"

definition driver_of :: "hardware \<Rightarrow> motor_config \<Rightarrow> sysfs_device driver" where
  "driver_of hw c = (if enabled c then SysfsMotorDriver hw c else NoopMotorDriver)"

definition FromConfig :: "hardware \<Rightarrow> motor_config \<Rightarrow> sysfs_device motor_controller maybe_io" where
  "FromConfig hw c =
     (if enabled c
      then maybe_bind (NewSysfsMotorDriver hw c) (\<lambda>_.
        destroying (\<lambda>d. Some (NewMotorController c d, d)) (DestroySysfsMotorDriver hw c))
      else (\<lambda>d. Some (NewMotorController c d, d)))"

text \<open>A call of the driver.\<close>

definition on_device :: "('w, 'a) io \<Rightarrow> ('w, 'a) motor_io" where
  "on_device m s = (case m (device s) of (r, d) \<Rightarrow> (r, s\<lparr>device := d\<rparr>))"

section \<open>Operations\<close>

definition clear_motion :: "motion_state \<Rightarrow> motion_state" where
  "clear_motion m = (if left_speed m \<noteq> 0 \<or> right_speed m \<noteq> 0
     then \<lparr>left_speed = 0, right_speed = 0, sequence = sequence m + 1\<rparr> else m)"

definition MarkError :: "'w driver \<Rightarrow> string \<Rightarrow> ('w, unit) motor_io" where
  "MarkError D message =
     io_bind (io_update (\<lambda>s. s\<lparr>last_error := message, state_of := ErrorState, actuator_ready := False,
       active_deadline_unix_ms := None\<rparr>)) (\<lambda>_.
     io_bind (io_catch (on_device (SetSpeeds D 0 0)) (\<lambda>_. io_return ())) (\<lambda>_.
     io_update (\<lambda>s. s\<lparr>motion := clear_motion (motion s)\<rparr>)))"

definition ApplySpeeds :: "'w driver \<Rightarrow> motor_config \<Rightarrow> int \<Rightarrow> int \<Rightarrow> bool \<Rightarrow> ('w, unit) motor_io" where
  "ApplySpeeds D c l r force = io_bind (io_get motion) (\<lambda>m.
     if \<not> force \<and> left_speed m = l \<and> right_speed m = r then io_return ()
     else io_bind (io_catch
         (on_device (SetSpeeds D (track_raw l (left_track_power_percent c) c)
            (track_raw r (right_track_power_percent c) c)))
         (\<lambda>e. io_bind (MarkError D (what e)) (\<lambda>_. io_throw e))) (\<lambda>_.
       io_update (\<lambda>s. s\<lparr>motion := \<lparr>left_speed = l, right_speed = r, sequence = sequence (motion s) + 1\<rparr>\<rparr>)))"

definition StopController :: "'w driver \<Rightarrow> motor_config \<Rightarrow> bool \<Rightarrow> ('w, motion_state) motor_io" where
  "StopController D c force =
     io_bind (io_update (\<lambda>s. s\<lparr>active_deadline_unix_ms := None\<rparr>)) (\<lambda>_.
     io_bind (ApplySpeeds D c 0 0 force) (\<lambda>_.
     io_bind (io_update (\<lambda>s. if state_of s \<noteq> ErrorState then s\<lparr>state_of := Ready\<rparr> else s)) (\<lambda>_.
     io_get motion)))"

text \<open>The deadline that is kept: at most the watchdog time from now.\<close>

definition capped_deadline :: "motor_config \<Rightarrow> u64 \<Rightarrow> u64 \<Rightarrow> u64" where
  "capped_deadline c deadline now =
     (if deadline - now > watchdog_timeout_ms c then now + watchdog_timeout_ms c else deadline)"

definition lift_exn :: "exn + 'a \<Rightarrow> ('s, 'a) io" where
  "lift_exn r = (case r of Inl e \<Rightarrow> io_throw e | Inr x \<Rightarrow> io_return x)"

definition accept_velocity :: "'w driver \<Rightarrow> motor_config \<Rightarrow> twist \<Rightarrow> u64 \<Rightarrow> ('w, motion_state) motor_io" where
  "accept_velocity D c t deadline =
     io_bind (lift_exn (ValidateTwist t)) (\<lambda>_.
     io_bind (lift_exn (MixTwistToTankSpeeds t c)) (\<lambda>(l, r).
     io_bind (io_update (\<lambda>s. s\<lparr>active_deadline_unix_ms := Some deadline\<rparr>)) (\<lambda>_.
     io_bind (ApplySpeeds D c l r False) (\<lambda>_.
     io_get motion))))"

definition ApplyVelocity ::
  "'w driver \<Rightarrow> motor_config \<Rightarrow> twist \<Rightarrow> u64 \<Rightarrow> u64 \<Rightarrow> ('w, motion_state) motor_io" where
  "ApplyVelocity D c t deadline now = io_bind (io_get actuator_ready) (\<lambda>ready.
     if \<not> ready then io_throw (RuntimeError ''hardware actuator unavailable'')
     else if deadline \<le> now then io_bind (StopController D c True) (\<lambda>_.
       io_throw (RuntimeError ''cmd_vel deadline is not in the future''))
     else accept_velocity D c t (capped_deadline c deadline now))"

definition TickController :: "'w driver \<Rightarrow> motor_config \<Rightarrow> u64 \<Rightarrow> ('w, bool) motor_io" where
  "TickController D c now = io_bind (io_get active_deadline_unix_ms) (\<lambda>deadline.
     case deadline of None \<Rightarrow> io_return False
     | Some d \<Rightarrow> if now \<ge> d then io_bind (StopController D c False) (\<lambda>_. io_return True)
                 else io_return False)"

definition CloseController :: "'w driver \<Rightarrow> motor_config \<Rightarrow> ('w, unit) motor_io" where
  "CloseController D c = io_bind (io_get closed) (\<lambda>already.
     if already then io_return ()
     else io_bind (io_update (\<lambda>s. s\<lparr>closed := True\<rparr>)) (\<lambda>_.
       io_bind (io_catch (io_bind (StopController D c True) (\<lambda>_. io_return ())) (\<lambda>_. io_return ())) (\<lambda>_.
       io_bind (io_catch (on_device (CloseDriver D)) (\<lambda>e. MarkError D (what e))) (\<lambda>_.
       io_update (\<lambda>s. if state_of s \<noteq> ErrorState
         then s\<lparr>state_of := StoppedState, actuator_ready := False\<rparr> else s)))))"

definition StatusController :: "'w motor_controller \<Rightarrow> hardware_status" where
  "StatusController s = \<lparr>status_state = state_of s, status_actuator_ready = actuator_ready s,
     status_last_error = last_error s, status_motion = motion s,
     status_deadline = active_deadline_unix_ms s\<rparr>"

section \<open>The service\<close>

datatype grpc_status = GrpcOk | FailedPrecondition string | Internal string

text \<open>The two requests that can fail: the gRPC status, and the response of a successful one.\<close>

definition rpc :: "(string \<Rightarrow> grpc_status) \<Rightarrow> ('w, motion_state) motor_io \<Rightarrow> 'w motor_controller \<Rightarrow>
    (grpc_status \<times> (motion_state \<times> hardware_status) option) \<times> 'w motor_controller" where
  "rpc failed m s = (case m s of
     (Inl e, s') \<Rightarrow> ((failed (what e), None), s')
   | (Inr v, s') \<Rightarrow> ((GrpcOk, Some (v, StatusController s')), s'))"

definition ServiceApplyVelocity where
  "ServiceApplyVelocity D c t deadline now = rpc FailedPrecondition (ApplyVelocity D c t deadline now)"

definition ServiceStop where
  "ServiceStop D c = rpc Internal (StopController D c True)"

definition ServiceTick :: "'w driver \<Rightarrow> motor_config \<Rightarrow> u64 \<Rightarrow> 'w motor_controller \<Rightarrow> bool \<times> 'w motor_controller" where
  "ServiceTick D c now s = (case TickController D c now s of
     (Inl e, s') \<Rightarrow> (False, s') | (Inr b, s') \<Rightarrow> (b, s'))"

definition ServiceShutdown :: "'w driver \<Rightarrow> motor_config \<Rightarrow> 'w motor_controller \<Rightarrow> 'w motor_controller" where
  "ServiceShutdown D c s = snd (CloseController D c s)"

datatype motor_event = RpcGetStatus | RpcApplyVelocity twist u64 u64 | RpcStop | WatchdogTick u64 | Shutdown

fun service_handler :: "'w driver \<Rightarrow> motor_config \<Rightarrow> motor_event \<Rightarrow> 'w motor_controller \<Rightarrow> 'w motor_controller" where
  "service_handler D c RpcGetStatus s = s"
| "service_handler D c (RpcApplyVelocity t deadline now) s = snd (ServiceApplyVelocity D c t deadline now s)"
| "service_handler D c RpcStop s = snd (ServiceStop D c s)"
| "service_handler D c (WatchdogTick now) s = snd (ServiceTick D c now s)"
| "service_handler D c Shutdown s = ServiceShutdown D c s"

text \<open>The mutex of the service makes every handler one step.\<close>

inductive service_step ::
  "'w driver \<Rightarrow> motor_config \<Rightarrow> 'w motor_controller \<Rightarrow> motor_event \<Rightarrow> 'w motor_controller \<Rightarrow> bool" for D c where
  "service_step D c s ev (service_handler D c ev s)"

inductive_cases service_stepE: "service_step D c s ev t"

section \<open>Which motions are safe\<close>

definition at_rest :: "motion_state \<Rightarrow> bool" where
  "at_rest m \<longleftrightarrow> left_speed m = 0 \<and> right_speed m = 0"

definition latched_error :: "'w motor_controller \<Rightarrow> bool" where
  "latched_error s \<longleftrightarrow> state_of s = ErrorState \<and> \<not> actuator_ready s \<and> active_deadline_unix_ms s = None \<and>
     at_rest (motion s)"

text \<open>
  A controller that believes its tracks are at rest is right, unless it reports an error, and the
  speeds stay within 100 percent.  Between two requests motion also has a deadline.
\<close>

definition motion_known :: "('w \<Rightarrow> bool) \<Rightarrow> 'w motor_controller \<Rightarrow> bool" where
  "motion_known moving s \<longleftrightarrow>
     (if state_of s = ErrorState then latched_error s else at_rest (motion s) \<longrightarrow> \<not> moving (device s)) \<and>
     \<bar>left_speed (motion s)\<bar> \<le> 100 \<and> \<bar>right_speed (motion s)\<bar> \<le> 100"

definition motion_safe :: "('w \<Rightarrow> bool) \<Rightarrow> 'w motor_controller \<Rightarrow> bool" where
  "motion_safe moving s \<longleftrightarrow> motion_known moving s \<and>
     (\<not> at_rest (motion s) \<longrightarrow> active_deadline_unix_ms s \<noteq> None)"

lemma latched_error_safe: "latched_error s \<Longrightarrow> motion_safe moving s"
  by (simp add: motion_safe_def motion_known_def latched_error_def at_rest_def)

lemma rest_safe: "motion_known moving s \<Longrightarrow> at_rest (motion s) \<Longrightarrow> motion_safe moving s"
  by (simp add: motion_safe_def)

lemma deadline_safe: "motion_known moving s \<Longrightarrow> active_deadline_unix_ms s = Some d \<Longrightarrow> motion_safe moving s"
  by (simp add: motion_safe_def)

lemma latched_error_deadline: "latched_error s \<Longrightarrow> active_deadline_unix_ms s = None"
  by (simp add: latched_error_def)

lemmas safe_intros = latched_error_safe rest_safe deadline_safe

lemma io_wp_on_device [io_simps]: "io_wp (on_device m) Q s = io_wp m (\<lambda>r d. Q r (s\<lparr>device := d\<rparr>)) (device s)"
  by (simp add: io_wp_def on_device_def split: prod.split)

lemma at_rest_clear_motion [simp]: "at_rest (clear_motion m)"
  by (simp add: at_rest_def clear_motion_def)

lemma MarkError_latches:
  "io_wp (MarkError D message) (\<lambda>r t. r = Inr () \<and> latched_error t \<and> closed t = closed s) s"
  by (simp add: MarkError_def io_simps) (rule io_wpI, simp add: io_simps latched_error_def split: sum.split)

text \<open>The deadline that is kept lies ahead, no later than asked for and no later than the watchdog allows.\<close>

lemma capped_deadline_min:
  assumes "now < deadline"
  shows "unat (capped_deadline c deadline now) = min (unat deadline) (unat now + unat (watchdog_timeout_ms c))"
proof -
  have diff: "unat (deadline - now) = unat deadline - unat now"
    using assms by (simp add: unat_sub less_imp_le)
  have "unat (now + watchdog_timeout_ms c) = unat now + unat (watchdog_timeout_ms c)"
    if "watchdog_timeout_ms c < deadline - now"
    using that diff unsigned_less [of deadline, where 'a = nat]
    by (simp add: word_less_nat_alt unat_plus_mod)
  then show ?thesis
    using assms diff by (auto simp: capped_deadline_def word_less_nat_alt min_def)
qed

text \<open>An event that is a velocity command whose deadline and speeds the controller now has.\<close>

definition accepts :: "motor_config \<Rightarrow> motor_event \<Rightarrow> 'w motor_controller \<Rightarrow> bool" where
  "accepts c ev t \<longleftrightarrow> (\<exists>tw deadline now. ev = RpcApplyVelocity tw deadline now \<and> now < deadline \<and>
     active_deadline_unix_ms t = Some (capped_deadline c deadline now) \<and>
     MixTwistToTankSpeeds tw c = Inr (left_speed (motion t), right_speed (motion t)))"

context motor_driver
begin

lemma ApplySpeeds_known:
  assumes known: "motion_known moving s" and range: "\<bar>l\<bar> \<le> 100" "\<bar>r\<bar> \<le> 100"
    and err: "state_of s = ErrorState \<Longrightarrow> l = 0 \<and> r = 0"
  shows "io_wp (ApplySpeeds D c l r force) (\<lambda>res t. closed t = closed s \<and>
     (case res of Inl _ \<Rightarrow> latched_error t
      | Inr _ \<Rightarrow> motion_known moving t \<and> left_speed (motion t) = l \<and> right_speed (motion t) = r \<and>
          state_of t = state_of s \<and> actuator_ready t = actuator_ready s \<and>
          active_deadline_unix_ms t = active_deadline_unix_ms s)) s"
proof (cases "\<not> force \<and> left_speed (motion s) = l \<and> right_speed (motion s) = r")
  case True
  then show ?thesis using known by (simp add: ApplySpeeds_def io_simps)
next
  case False
  let ?raw = "SetSpeeds D (track_raw l (left_track_power_percent c) c) (track_raw r (right_track_power_percent c) c)"
  have ran: "motion_known moving (s\<lparr>device := d,
      motion := \<lparr>left_speed = l, right_speed = r, sequence = n\<rparr>\<rparr>)"
    if run: "?raw (device s) = (Inr (), d)" for d n
    using known range err stop_stops [of "device s" d] run
    by (auto simp: motion_known_def latched_error_def at_rest_def)
  have fail: "io_wp (MarkError D m) (\<lambda>x t. latched_error t \<and> closed t = closed s \<and> x = Inr ()) (s\<lparr>device := d\<rparr>)" for m d
    using MarkError_latches [of D m "s\<lparr>device := d\<rparr>"] by (simp add: conj_ac)
  show ?thesis
    unfolding ApplySpeeds_def io_wp_bind io_wp_get sum.case io_wp_if if_not_P [OF False]
      io_wp_catch io_wp_on_device
  proof (rule io_wpI, goal_cases)
    case (1 res d)
    show ?case
    proof (cases res)
      case (Inl e)
      have "io_wp (MarkError D (what e)) (\<lambda>x t. latched_error t \<and> closed t = closed s \<and> x = Inr ()) (s\<lparr>device := d\<rparr>)"
        by (rule fail)
      then show ?thesis by (simp add: Inl io_simps) (elim io_wp_mono, simp add: io_simps)
    next
      case (Inr x)
      then show ?thesis using 1 ran [of d] by (simp add: io_simps)
    qed
  qed
qed

text \<open>Stopping, as the client of the driver's contract.\<close>

lemma StopController_safe:
  assumes "motion_known moving s"
  shows "io_wp (StopController D c force) (\<lambda>res t. closed t = closed s \<and>
     (case res of Inl _ \<Rightarrow> latched_error t
      | Inr m \<Rightarrow> motion_known moving t \<and> at_rest (motion t) \<and> m = motion t \<and> active_deadline_unix_ms t = None \<and>
          actuator_ready t = actuator_ready s \<and> (state_of t = ErrorState \<longleftrightarrow> state_of s = ErrorState))) s"
proof -
  let ?s = "s\<lparr>active_deadline_unix_ms := None\<rparr>"
  have "motion_known moving ?s" using assms by (auto simp: motion_known_def latched_error_def)
  from ApplySpeeds_known [OF this, of 0 0 c force] show ?thesis
    unfolding StopController_def
    by (simp add: io_simps, elim io_wp_mono)
      (auto simp: io_simps motion_known_def latched_error_def at_rest_def split: sum.splits)
qed

lemma StopController_motion_safe:
  "motion_known moving s \<Longrightarrow> io_wp (StopController D c force) (\<lambda>_. motion_safe moving) s"
  by (rule io_wp_mono [OF StopController_safe])
    (auto split: sum.splits intro: safe_intros)

text \<open>Mixing a twist gives percentages.\<close>

lemma accept_velocity_safe:
  assumes "valid_config c" and safe: "motion_safe moving s" and "actuator_ready s"
  shows "io_wp (accept_velocity D c t deadline) (\<lambda>res t'. motion_safe moving t' \<and> closed t' = closed s \<and>
     (case res of Inl _ \<Rightarrow> latched_error t' \<or> t' = s
      | Inr m \<Rightarrow> ValidateTwist t = Inr () \<and> active_deadline_unix_ms t' = Some deadline \<and> m = motion t' \<and>
          MixTwistToTankSpeeds t c = Inr (left_speed m, right_speed m) \<and> actuator_ready t')) s"
proof (cases "ValidateTwist t")
  case (Inl e)
  then show ?thesis using safe by (simp add: accept_velocity_def lift_exn_def io_simps)
next
  case valid: (Inr u)
  show ?thesis
  proof (cases "MixTwistToTankSpeeds t c")
    case (Inl e)
    then show ?thesis using safe valid by (simp add: accept_velocity_def lift_exn_def io_simps)
  next
    case (Inr lr)
    obtain l r where lr: "lr = (l, r)" by (cases lr)
    have range: "\<bar>l\<bar> \<le> 100" "\<bar>r\<bar> \<le> 100"
      using mix_bounds [of c t l r] Inr lr valid assms(1) by auto
    let ?s = "s\<lparr>active_deadline_unix_ms := Some deadline\<rparr>"
    have ok: "state_of ?s \<noteq> ErrorState" "motion_known moving ?s"
      using safe assms(3) by (auto simp: motion_safe_def motion_known_def latched_error_def split: if_splits)
    from ApplySpeeds_known [OF ok(2) range, of c False] ok(1) show ?thesis
      unfolding accept_velocity_def
      by (simp add: valid Inr lr lift_exn_def io_simps, elim io_wp_mono)
        (auto simp: io_simps valid Inr lr assms(3) split: sum.splits intro: safe_intros)
  qed
qed

lemma ApplyVelocity_safe:
  assumes "valid_config c" and safe: "motion_safe moving s"
  shows "io_wp (ApplyVelocity D c t deadline now) (\<lambda>res t'. motion_safe moving t' \<and> closed t' = closed s \<and>
     (case res of Inl _ \<Rightarrow> latched_error t' \<or> t' = s \<or>
         deadline \<le> now \<and> active_deadline_unix_ms t' = None \<and> at_rest (motion t')
      | Inr m \<Rightarrow> actuator_ready s \<and> now < deadline \<and> ValidateTwist t = Inr () \<and>
          active_deadline_unix_ms t' = Some (capped_deadline c deadline now) \<and>
          m = motion t' \<and> MixTwistToTankSpeeds t c = Inr (left_speed m, right_speed m))) s"
proof -
  have known: "motion_known moving s" using safe by (simp add: motion_safe_def)
  show ?thesis
    unfolding ApplyVelocity_def
    by (auto simp: io_simps safe not_le split: sum.split
        intro!: io_wp_mono [OF StopController_safe [OF known]] io_wp_mono [OF accept_velocity_safe [OF assms]]
        intro: safe_intros)
qed

lemma TickController_safe:
  assumes safe: "motion_safe moving s"
  shows "io_wp (TickController D c now) (\<lambda>res t. motion_safe moving t \<and> closed t = closed s \<and>
     (t = s \<or> active_deadline_unix_ms t = None) \<and>
     (\<forall>d. active_deadline_unix_ms t = Some d \<longrightarrow> now < d)) s"
proof -
  have known: "motion_known moving s" using safe by (simp add: motion_safe_def)
  show ?thesis
    unfolding TickController_def
    by (auto simp: io_simps safe not_le latched_error_deadline split: sum.split option.split
        intro!: io_wp_mono [OF StopController_safe [OF known]]
        intro: safe_intros)
qed

text \<open>Closing: whatever fails, the controller ends without deadline and never ready again.\<close>

lemma close_driver_ends:
  assumes "closed s" "active_deadline_unix_ms s = None" "at_rest (motion s)" "state_of s = ErrorState \<Longrightarrow> latched_error s"
  shows "io_wp (io_catch (on_device (CloseDriver D)) (\<lambda>e. MarkError D (what e)))
     (\<lambda>r t. r = Inr () \<and> closed t \<and> active_deadline_unix_ms t = None \<and> at_rest (motion t) \<and>
        (latched_error t \<or> state_of t \<noteq> ErrorState \<and> \<not> moving (device t))) s"
proof -
  have fail: "io_wp (MarkError D m) (\<lambda>x t. x = Inr () \<and> latched_error t \<and> closed t) (s\<lparr>device := d\<rparr>)" for m d
    using MarkError_latches [of D m "s\<lparr>device := d\<rparr>"] assms(1) by simp
  have "state_of s = ErrorState \<Longrightarrow> latched_error (s\<lparr>device := d\<rparr>)" for d
    using assms(4) by (simp add: latched_error_def)
  then show ?thesis
    unfolding io_wp_catch io_wp_on_device
    by (intro io_wpI)
      (auto simp: assms(1-3) close_stops latched_error_def split: sum.split intro!: io_wp_mono [OF fail])
qed

lemma CloseController_ends:
  assumes "motion_safe moving s"
  shows "io_wp (CloseController D c) (\<lambda>r t. r = Inr () \<and>
     (if closed s then t = s
      else closed t \<and> motion_safe moving t \<and> active_deadline_unix_ms t = None \<and> at_rest (motion t) \<and>
        \<not> actuator_ready t \<and> (latched_error t \<or> state_of t = StoppedState \<and> \<not> moving (device t)))) s"
proof (cases "closed s")
  case True
  then show ?thesis by (simp add: CloseController_def io_simps)
next
  case False
  let ?s = "s\<lparr>closed := True\<rparr>"
  have known: "motion_known moving ?s"
    using assms by (auto simp: motion_safe_def motion_known_def latched_error_def)
  have stop: "io_wp (io_catch (io_bind (StopController D c True) (\<lambda>_. io_return ())) (\<lambda>_. io_return ()))
     (\<lambda>r t. r = Inr () \<and> closed t \<and> active_deadline_unix_ms t = None \<and> at_rest (motion t) \<and>
        (state_of t = ErrorState \<longrightarrow> latched_error t)) ?s"
    by (simp add: io_simps, rule io_wp_mono [OF StopController_safe [OF known]])
      (auto simp: io_simps motion_known_def latched_error_def split: sum.splits)
  have finish: "io_wp (io_update (\<lambda>s. if state_of s \<noteq> ErrorState
         then s\<lparr>state_of := StoppedState, actuator_ready := False\<rparr> else s))
      (\<lambda>r t. r = Inr () \<and> closed t \<and> motion_safe moving t \<and> active_deadline_unix_ms t = None \<and> at_rest (motion t) \<and>
        \<not> actuator_ready t \<and> (latched_error t \<or> state_of t = StoppedState \<and> \<not> moving (device t))) t"
    if "closed t" "active_deadline_unix_ms t = None" "at_rest (motion t)"
      "latched_error t \<or> state_of t \<noteq> ErrorState \<and> \<not> moving (device t)" for t
    using that by (auto simp: io_simps motion_safe_def motion_known_def latched_error_def at_rest_def)
  show ?thesis
    unfolding CloseController_def
    by (simp add: io_wp_bind [of "io_get _"] io_wp_bind [of "io_update _"] io_wp_get io_wp_update False)
      (rule io_wp_bindI [OF stop], auto intro!: io_wp_bindI [OF close_driver_ends] simp: finish)
qed

text \<open>The error state is latched.\<close>

lemma StopController_latched: "io_keeps latched_error (StopController D c force)"
proof (rule io_keepsI)
  fix s :: "'w motor_controller"
  assume "latched_error s"
  then have "motion_known moving s" "state_of s = ErrorState"
    using latched_error_safe by (auto simp: motion_safe_def latched_error_def)
  then show "io_wp (StopController D c force) (\<lambda>_. latched_error) s"
    by (auto intro!: io_wp_mono [OF StopController_safe] simp: motion_known_def split: sum.splits)
qed

lemma on_device_latched: "io_keeps latched_error (on_device m)"
  by (rule io_keepsI, simp add: io_simps, rule io_wpI) (simp add: latched_error_def)

lemma MarkError_latched: "io_keeps latched_error (MarkError D m)"
  by (rule io_keepsI, rule io_wp_mono [OF MarkError_latches]) simp

lemma ApplyVelocity_latched: "latched_error s \<Longrightarrow>
    ApplyVelocity D c t deadline now s = (Inl (RuntimeError ''hardware actuator unavailable''), s)"
  by (simp add: ApplyVelocity_def io_bind_def io_get_def io_throw_def latched_error_def)

lemma CloseController_latched: "io_keeps latched_error (CloseController D c)"
  unfolding CloseController_def
  by (intro io_keeps_rules io_keeps_update StopController_latched on_device_latched MarkError_latched)
    (auto simp: latched_error_def)

lemma service_latched:
  assumes "latched_error s"
  shows "latched_error (service_handler D c ev s)"
proof (cases ev)
  case (RpcApplyVelocity t deadline now)
  then show ?thesis using assms by (simp add: ServiceApplyVelocity_def rpc_def ApplyVelocity_latched)
next
  case RpcStop
  then show ?thesis using io_wpD [OF io_keepsD [OF StopController_latched assms]]
    by (auto simp: ServiceStop_def rpc_def split: prod.split sum.split)
next
  case (WatchdogTick now)
  then show ?thesis using assms
    by (simp add: ServiceTick_def TickController_def io_bind_def io_get_def io_return_def latched_error_def)
next
  case Shutdown
  then show ?thesis using io_wpD [OF io_keepsD [OF CloseController_latched assms]]
    by (cases "CloseController D c s") (auto simp: ServiceShutdown_def)
qed (use assms in simp)

text \<open>
  Every handler keeps motion safe; it forgets the deadline, leaves motion and deadline as they were,
  or it is a velocity command that was accepted.
\<close>

lemma service_safe:
  fixes ev
  assumes "valid_config c" and safe: "motion_safe moving s"
  defines "t \<equiv> service_handler D c ev s"
  shows "motion_safe moving t \<and> (active_deadline_unix_ms t = None \<or> t = s \<or> accepts c ev t)"
proof (cases ev)
  case (RpcApplyVelocity tw deadline now)
  then show ?thesis
    using io_wpD [OF ApplyVelocity_safe [OF assms(1) safe, of tw deadline now]]
    by (auto simp: t_def ServiceApplyVelocity_def rpc_def accepts_def latched_error_deadline
        split: prod.split sum.splits)
next
  case RpcStop
  have known: "motion_known moving s" using safe by (simp add: motion_safe_def)
  from RpcStop show ?thesis
    using io_wpD [OF StopController_safe [OF known]] io_wpD [OF StopController_motion_safe [OF known]]
    by (cases "StopController D c True s")
      (fastforce simp: t_def ServiceStop_def rpc_def latched_error_deadline split: sum.splits)
next
  case (WatchdogTick now)
  then show ?thesis
    using io_wpD [OF TickController_safe [OF safe]]
    by (cases "TickController D c now s") (fastforce simp: t_def ServiceTick_def split: sum.splits)
next
  case Shutdown
  then show ?thesis
    using io_wpD [OF CloseController_ends [OF safe]] safe
    by (cases "CloseController D c s") (fastforce simp: t_def ServiceShutdown_def split: if_splits)
qed (use safe in \<open>simp add: t_def\<close>)

end

end
