(* ===== verification/MotorProps.thy ===== *)
theory MotorProps
  imports MotorControl
begin

text \<open>
  What the motor worker guarantees, from its start on any answers of the operating system and any
  sequence of requests, ticks and shutdowns.
\<close>

section \<open>Runs\<close>

interpretation configured: motor_driver "driver_of hw c" "\<lambda>d. enabled c \<and> tracks_turn hw c d" for hw c
  by unfold_locales
    (auto simp: driver_of_def dest: sysfs.stop_stops sysfs.close_stops split: if_splits)

text \<open>Every sequence of events is a run.\<close>

lemma service_runs: "\<exists>t. steps (service_step D c) s es t"
proof (induction es rule: rev_induct)
  case Nil
  have "steps (service_step D c) s [] s" by (rule steps_nil)
  then show ?case by (rule exI)
next
  case (snoc e es)
  then obtain t where "steps (service_step D c) s es t" by blast
  then have "steps (service_step D c) s (es @ [e]) (service_handler D c e t)"
    by (rule steps_snoc) (rule service_step.intros)
  then show ?case by (rule exI)
qed

text \<open>A controller that \<^verbatim>\<open>FromConfig\<close> has made of a configuration.\<close>

definition worker_started :: "hardware \<Rightarrow> motor_config \<Rightarrow> sysfs_device motor_controller \<Rightarrow> bool" where
  "worker_started hw c s \<longleftrightarrow> config_typed c \<and> (\<exists>d d'. FromConfig hw c d = Some (Inr s, d'))"

abbreviation worker_step where
  "worker_step hw c \<equiv> service_step (driver_of hw c) c"

abbreviation worker_safe where
  "worker_safe hw c s \<equiv> valid_config c \<and> motion_safe (\<lambda>d. enabled c \<and> tracks_turn hw c d) s"

lemma new_controller:
  assumes "config_typed c" "NewMotorController c d = Inr s"
  shows "valid_config c" "device s = d" "at_rest (motion s)" "active_deadline_unix_ms s = None" "state_of s = Ready"
  using assms ValidateMotorConfig_iff [OF assms(1)]
  by (auto simp: NewMotorController_def at_rest_def split: sum.splits)

lemma worker_started_safe:
  assumes "worker_started hw c s"
  shows "worker_safe hw c s" and "active_deadline_unix_ms s = None"
proof -
  from assms obtain d d' where c: "config_typed c" and run: "FromConfig hw c d = Some (Inr s, d')"
    by (auto simp: worker_started_def)
  have "\<exists>d. NewMotorController c d = Inr s \<and> (enabled c \<longrightarrow> \<not> tracks_turn hw c d)"
  proof (cases "enabled c")
    case True
    with run obtain d1 where "NewSysfsMotorDriver hw c d = Some (Inr (), d1)" "NewMotorController c d1 = Inr s"
      by (auto simp: FromConfig_def maybe_bind_def destroying_def split: option.splits prod.splits sum.splits)
    then show ?thesis using new_driver_still by blast
  qed (use run in \<open>auto simp: FromConfig_def\<close>)
  then obtain d where d: "NewMotorController c d = Inr s" "enabled c \<longrightarrow> \<not> tracks_turn hw c d" by blast
  note new = new_controller [OF c d(1)]
  show "active_deadline_unix_ms s = None" by (rule new(4))
  show "worker_safe hw c s" using new d(2) by (auto simp: motion_safe_def motion_known_def at_rest_def)
qed

lemma worker_step_outcome:
  assumes "worker_safe hw c s" "worker_step hw c s e t"
  shows "motion_safe (\<lambda>d. enabled c \<and> tracks_turn hw c d) t \<and>
     (active_deadline_unix_ms t = None \<or> t = s \<or> accepts c e t)"
proof -
  from assms(2) have t: "t = service_handler (driver_of hw c) c e s" by (auto elim: service_stepE)
  show ?thesis unfolding t by (rule configured.service_safe) (simp_all add: assms(1))
qed

interpretation worker: event_system "worker_started hw c" "worker_step hw c" "worker_safe hw c" for hw c
proof unfold_locales
  show "worker_started hw c s \<Longrightarrow> worker_safe hw c s" for s by (rule worker_started_safe)
  show "worker_safe hw c s \<Longrightarrow> worker_step hw c s e t \<Longrightarrow> worker_safe hw c t" for s e t
    using worker_step_outcome by blast
qed

interpretation worker_error: latching_system "worker_step hw c" latched_error "\<lambda>_. False" for hw c
  by unfold_locales (auto elim!: service_stepE intro: configured.service_latched)

text \<open>A deadline and the motion under it come from a command of the run.\<close>

lemma deadline_commanded:
  assumes "worker_started hw c s" "steps (worker_step hw c) s es t" "active_deadline_unix_ms t = Some d"
  shows "\<exists>ev \<in> set es. accepts c ev t"
  using assms(2,1,3)
proof (induction rule: steps.induct)
  case steps_nil
  then show ?case using worker_started_safe(2) by fastforce
next
  case (steps_snoc es u e t)
  have "worker_safe hw c u" by (rule worker.run_inv [OF steps_snoc.prems(1) steps_snoc.hyps(1)])
  then have "t = u \<or> accepts c e t"
    using worker_step_outcome [OF _ steps_snoc.hyps(2)] steps_snoc.prems(2) by auto
  then show ?case using steps_snoc by auto
qed

lemma tick_deadline:
  assumes "worker_safe hw c s" "worker_step hw c s (WatchdogTick now) t" "active_deadline_unix_ms t = Some d"
  shows "now < d"
  using io_wpD [OF configured.TickController_safe [where s = s and now = now]] assms
  by (cases "TickController (driver_of hw c) c now s")
    (auto elim!: service_stepE simp: ServiceTick_def split: sum.splits)

section \<open>A sample worker\<close>

text \<open>Hardware that works for a number of calls and then fails, and a worker started on it.\<close>

definition fail_after :: "nat \<Rightarrow> hardware" where
  "fail_after n cs k = (if length cs < n then 3 else 0)"

definition sample_motor :: motor_config where
  "sample_motor = \<lparr>enabled = True, pwm_sysfs_root = ''/pwm'', raw_max_speed = 480, cmd_raw_min_speed = 0,
     cmd_raw_max_speed = 480, pwm_hz = 20000, pwm_chip = 0, gpio_chip = 0, left_pwm_channel = 0,
     right_pwm_channel = 1, left_dir_gpio = 5, right_dir_gpio = 6, left_inverted = False, right_inverted = False,
     track_width_m = Fin 2, max_wheel_linear_speed_mps = Fin 1, left_track_power_percent = Fin 100,
     right_track_power_percent = Fin 100, watchdog_timeout_ms = 500\<rparr>"

definition fresh_device :: sysfs_device where
  "fresh_device = \<lparr>hw_log = [], owns_channel = (\<lambda>_. False), channel_closed = (\<lambda>_. False)\<rparr>"

lemma sample_motor_ok: "config_typed sample_motor" "valid_config sample_motor" "enabled sample_motor"
  by (simp_all add: config_typed_def valid_config_def sample_motor_def)

lemma io_hw_do [simp]:
  "hw_do hw k d = (Inr (hw (hw_log d) k), d\<lparr>hw_log := hw_log d @ [(k, hw (hw_log d) k)]\<rparr>)"
  by (simp add: hw_do_def Let_def)

lemma io_wp_run: "m w = (r, w') \<Longrightarrow> io_wp m Q w = Q r w'"
  by (simp add: io_wp_def)

lemma sample_started:
  assumes "20 \<le> n"
  shows "\<exists>s. worker_started (fail_after n) sample_motor s \<and> length (hw_log (device s)) = 20"
proof -
  have valid: "ValidateMotorConfig sample_motor = Inr ()"
    using ValidateMotorConfig_iff sample_motor_ok by blast
  have "\<exists>d. NewSysfsMotorDriver (fail_after n) sample_motor fresh_device = Some (Inr (), d) \<and> length (hw_log d) = 20"
    using assms
    by (simp add: NewSysfsMotorDriver_def NewSysfsPwmChannel_def maybe_bind_def destroying_def returning_def
        export_channel_def NewGpioOutputPin_def SetRawSpeeds_def ApplyMotorSide_def SetLineValue_def SetDutyCycleNs_def
        is_directory_def SetPeriodNs_def Enable_def DisableNoThrow_def WriteInt_def WriteText_def io_simps io_catch_def Let_def
        fail_after_def fresh_device_def)
  then obtain d where d: "NewSysfsMotorDriver (fail_after n) sample_motor fresh_device = Some (Inr (), d)"
      "length (hw_log d) = 20" by blast
  from valid obtain s where s: "NewMotorController sample_motor d = Inr s" "device s = d"
    by (simp add: NewMotorController_def)
  with d have "FromConfig (fail_after n) sample_motor fresh_device = Some (Inr s, d)"
    using sample_motor_ok(3) by (simp add: FromConfig_def maybe_bind_def destroying_def)
  with d s sample_motor_ok(1) show ?thesis unfolding worker_started_def by blast
qed

section \<open>Properties\<close>



text \<open>
  C26. A velocity request in any reachable state succeeds only with a ready actuator, a deadline in
  the future and a valid twist; then the motion is the mix of the twist and the deadline is the earlier
  of the requested one and the watchdog's, without overflow.  A refused request changes nothing, or
  has latched an error, or had a deadline in the past and has stopped the tracks.
\<close>

theorem apply_velocity_outcome:
  assumes "worker_started hw c s0" "steps (worker_step hw c) s0 es s"
    and "ServiceApplyVelocity (driver_of hw c) c tw deadline now s = ((st, response), t)"
  shows "st = GrpcOk \<and> response = Some (motion t, StatusController t) \<and>
       actuator_ready s \<and> now < deadline \<and> ValidateTwist tw = Inr () \<and>
       MixTwistToTankSpeeds tw c = Inr (left_speed (motion t), right_speed (motion t)) \<and>
       (\<exists>d. active_deadline_unix_ms t = Some d \<and>
          unat d = min (unat deadline) (unat now + unat (watchdog_timeout_ms c))) \<or>
     (\<exists>message. st = FailedPrecondition message) \<and> response = None \<and>
       (t = s \<or> latched_error t \<or> deadline \<le> now \<and> active_deadline_unix_ms t = None \<and> at_rest (motion t))"
proof -
  have safe: "worker_safe hw c s" by (rule worker.run_inv [OF assms(1,2)])
  obtain res t' where run: "ApplyVelocity (driver_of hw c) c tw deadline now s = (res, t')" by fastforce
  from io_wpD [OF configured.ApplyVelocity_safe run] safe assms(3) show ?thesis
    by (auto simp: ServiceApplyVelocity_def rpc_def run capped_deadline_min split: sum.splits)
qed

theorem apply_velocity_outcome_witness:
  "\<exists>hw s t message. worker_started hw sample_motor s \<and>
     ServiceApplyVelocity (driver_of hw sample_motor) sample_motor
       \<lparr>linear = \<lparr>x_of = Fin 1, y_of = Fin 0, z_of = Fin 0\<rparr>, angular = \<lparr>x_of = Fin 0, y_of = Fin 0, z_of = Fin 0\<rparr>\<rparr>
       900 1000 s = ((FailedPrecondition message, None), t) \<and>
     (t = s \<or> latched_error t \<or> active_deadline_unix_ms t = None \<and> at_rest (motion t))"
proof -
  let ?hw = "fail_after 1000"
  let ?tw = "\<lparr>linear = \<lparr>x_of = Fin 1, y_of = Fin 0, z_of = Fin 0\<rparr>, angular = \<lparr>x_of = Fin 0, y_of = Fin 0, z_of = Fin 0\<rparr>\<rparr>"
  obtain s where s: "worker_started ?hw sample_motor s" using sample_started [of 1000] by auto
  obtain st response t where run:
    "ServiceApplyVelocity (driver_of ?hw sample_motor) sample_motor ?tw 900 1000 s = ((st, response), t)"
    by (metis surj_pair)
  from apply_velocity_outcome [OF s steps_nil run] s run show ?thesis by auto
qed

text \<open>
  What is sent to a track for a speed in percent: the raw speed has the sign of the speed, stays
  within the configured command range and is zero at speed zero; the side of the driver makes no other
  call than setting the direction line accordingly and writing a duty cycle of at most the period,
  which is zero at speed zero.
\<close>

theorem track_commands_bounded:
  fixes percent v
  assumes "valid_config c"
  defines "raw \<equiv> track_raw v percent c"
  shows "\<bar>raw\<bar> \<le> cmd_raw_max_speed c \<and> (v \<noteq> 0 \<longrightarrow> cmd_raw_min_speed c \<le> \<bar>raw\<bar>) \<and>
     (0 \<le> v \<longrightarrow> 0 \<le> raw) \<and> (v \<le> 0 \<longrightarrow> raw \<le> 0) \<and>
     (\<forall>k r. (k, r) \<in> set (drop (length (hw_log d)) (hw_log (snd (ApplyMotorSide hw c side raw d)))) \<longrightarrow>
        k = SetLine (gpio_chip c) (dir_gpio c side) (if inverted c side then 0 < raw else raw < 0) \<or>
        (\<exists>n \<le> unat (period_ns c). k = WriteFile (duty_path c side) (decimal_string n @ [CHR 0x0A]) \<and>
           (v = 0 \<longrightarrow> n = 0)))"
proof -
  note b = track_raw_bounds [OF assms(1), where v = v and p = percent, folded raw_def]
  have clamp: "ClampI32 raw (- raw_max_speed c) (raw_max_speed c) = raw"
    using b(2) assms(1) by (auto simp: ClampI32_def valid_config_def)
  have zero: "v = 0 \<Longrightarrow> raw = 0" by (simp add: raw_def)
  have "\<forall>k r. (k, r) \<in> set (drop (length (hw_log d)) (hw_log (snd (ApplyMotorSide hw c side raw d)))) \<longrightarrow>
        k = SetLine (gpio_chip c) (dir_gpio c side) (if inverted c side then 0 < raw else raw < 0) \<or>
        (\<exists>n \<le> unat (period_ns c). k = WriteFile (duty_path c side) (decimal_string n @ [CHR 0x0A]) \<and>
           (v = 0 \<longrightarrow> n = 0))"
  proof -
    let ?ok = "\<lambda>k. k = SetLine (gpio_chip c) (dir_gpio c side) (if inverted c side then 0 < raw else raw < 0) \<or>
        (\<exists>n \<le> unat (period_ns c). k = WriteFile (duty_path c side) (decimal_string n @ [CHR 0x0A]) \<and>
           (v = 0 \<longrightarrow> n = 0))"
    have duty: "?ok (WriteFile (duty_path c side) (decimal_string (unat (min (duty_ns e c) (period_ns c))) @ [CHR 0x0A]))"
      if "raw = 0 \<Longrightarrow> e = 0" for e
      using zero duty_ns_0 [OF assms(1)] that by (auto simp: word_le_nat_alt [symmetric] intro!: exI [of _ "unat (min (duty_ns e c) (period_ns c))"])
    have "io_wp (ApplyMotorSide hw c side raw)
        (\<lambda>_ d'. \<forall>(k, r) \<in> set (drop (length (hw_log d)) (hw_log d')). ?ok k) d"
      using duty
      by (auto simp: ApplyMotorSide_def Let_def clamp SetLineValue_def SetDutyCycleNs_def WriteInt_def WriteText_def io_simps)
    then show ?thesis by (auto simp: io_wp_def)
  qed
  then show ?thesis using b by blast
qed

theorem track_commands_bounded_witness:
  "valid_config sample_motor \<and> \<bar>track_raw 40 (Fin 100) sample_motor\<bar> \<le> 480 \<and> 0 \<le> track_raw 40 (Fin 100) sample_motor"
proof -
  have "cmd_raw_max_speed sample_motor = 480" by (simp add: sample_motor_def)
  with track_commands_bounded [OF sample_motor_ok(2), of 40 "Fin 100" fresh_device "fail_after 1000" LeftSide]
  show ?thesis using sample_motor_ok(2) by auto
qed

text \<open>
  C27. The error state is latched: once a reachable controller reports it, it reports it after every
  further request, tick and shutdown, with no deadline and no motion, and refuses every velocity
  request without touching the driver.
\<close>

theorem error_state_latched:
  assumes "worker_started hw c s" "steps (worker_step hw c) s es t" "state_of t = ErrorState"
    and "steps (worker_step hw c) t es' u"
  shows "state_of u = ErrorState \<and> \<not> actuator_ready u \<and> active_deadline_unix_ms u = None \<and> at_rest (motion u) \<and>
     ServiceApplyVelocity (driver_of hw c) c tw deadline now u =
       ((FailedPrecondition ''hardware actuator unavailable'', None), u)"
proof -
  have "latched_error t"
    using worker.run_inv [OF assms(1,2)] assms(3) by (simp add: motion_safe_def motion_known_def)
  then have "latched_error u" by (intro worker_error.steps_latched [OF assms(4)]) (simp_all add: list_all_iff)
  then show ?thesis
    by (simp add: ServiceApplyVelocity_def rpc_def configured.ApplyVelocity_latched) (simp add: latched_error_def)
qed

theorem error_state_latched_witness:
  "\<exists>hw s t u. worker_started hw sample_motor s \<and> steps (worker_step hw sample_motor) s [RpcStop] t \<and>
     state_of t = ErrorState \<and> steps (worker_step hw sample_motor) t [Shutdown, RpcStop] u \<and>
     ServiceApplyVelocity (driver_of hw sample_motor) sample_motor
       \<lparr>linear = \<lparr>x_of = Fin 1, y_of = Fin 0, z_of = Fin 0\<rparr>, angular = \<lparr>x_of = Fin 0, y_of = Fin 0, z_of = Fin 0\<rparr>\<rparr>
       9000 1000 u = ((FailedPrecondition ''hardware actuator unavailable'', None), u)"
proof -
  let ?hw = "fail_after 20"
  obtain s where s: "worker_started ?hw sample_motor s" "length (hw_log (device s)) = 20"
    using sample_started [of 20] by auto
  let ?t = "service_handler (driver_of ?hw sample_motor) sample_motor RpcStop s"
  have t: "steps (worker_step ?hw sample_motor) s [RpcStop] ?t"
    by (rule steps_single, rule service_step.intros)
  have "\<exists>e d. SetSpeeds (driver_of ?hw sample_motor) 0 0 (device s) = (Inl e, d)"
    using s(2) sample_motor_ok(3)
    by (simp add: driver_of_def SysfsMotorDriver_def SysfsSetSpeeds_def SetRawSpeeds_def ApplyMotorSide_def
        SetLineValue_def io_catch_def io_simps Let_def fail_after_def)
  then obtain e d where fails: "SetSpeeds (driver_of ?hw sample_motor) 0 0 (device s) = (Inl e, d)" by blast
  have run: "io_wp (SetSpeeds (driver_of ?hw sample_motor) 0 0) Q (device s) = Q (Inl e) d" for Q
    using fails by (rule io_wp_run)
  have "io_wp (StopController (driver_of ?hw sample_motor) sample_motor True) (\<lambda>_. latched_error) s"
    unfolding StopController_def ApplySpeeds_def
    by (simp add: io_simps run) (rule io_wp_mono [OF MarkError_latches], simp add: io_simps)
  then have err: "state_of ?t = ErrorState"
    by (auto simp: ServiceStop_def rpc_def io_wp_def latched_error_def split: prod.splits sum.splits)
  obtain u where u: "steps (worker_step ?hw sample_motor) ?t [Shutdown, RpcStop] u"
    using service_runs by blast
  from error_state_latched [OF s(1) t err u] s(1) t err u show ?thesis by blast
qed

end
