(* ===== verification/HwCli.thy ===== *)
theory HwCli
  imports MotorDriver
begin

text \<open>
  Model of the reading side of \<^verbatim>\<open>config.cpp\<close>: options and environment, the numbers in them, and the
  configuration that \<^verbatim>\<open>ParseCli\<close> returns.
\<close>

section \<open>Floating-point numbers in texts\<close>

text \<open>
  \<^verbatim>\<open>std::stod\<close>: white space, a sign, then a hexadecimal or decimal number, an infinity or a NaN.  The
  exact value is rounded once; a result out of range throws, also when it is subnormal and inexact.
\<close>

definition digit_value :: "nat \<Rightarrow> char \<Rightarrow> nat option" where
  "digit_value base c = (case hex_value c of Some v \<Rightarrow> if v < base then Some v else None | None \<Rightarrow> None)"

definition is_digit :: "nat \<Rightarrow> char \<Rightarrow> bool" where
  "is_digit base c \<longleftrightarrow> digit_value base c \<noteq> None"

definition number_in :: "nat \<Rightarrow> string \<Rightarrow> nat" where
  "number_in base ds = foldl (\<lambda>n c. base * n + the (digit_value base c)) 0 ds"

definition tolower :: "char \<Rightarrow> char" where
  "tolower c = (let n = of_char c :: nat in if 65 \<le> n \<and> n \<le> 90 then char_of (n + 32) else c)"

definition has_prefix :: "string \<Rightarrow> string \<Rightarrow> bool" where
  "has_prefix p s \<longleftrightarrow> map tolower (take (length p) s) = p"

text \<open>The exponent after the mark; without digits it is not part of the number.\<close>

definition parse_exponent :: "char \<Rightarrow> string \<Rightarrow> int \<times> string" where
  "parse_exponent mark s = (case s of
     c # t \<Rightarrow> (case parse_sign t of (neg, u) \<Rightarrow>
       let ds = takeWhile isdigit u in
       if tolower c \<noteq> mark \<or> ds = [] then (0, s)
       else (if neg then - int (number ds) else int (number ds), dropWhile isdigit u))
   | [] \<Rightarrow> (0, []))"

definition parse_fraction :: "nat \<Rightarrow> string \<Rightarrow> string \<times> string" where
  "parse_fraction base s = (case s of
     c # t \<Rightarrow> if c = CHR ''.'' then (takeWhile (is_digit base) t, dropWhile (is_digit base) t) else ([], s)
   | [] \<Rightarrow> ([], []))"

definition scale :: "nat \<Rightarrow> int \<Rightarrow> rat" where
  "scale base e = (if 0 \<le> e then of_nat base ^ nat e else 1 / of_nat base ^ nat (- e))"

text \<open>A number in base 10 with a decimal exponent, or in base 16 with a binary one.\<close>

definition parse_mantissa :: "nat \<Rightarrow> char \<Rightarrow> nat \<Rightarrow> string \<Rightarrow> (rat \<times> string) option" where
  "parse_mantissa base mark radix s =
     (let whole = takeWhile (is_digit base) s in
      case parse_fraction base (dropWhile (is_digit base) s) of (fraction, rest) \<Rightarrow>
      if whole = [] \<and> fraction = [] then None
      else case parse_exponent mark rest of (e, rest') \<Rightarrow>
        Some (of_nat (number_in base (whole @ fraction)) * scale base (- int (length fraction)) * scale radix e, rest'))"

definition is_word :: "char \<Rightarrow> bool" where
  "is_word c \<longleftrightarrow> isdigit c \<or> c = CHR ''_'' \<or> (97 \<le> (of_char (tolower c) :: nat) \<and> (of_char (tolower c) :: nat) \<le> 122)"

definition parse_nan_payload :: "string \<Rightarrow> string" where
  "parse_nan_payload s = (case s of
     c # t \<Rightarrow> if c = CHR ''('' \<and> take 1 (dropWhile is_word t) = '')'' then drop 1 (dropWhile is_word t) else s
   | [] \<Rightarrow> [])"

definition signed_double :: "bool \<Rightarrow> rat \<Rightarrow> rat" where
  "signed_double neg x = (if neg then - x else x)"

definition erange :: "rat \<Rightarrow> bool" where
  "erange x \<longleftrightarrow> \<bar>rnd x\<bar> \<ge> 2 ^ 1024 \<or> (rnd x \<noteq> x \<and> \<bar>rnd x\<bar> < 1 / 2 ^ 1022)"

definition to_double :: "bool \<Rightarrow> rat \<times> string \<Rightarrow> exn + double \<times> string" where
  "to_double neg r = (case r of (x, rest) \<Rightarrow>
     let y = signed_double neg x in
     if erange y then Inl (LogicError ''stod'') else Inr (round_double y, rest))"

definition stod :: "string \<Rightarrow> exn + double \<times> string" where
  "stod v = (case parse_sign (dropWhile isspace v) of (neg, s) \<Rightarrow>
     if has_prefix ''infinity'' s then Inr (Infinite neg, drop 8 s)
     else if has_prefix ''inf'' s then Inr (Infinite neg, drop 3 s)
     else if has_prefix ''nan'' s then Inr (NaN, parse_nan_payload (drop 3 s))
     else case (if has_prefix ''0x'' s then parse_mantissa 16 CHR ''p'' 2 (drop 2 s) else None) of
       Some r \<Rightarrow> to_double neg r
     | None \<Rightarrow> (case parse_mantissa 10 CHR ''e'' 10 s of
         Some r \<Rightarrow> to_double neg r
       | None \<Rightarrow> Inl (InvalidArgument ''stod'')))"

section \<open>Values\<close>

type_synonym options = "string \<rightharpoonup> string"
type_synonym env_lookup = "string \<Rightarrow> string option"

definition LookupValue :: "options \<Rightarrow> string \<Rightarrow> env_lookup \<Rightarrow> string \<Rightarrow> string option" where
  "LookupValue options key lookup_env env_name = (case options key of
     Some v \<Rightarrow> Some v
   | None \<Rightarrow> if env_name = [] then None
       else case lookup_env env_name of Some v \<Rightarrow> if v \<noteq> [] then Some v else None | None \<Rightarrow> None)"

definition ParseBoolValue :: "string \<Rightarrow> string \<Rightarrow> exn + bool" where
  "ParseBoolValue v name =
     (if v \<in> {''1'', ''true'', ''TRUE'', ''yes'', ''YES'', ''on'', ''ON''} then Inr True
      else if v \<in> {''0'', ''false'', ''FALSE'', ''no'', ''NO'', ''off'', ''OFF''} then Inr False
      else Inl (RuntimeError (name @ '' must be a boolean'')))"

text \<open>The common shape of the number parsers: the whole text must be used.\<close>

definition whole_text :: "exn + 'a \<times> string \<Rightarrow> ('a \<Rightarrow> 'b) \<Rightarrow> string \<Rightarrow> exn + 'b" where
  "whole_text r convert message = (case r of
     Inr (x, rest) \<Rightarrow> if rest = [] then Inr (convert x) else Inl (RuntimeError message)
   | Inl _ \<Rightarrow> Inl (RuntimeError message))"

definition ParseI32Value :: "string \<Rightarrow> string \<Rightarrow> exn + int" where
  "ParseI32Value v name = whole_text (stol v) to_i32 (name @ '' must be a signed integer'')"

definition ParseU32Value :: "string \<Rightarrow> string \<Rightarrow> exn + u32" where
  "ParseU32Value v name = whole_text (stoul v) ucast (name @ '' must be an unsigned integer'')"

definition ParseU64Value :: "string \<Rightarrow> string \<Rightarrow> exn + u64" where
  "ParseU64Value v name = whole_text (stoul v) id (name @ '' must be an unsigned integer'')"

definition ParseDoubleValue :: "string \<Rightarrow> string \<Rightarrow> exn + double" where
  "ParseDoubleValue v name = whole_text (stod v) id (name @ '' must be a number'')"

definition ParseOptional ::
  "options \<Rightarrow> env_lookup \<Rightarrow> string \<Rightarrow> string \<Rightarrow> 'a \<Rightarrow> (string \<Rightarrow> string \<Rightarrow> exn + 'a) \<Rightarrow> exn + 'a" where
  "ParseOptional options lookup_env key env_name default_value parse =
     (case LookupValue options key lookup_env env_name of
        Some v \<Rightarrow> parse v (if options key \<noteq> None then ''--'' @ key else env_name)
      | None \<Rightarrow> Inr default_value)"

definition ParseBool :: "options \<Rightarrow> env_lookup \<Rightarrow> string \<Rightarrow> string \<Rightarrow> bool \<Rightarrow> exn + bool" where
  "ParseBool options lookup_env key env_name default_value =
     (case LookupValue options key lookup_env env_name of
        Some v \<Rightarrow> ParseBoolValue v (if options key \<noteq> None then ''--'' @ key else env_name)
      | None \<Rightarrow> Inr default_value)"

section \<open>Arguments\<close>

record parsed_options =
  option_map :: options
  help_seen :: bool
  version_seen :: bool

definition split_equals :: "string \<Rightarrow> (string \<times> string) option" where
  "split_equals a = (if CHR ''='' \<in> set a
     then Some (takeWhile (\<lambda>c. c \<noteq> CHR ''='') a, tl (dropWhile (\<lambda>c. c \<noteq> CHR ''='') a)) else None)"

definition store_option :: "string \<Rightarrow> string \<Rightarrow> parsed_options \<Rightarrow> exn + parsed_options" where
  "store_option key v opts = (if key = [] then Inl (RuntimeError ''empty option name is not allowed'')
     else Inr (opts\<lparr>option_map := (option_map opts)(key \<mapsto> v)\<rparr>))"

fun ParseOptions :: "string list \<Rightarrow> parsed_options \<Rightarrow> exn + parsed_options" where
  "ParseOptions [] opts = Inr opts"
| "ParseOptions (a # as) opts =
     (if a = ''--help'' \<or> a = ''-h'' then ParseOptions as (opts\<lparr>help_seen := True\<rparr>)
      else if a = ''--version'' then ParseOptions as (opts\<lparr>version_seen := True\<rparr>)
      else if take 2 a \<noteq> ''--'' then Inl (RuntimeError (''unexpected positional argument: '' @ a))
      else case split_equals (drop 2 a) of
        Some (key, v) \<Rightarrow> (case store_option key v opts of Inl e \<Rightarrow> Inl e | Inr opts' \<Rightarrow> ParseOptions as opts')
      | None \<Rightarrow> (case as of
          [] \<Rightarrow> Inl (RuntimeError (''missing value for --'' @ drop 2 a))
        | v # as' \<Rightarrow> (case store_option (drop 2 a) v opts of Inl e \<Rightarrow> Inl e | Inr opts' \<Rightarrow> ParseOptions as' opts')))"

section \<open>The configuration\<close>

record runtime_config =
  socket_path :: string
  motor :: motor_config

record parsed_cli =
  show_help :: bool
  show_version :: bool
  config :: runtime_config

definition default_motor_config :: motor_config where
  "default_motor_config = \<lparr>enabled = True, pwm_sysfs_root = ''/sys/class/pwm'', raw_max_speed = 480,
     cmd_raw_min_speed = 50, cmd_raw_max_speed = 250, pwm_hz = 20000, pwm_chip = 0, gpio_chip = 0,
     left_pwm_channel = 0, right_pwm_channel = 1, left_dir_gpio = 5, right_dir_gpio = 6,
     left_inverted = False, right_inverted = False, track_width_m = round_double (28 / 100),
     max_wheel_linear_speed_mps = round_double (1 / 2), left_track_power_percent = Fin 100,
     right_track_power_percent = Fin 100, watchdog_timeout_ms = 5000\<rparr>"

text \<open>One assignment to a field of the configuration, and the assignments in their order.\<close>

definition assign :: "('c \<Rightarrow> exn + 'a) \<Rightarrow> ('a \<Rightarrow> 'c \<Rightarrow> 'c) \<Rightarrow> 'c \<Rightarrow> exn + 'c" where
  "assign read write c = (case read c of Inl e \<Rightarrow> Inl e | Inr v \<Rightarrow> Inr (write v c))"

fun assign_all :: "('c \<Rightarrow> exn + 'c) list \<Rightarrow> 'c \<Rightarrow> exn + 'c" where
  "assign_all [] c = Inr c"
| "assign_all (f # fs) c = (case f c of Inl e \<Rightarrow> Inl e | Inr c' \<Rightarrow> assign_all fs c')"

definition motor_fields :: "options \<Rightarrow> env_lookup \<Rightarrow> (motor_config \<Rightarrow> exn + motor_config) list" where
  "motor_fields options lookup_env =
    (let bool_of = ParseBool options lookup_env;
         i32_of = (\<lambda>key name d. ParseOptional options lookup_env key name d ParseI32Value);
         u32_of = (\<lambda>key name d. ParseOptional options lookup_env key name d ParseU32Value);
         u64_of = (\<lambda>key name d. ParseOptional options lookup_env key name d ParseU64Value);
         double_of = (\<lambda>key name d. ParseOptional options lookup_env key name d ParseDoubleValue) in
     [assign (\<lambda>m. bool_of ''motor-enabled'' ''TXING_MOTOR_ENABLED'' (enabled m)) (\<lambda>v m. m\<lparr>enabled := v\<rparr>),
      assign (\<lambda>m. bool_of ''motor-left-inverted'' ''TXING_MOTOR_LEFT_INVERTED'' (left_inverted m))
        (\<lambda>v m. m\<lparr>left_inverted := v\<rparr>),
      assign (\<lambda>m. bool_of ''motor-right-inverted'' ''TXING_MOTOR_RIGHT_INVERTED'' (right_inverted m))
        (\<lambda>v m. m\<lparr>right_inverted := v\<rparr>),
      assign (\<lambda>m. Inr (case LookupValue options ''motor-pwm-sysfs-root'' lookup_env ''TXING_MOTOR_PWM_SYSFS_ROOT'' of
          Some v \<Rightarrow> v | None \<Rightarrow> pwm_sysfs_root m)) (\<lambda>v m. m\<lparr>pwm_sysfs_root := v\<rparr>),
      assign (\<lambda>m. i32_of ''motor-raw-max-speed'' ''TXING_MOTOR_RAW_MAX_SPEED'' (raw_max_speed m))
        (\<lambda>v m. m\<lparr>raw_max_speed := v\<rparr>),
      assign (\<lambda>m. i32_of ''motor-cmd-raw-min-speed'' ''TXING_MOTOR_CMD_RAW_MIN_SPEED'' (cmd_raw_min_speed m))
        (\<lambda>v m. m\<lparr>cmd_raw_min_speed := v\<rparr>),
      assign (\<lambda>m. i32_of ''motor-cmd-raw-max-speed'' ''TXING_MOTOR_CMD_RAW_MAX_SPEED'' (cmd_raw_max_speed m))
        (\<lambda>v m. m\<lparr>cmd_raw_max_speed := v\<rparr>),
      assign (\<lambda>m. u64_of ''motor-pwm-hz'' ''TXING_MOTOR_PWM_HZ'' (pwm_hz m)) (\<lambda>v m. m\<lparr>pwm_hz := v\<rparr>),
      assign (\<lambda>m. u32_of ''motor-pwm-chip'' ''TXING_MOTOR_PWM_CHIP'' (pwm_chip m)) (\<lambda>v m. m\<lparr>pwm_chip := v\<rparr>),
      assign (\<lambda>m. u32_of ''motor-gpio-chip'' ''TXING_MOTOR_GPIO_CHIP'' (gpio_chip m)) (\<lambda>v m. m\<lparr>gpio_chip := v\<rparr>),
      assign (\<lambda>m. u32_of ''motor-left-pwm-channel'' ''TXING_MOTOR_LEFT_PWM_CHANNEL'' (left_pwm_channel m))
        (\<lambda>v m. m\<lparr>left_pwm_channel := v\<rparr>),
      assign (\<lambda>m. u32_of ''motor-right-pwm-channel'' ''TXING_MOTOR_RIGHT_PWM_CHANNEL'' (right_pwm_channel m))
        (\<lambda>v m. m\<lparr>right_pwm_channel := v\<rparr>),
      assign (\<lambda>m. u32_of ''motor-left-dir-gpio'' ''TXING_MOTOR_LEFT_DIR_GPIO'' (left_dir_gpio m))
        (\<lambda>v m. m\<lparr>left_dir_gpio := v\<rparr>),
      assign (\<lambda>m. u32_of ''motor-right-dir-gpio'' ''TXING_MOTOR_RIGHT_DIR_GPIO'' (right_dir_gpio m))
        (\<lambda>v m. m\<lparr>right_dir_gpio := v\<rparr>),
      assign (\<lambda>m. double_of ''motor-track-width-m'' ''TXING_MOTOR_TRACK_WIDTH_M'' (track_width_m m))
        (\<lambda>v m. m\<lparr>track_width_m := v\<rparr>),
      assign (\<lambda>m. double_of ''motor-max-wheel-linear-speed-mps'' ''TXING_MOTOR_MAX_WHEEL_LINEAR_SPEED_MPS''
          (max_wheel_linear_speed_mps m)) (\<lambda>v m. m\<lparr>max_wheel_linear_speed_mps := v\<rparr>),
      assign (\<lambda>m. double_of ''motor-left-track-power-percent'' ''TXING_MOTOR_LEFT_TRACK_POWER_PERCENT''
          (left_track_power_percent m)) (\<lambda>v m. m\<lparr>left_track_power_percent := v\<rparr>),
      assign (\<lambda>m. double_of ''motor-right-track-power-percent'' ''TXING_MOTOR_RIGHT_TRACK_POWER_PERCENT''
          (right_track_power_percent m)) (\<lambda>v m. m\<lparr>right_track_power_percent := v\<rparr>),
      assign (\<lambda>m. u64_of ''motor-watchdog-timeout-ms'' ''TXING_MOTOR_WATCHDOG_TIMEOUT_MS'' (watchdog_timeout_ms m))
        (\<lambda>v m. m\<lparr>watchdog_timeout_ms := v\<rparr>)])"

text \<open>The default socket path is fixed by the build.\<close>

definition ParseCli :: "string \<Rightarrow> string list \<Rightarrow> env_lookup \<Rightarrow> exn + parsed_cli" where
  "ParseCli default_socket arguments lookup_env = (case arguments of
     [] \<Rightarrow> Inl (RuntimeError ''argv[0] must be present'')
   | _ # as \<Rightarrow> (case ParseOptions as \<lparr>option_map = Map.empty, help_seen = False, version_seen = False\<rparr> of
       Inl e \<Rightarrow> Inl e
     | Inr opts \<Rightarrow>
         let parsed = \<lparr>show_help = help_seen opts, show_version = version_seen opts,
           config = \<lparr>socket_path = default_socket, motor = default_motor_config\<rparr>\<rparr> in
         if help_seen opts \<or> version_seen opts then Inr parsed
         else let socket = (case LookupValue (option_map opts) ''socket-path'' lookup_env
               ''TXING_HARDWARE_WORKER_SOCKET_PATH'' of Some v \<Rightarrow> if v \<noteq> [] then v else default_socket
               | None \<Rightarrow> default_socket) in
           case assign_all (motor_fields (option_map opts) lookup_env) default_motor_config of
             Inl e \<Rightarrow> Inl e
           | Inr m \<Rightarrow> (case ValidateMotorConfig m of Inl e \<Rightarrow> Inl e
               | Inr _ \<Rightarrow> Inr (parsed\<lparr>config := \<lparr>socket_path = socket, motor = m\<rparr>\<rparr>))))"

section \<open>What is returned\<close>

lemma stod_in_range: "stod v = Inr (x, rest) \<Longrightarrow> in_range x"
  by (auto simp: stod_def to_double_def Let_def split: prod.splits option.splits if_splits)

lemma ParseDoubleValue_in_range: "ParseDoubleValue v name = Inr x \<Longrightarrow> in_range x"
  by (auto simp: ParseDoubleValue_def whole_text_def split: sum.splits prod.splits if_splits dest: stod_in_range)

lemma to_i32_bounds: "- (2 ^ 31) \<le> to_i32 x \<and> to_i32 x < 2 ^ 31"
  unfolding to_i32_def using pos_mod_bound [of "2 ^ 32" "x + 2 ^ 31"] pos_mod_sign [of "2 ^ 32" "x + 2 ^ 31"] by simp

lemma ParseI32Value_bounds: "ParseI32Value v name = Inr x \<Longrightarrow> - (2 ^ 31) \<le> x \<and> x < 2 ^ 31"
  using to_i32_bounds by (auto simp: ParseI32Value_def whole_text_def split: sum.splits prod.splits if_splits)

lemma ParseOptional_cases:
  "ParseOptional options lookup_env key name d parse = Inr x \<Longrightarrow> x = d \<or> (\<exists>v n. parse v n = Inr x)"
  by (auto simp: ParseOptional_def split: option.splits)

text \<open>An assignment keeps a property of the configuration when the value it writes does.\<close>

definition assigns_keep :: "('c \<Rightarrow> bool) \<Rightarrow> ('c \<Rightarrow> exn + 'c) \<Rightarrow> bool" where
  "assigns_keep P f \<longleftrightarrow> (\<forall>c c'. P c \<longrightarrow> f c = Inr c' \<longrightarrow> P c')"

lemma assign_all_keep:
  "list_all (assigns_keep P) fs \<Longrightarrow> P c \<Longrightarrow> assign_all fs c = Inr c' \<Longrightarrow> P c'"
  by (induction fs arbitrary: c) (auto simp: assigns_keep_def split: sum.splits)

lemma assign_keep:
  "(\<And>c x. P c \<Longrightarrow> read c = Inr x \<Longrightarrow> P (write x c)) \<Longrightarrow> assigns_keep P (assign read write)"
  by (auto simp: assigns_keep_def assign_def split: sum.splits)

lemma motor_fields_typed: "list_all (assigns_keep config_typed) (motor_fields options lookup_env)"
  unfolding motor_fields_def Let_def list.pred_inject
  by (intro conjI TrueI assign_keep)
    (auto simp: config_typed_def dest!: ParseOptional_cases ParseI32Value_bounds ParseDoubleValue_in_range)

lemma default_typed: "config_typed default_motor_config"
  by (simp add: config_typed_def default_motor_config_def)

lemma isdigit_digit: "(d :: nat) < 10 \<Longrightarrow> isdigit (char_of (48 + d))"
  by (simp add: isdigit_def)

lemma decimal_string_digits: "list_all isdigit (decimal_string n) \<and> decimal_string n \<noteq> []"
  by (induction n rule: decimal_string.induct) (subst (1 2) decimal_string.simps, auto simp: isdigit_digit)

lemma number_snoc: "number (ds @ [c]) = 10 * number ds + (of_char c - 48)"
  by (simp add: number_def)

lemma number_decimal [simp]: "number (decimal_string n) = n"
proof (induction n rule: decimal_string.induct)
  case (1 n)
  then show ?case
    by (cases "n < 10"; subst decimal_string.simps) (simp_all add: number_snoc, simp add: number_def)
qed

lemma digit_not_sign: "isdigit c \<Longrightarrow> \<not> isspace c \<and> c \<noteq> CHR ''-'' \<and> c \<noteq> CHR ''+'' \<and> c \<noteq> CHR ''/''"
  by (auto simp: isdigit_def isspace_def)

lemma parse_integer_decimal [simp]: "parse_integer (decimal_string n) = Some (False, n, [])"
proof -
  obtain c cs where ds: "decimal_string n = c # cs" "isdigit c" "list_all isdigit cs"
    using decimal_string_digits [of n] by (cases "decimal_string n") auto
  then have whole: "takeWhile isdigit cs = cs" "dropWhile isdigit cs = []"
    by (auto simp: list_all_iff takeWhile_eq_all_conv dropWhile_eq_Nil_conv)
  show ?thesis
    using ds digit_not_sign [OF ds(2)] number_decimal [of n] by (simp add: whole parse_integer_def parse_sign_def Let_def)
qed

lemma stoul_decimal: "n < 2 ^ 64 \<Longrightarrow> stoul (decimal_string n) = Inr (of_nat n, [])"
  by (simp add: stoul_def)

lemma path_filename_join:
  assumes "\<forall>x \<in> set n. x \<noteq> CHR ''/''"
  shows "path_filename (path_join p n) = n"
proof -
  have "takeWhile (\<lambda>c. c \<noteq> CHR ''/'') (rev n) = rev n"
    using assms by (subst takeWhile_eq_all_conv) simp
  then have "rev (takeWhile (\<lambda>c. c \<noteq> CHR ''/'') (rev n)) = n" by (simp only: rev_rev_ident)
  then show ?thesis
    using assms by (cases p rule: rev_cases) (simp_all add: path_filename_def path_join_def takeWhile_append)
qed

section \<open>Properties\<close>

text \<open>
  C28. Every configuration that \<^verbatim>\<open>ParseCli\<close> returns has values of the field types, whatever the
  arguments and the environment hold (numbers that wrap, infinities, NaN included), and unless help or
  the version was asked for it is valid: the ranges are ordered, the channels and lines differ, and the
  geometry and powers are finite and positive.
\<close>

theorem parsed_config_typed:
  assumes "ParseCli default_socket arguments lookup_env = Inr parsed"
  shows "config_typed (motor (config parsed)) \<and>
     (show_help parsed \<or> show_version parsed \<or> valid_config (motor (config parsed)))"
proof -
  have "config_typed m \<and> (ValidateMotorConfig m = Inr u \<longrightarrow> valid_config m)"
    if "assign_all (motor_fields options lookup_env) default_motor_config = Inr m" for options m u
  proof -
    have t: "config_typed m"
      by (rule assign_all_keep [OF motor_fields_typed default_typed that])
    then show ?thesis using ValidateMotorConfig_iff by auto
  qed
  then show ?thesis
    using assms default_typed
    by (auto simp: ParseCli_def Let_def split: list.splits sum.splits if_splits)
qed

lemma sample_stod: "stod ''2'' = Inr (Fin 2, [])"
proof -
  have m: "parse_mantissa 10 CHR ''e'' 10 ''2'' = Some (2, [])" by code_simp
  have "rnd 2 = 2" using binary64.int_exact [of 2] by simp
  then have "\<not> erange 2" "round_double 2 = Fin 2" by (simp_all add: erange_def round_double_def)
  with m show ?thesis
    by (simp add: stod_def parse_sign_def isspace_def has_prefix_def tolower_def to_double_def signed_double_def Let_def)
qed

lemma sample_options:
  "ParseOptions [''--motor-track-width-m=2'', ''--motor-max-wheel-linear-speed-mps=2'']
     \<lparr>option_map = Map.empty, help_seen = False, version_seen = False\<rparr> =
   Inr \<lparr>option_map = [''motor-track-width-m'' \<mapsto> ''2'', ''motor-max-wheel-linear-speed-mps'' \<mapsto> ''2''],
     help_seen = False, version_seen = False\<rparr>"
  by (simp add: split_equals_def store_option_def)

lemma sample_assign:
  "assign_all (motor_fields [''motor-track-width-m'' \<mapsto> ''2'', ''motor-max-wheel-linear-speed-mps'' \<mapsto> ''2''] (\<lambda>_. None))
     default_motor_config =
   Inr (default_motor_config\<lparr>track_width_m := Fin 2, max_wheel_linear_speed_mps := Fin 2\<rparr>)"
  unfolding motor_fields_def Let_def
  by (simp add: assign_def ParseBool_def ParseOptional_def LookupValue_def ParseDoubleValue_def whole_text_def sample_stod)

theorem parsed_config_typed_witness:
  "\<exists>parsed. ParseCli ''/run/hw.sock'' [''hw'', ''--motor-track-width-m=2'', ''--motor-max-wheel-linear-speed-mps=2'']
       (\<lambda>_. None) = Inr parsed \<and> config_typed (motor (config parsed)) \<and> valid_config (motor (config parsed))"
proof -
  let ?m = "default_motor_config\<lparr>track_width_m := Fin 2, max_wheel_linear_speed_mps := Fin 2\<rparr>"
  let ?p = "\<lparr>show_help = False, show_version = False, config = \<lparr>socket_path = ''/run/hw.sock'', motor = ?m\<rparr>\<rparr>"
  have "config_typed ?m" "valid_config ?m"
    by (simp_all add: config_typed_def valid_config_def default_motor_config_def)
  then have "ValidateMotorConfig ?m = Inr ()" using ValidateMotorConfig_iff by blast
  then have run: "ParseCli ''/run/hw.sock'' [''hw'', ''--motor-track-width-m=2'', ''--motor-max-wheel-linear-speed-mps=2'']
       (\<lambda>_. None) = Inr ?p"
    by (simp only: ParseCli_def list.case sample_options sum.case Let_def parsed_options.simps sample_assign)
      (simp add: LookupValue_def)
  from parsed_config_typed [OF run] run show ?thesis by auto
qed

text \<open>
  Round trips of numbers and texts: a number printed by \<^verbatim>\<open>std::to_string\<close> is read back by the option
  parsers, and the channel number that is read from the path of a PWM channel is the configured one, so
  that closing unexports the channel that was exported.
\<close>

theorem numbers_round_trip:
  "ParseU32Value (decimal_string (unat a)) name = Inr a \<and>
   ParseU64Value (decimal_string (unat b)) name = Inr b \<and>
   ChannelNumberFromPath (channel_path c side) = Inr (pwm_channel c side)"
proof -
  have u32: "unat (w :: u32) < 2 ^ 64" for w using unat_bounds(3) [of w] by simp
  have u64: "unat b < 2 ^ 64" using unsigned_less [of b, where 'a = nat] by simp
  have widen: "ucast (ucast w :: u64) = w" for w :: u32
    using unat_bounds(3) [of w] by (intro word_unat_eq_iff [THEN iffD2]) (simp add: unat_ucast_mod)
  let ?name = "''pwm'' @ decimal_string (unat (pwm_channel c side))"
  have "\<forall>x \<in> set ?name. x \<noteq> CHR ''/''"
    using decimal_string_digits [of "unat (pwm_channel c side)"] digit_not_sign by (auto simp: list_all_iff)
  then have "path_filename (path_join p ?name) = ?name" for p by (rule path_filename_join)
  then show ?thesis
    using stoul_decimal [OF u32] stoul_decimal [OF u64]
    by (simp add: ParseU32Value_def ParseU64Value_def whole_text_def widen ChannelNumberFromPath_def channel_path_def Let_def)
qed

end
