(* ===== verification/IntelHex.thy ===== *)
theory IntelHex
  imports Prelude
begin

text \<open>
  The Intel HEX writer that the three factory-data scripts share
  (\<^verbatim>\<open>redcon_nve.py\<close> and the two \<^verbatim>\<open>thread_factory.py\<close>), a decoder of the format as its specification, and
  the proof that decoding a written file gives the bytes at their addresses.
\<close>

section \<open>The writer\<close>

text \<open>The exceptions that the scripts raise; of a message, the part that does not depend on the input.\<close>

datatype factory_error = ValueError string | OverflowError

definition hex_digit :: "nat \<Rightarrow> char" where
  "hex_digit n = ''0123456789ABCDEF'' ! n"

definition hex_byte :: "u8 \<Rightarrow> string" where
  "hex_byte b = [hex_digit (unat b div 16), hex_digit (unat b mod 16)]"

definition hex_text :: "bytes \<Rightarrow> string" where
  "hex_text bs = concat (map hex_byte bs)"

definition intel_hex_checksum :: "bytes \<Rightarrow> u8" where
  "intel_hex_checksum body = word_of_int (- sum_list (map uint body))"

definition record_body :: "nat \<Rightarrow> nat \<Rightarrow> bytes \<Rightarrow> bytes" where
  "record_body address record_type bs =
     [of_nat (length bs), of_nat (address div 256), of_nat (address mod 256), of_nat record_type] @ bs"

definition intel_hex_record :: "nat \<Rightarrow> nat \<Rightarrow> bytes \<Rightarrow> factory_error + string" where
  "intel_hex_record address record_type bs =
     (if address > 0xFFFF then Inl (ValueError ''Intel HEX record address out of range'')
      else if length bs > 0xFF then Inl (ValueError ''Intel HEX record is too large'')
      else let body = record_body address record_type bs in
        Inr (CHR '':'' # hex_text body @ hex_byte (intel_hex_checksum body)))"

text \<open>\<^verbatim>\<open>high.to_bytes(2, "big")\<close> in an extended address record.\<close>

definition extended_address_record :: "nat \<Rightarrow> factory_error + string" where
  "extended_address_record high =
     (if high > 0xFFFF then Inl OverflowError
      else intel_hex_record 0 4 [of_nat (high div 256), of_nat (high mod 256)])"

definition chunk_size :: "nat \<Rightarrow> bytes \<Rightarrow> nat \<Rightarrow> nat" where
  "chunk_size address bs offset = min 16 (min (length bs - offset) (0x10000 - (address + offset) mod 0x10000))"

text \<open>The records of one turn of the loop.\<close>

definition chunk_records :: "nat \<Rightarrow> bytes \<Rightarrow> nat \<Rightarrow> nat option \<Rightarrow> factory_error + string list" where
  "chunk_records address bs offset current_high =
     (let high = (address + offset) div 0x10000; low = (address + offset) mod 0x10000 in
      case (if Some high \<noteq> current_high
            then map_sum id (\<lambda>l. [l]) (extended_address_record high) else Inr []) of
        Inl e \<Rightarrow> Inl e
      | Inr lines \<Rightarrow> (case intel_hex_record low 0 (take (chunk_size address bs offset) (drop offset bs)) of
          Inl e \<Rightarrow> Inl e | Inr line \<Rightarrow> Inr (lines @ [line])))"

function hex_lines :: "nat \<Rightarrow> bytes \<Rightarrow> nat \<Rightarrow> nat option \<Rightarrow> factory_error + string list" where
  "hex_lines address bs offset current_high =
     (if offset < length bs
      then case chunk_records address bs offset current_high of Inl e \<Rightarrow> Inl e
        | Inr lines \<Rightarrow> map_sum id (append lines)
            (hex_lines address bs (offset + chunk_size address bs offset) (Some ((address + offset) div 0x10000)))
      else map_sum id (\<lambda>l. [l]) (intel_hex_record 0 1 []))"
  by pat_completeness auto

lemma chunk_size_pos: "offset < length bs \<Longrightarrow> 0 < chunk_size address bs offset"
  by (simp add: chunk_size_def)

termination hex_lines
  by (relation "measure (\<lambda>(address, bs, offset, current). length bs - offset)")
    (auto simp: chunk_size_pos diff_less_mono2)

declare hex_lines.simps [simp del]

definition build_intel_hex :: "nat \<Rightarrow> bytes \<Rightarrow> factory_error + string" where
  "build_intel_hex address bs =
     map_sum id (\<lambda>lines. concat (map (\<lambda>l. l @ [CHR 0x0A]) lines)) (hex_lines address bs 0 None)"

section \<open>The format\<close>

fun unhex :: "string \<Rightarrow> bytes option" where
  "unhex [] = Some []"
| "unhex [c] = None"
| "unhex (c # d # s) = (case (hex_value c, hex_value d, unhex s) of
     (Some h, Some l, Some bs) \<Rightarrow> Some (of_nat (16 * h + l) # bs) | _ \<Rightarrow> None)"

text \<open>A record: its bytes sum to zero, and it holds as many data bytes as it says.\<close>

definition decode_record :: "string \<Rightarrow> (nat \<times> nat \<times> bytes) option" where
  "decode_record s = (case s of c # t \<Rightarrow> if c \<noteq> CHR '':'' then None
     else (case unhex t of
       Some (n # hi # lo # ty # rest) \<Rightarrow>
         if sum_list (n # hi # lo # ty # rest) = 0 \<and> length rest = Suc (unat n)
         then Some (256 * unat hi + unat lo, unat ty, butlast rest) else None
     | _ \<Rightarrow> None)
   | [] \<Rightarrow> None)"

fun decode_lines :: "nat \<Rightarrow> string list \<Rightarrow> (nat \<times> u8) list option" where
  "decode_lines upper [] = None"
| "decode_lines upper (l # ls) = (case decode_record l of
     None \<Rightarrow> None
   | Some (a, ty, bs) \<Rightarrow>
       if ty = 0 then map_option (append (zip [upper * 0x10000 + a ..< upper * 0x10000 + a + length bs] bs))
         (decode_lines upper ls)
       else if ty = 4 then (case bs of [hi, lo] \<Rightarrow> decode_lines (256 * unat hi + unat lo) ls | _ \<Rightarrow> None)
       else if ty = 1 \<and> ls = [] then Some [] else None)"

fun split_lines :: "string \<Rightarrow> string list" where
  "split_lines [] = []"
| "split_lines (c # s) = (if c = CHR 0x0A then [] # split_lines s
     else case split_lines s of [] \<Rightarrow> [[c]] | l # ls \<Rightarrow> (c # l) # ls)"

definition decode_intel_hex :: "string \<Rightarrow> (nat \<times> u8) list option" where
  "decode_intel_hex s = decode_lines 0 (split_lines s)"

section \<open>Round trip\<close>

lemma hex_value_digit: "n < 16 \<Longrightarrow> hex_value (hex_digit n) = Some n \<and> hex_digit n \<noteq> CHR 0x0A"
proof -
  assume "n < 16"
  moreover have "list_all (\<lambda>n. hex_value (hex_digit n) = Some n \<and> hex_digit n \<noteq> CHR 0x0A) [0..<16]"
    by (simp add: upt_rec hex_digit_def hex_value_def Let_def)
  ultimately show ?thesis by (simp add: list_all_iff)
qed

lemma unhex_hex_byte: "unhex (hex_byte b @ s) = map_option (Cons b) (unhex s)"
proof -
  have "unat b div 16 < 16" "unat b mod 16 < 16" using unat_bounds(1) [of b] by (simp_all add: less_mult_imp_div_less)
  moreover have "of_nat (16 * (unat b div 16) + unat b mod 16) = b" by simp
  ultimately show ?thesis
    by (simp add: hex_byte_def hex_value_digit del: of_nat_add of_nat_mult split: option.split)
qed

lemma unhex_hex_text: "unhex (hex_text bs @ s) = map_option (append bs) (unhex s)"
proof (induction bs)
  case (Cons b bs)
  then show ?case by (simp add: hex_text_def unhex_hex_byte option.map_comp comp_def)
qed (simp add: hex_text_def option.map_id0 [unfolded id_def])

lemma hex_text_no_newline: "CHR 0x0A \<notin> set (hex_text bs)"
proof -
  have "CHR 0x0A \<notin> set (hex_byte b)" for b
    using hex_value_digit [of "unat b div 16"] hex_value_digit [of "unat b mod 16"] unat_bounds(1) [of b]
    by (auto simp: hex_byte_def less_mult_imp_div_less)
  then show ?thesis by (auto simp: hex_text_def)
qed

lemma checksum_zero: "sum_list body + intel_hex_checksum body = 0"
proof -
  have "(word_of_int (sum_list (map uint body)) :: u8) = sum_list body"
    by (induction body) (simp_all flip: wi_hom_add)
  then show ?thesis by (simp add: intel_hex_checksum_def flip: wi_hom_neg)
qed

lemma record_decodes:
  assumes "address \<le> 0xFFFF" "record_type < 256" "length bs \<le> 0xFF"
  obtains s where "intel_hex_record address record_type bs = Inr s" "CHR 0x0A \<notin> set s"
    "decode_record s = Some (address, record_type, bs)"
proof -
  let ?body = "record_body address record_type bs"
  let ?s = "CHR '':'' # hex_text ?body @ hex_byte (intel_hex_checksum ?body)"
  have "unhex (hex_text ?body @ hex_byte (intel_hex_checksum ?body)) = Some (?body @ [intel_hex_checksum ?body])"
    using unhex_hex_byte [of _ "[]"] by (simp add: unhex_hex_text)
  then have dec: "decode_record ?s = Some (address, record_type, bs)"
    using assms checksum_zero [of ?body]
    by (simp add: decode_record_def record_body_def unat_of_nat add.assoc)
  have "CHR 0x0A \<notin> set ?s"
    using hex_text_no_newline [of ?body] hex_text_no_newline [of "[intel_hex_checksum ?body]"] by (simp add: hex_text_def)
  with dec assms that show thesis by (simp add: intel_hex_record_def Let_def)
qed

lemma split_lines_concat:
  "list_all (\<lambda>l. CHR 0x0A \<notin> set l) ls \<Longrightarrow> split_lines (concat (map (\<lambda>l. l @ [CHR 0x0A]) ls)) = ls"
proof (induction ls)
  case (Cons l ls)
  have "split_lines (l @ CHR 0x0A # s) = l # split_lines s" if "CHR 0x0A \<notin> set l" for l s
    using that by (induction l) auto
  with Cons show ?case by simp
qed simp

lemma zip_chunk:
  assumes "offset + n \<le> length bs"
  shows "zip [address + offset ..< address + offset + n] (take n (drop offset bs)) @
     zip [address + (offset + n) ..< address + length bs] (drop (offset + n) bs) =
     zip [address + offset ..< address + length bs] (drop offset bs)"
proof -
  let ?A = "[address + offset ..< address + offset + n]" and ?B = "[address + (offset + n) ..< address + length bs]"
  let ?T = "take n (drop offset bs)" and ?D = "drop (offset + n) bs"
  have "[address + offset ..< address + length bs] = ?A @ ?B"
    using assms upt_add_eq_append [of "address + offset" "address + offset + n" "length bs - (offset + n)"]
    by (simp add: add.assoc)
  moreover have "drop offset bs = ?T @ ?D" by (metis append_take_drop_id drop_drop add.commute)
  moreover have "zip (?A @ ?B) (?T @ ?D) = zip ?A ?T @ zip ?B ?D" by (rule zip_append) (use assms in simp)
  ultimately show ?thesis by metis
qed

text \<open>The loop, from any offset on: what it writes decodes to the rest of the bytes.\<close>

lemma hex_lines_decode:
  assumes "address + length bs \<le> 2 ^ 32" "offset \<le> length bs"
  shows "\<exists>ls. hex_lines address bs offset current = Inr ls \<and> list_all (\<lambda>l. CHR 0x0A \<notin> set l) ls \<and>
     (\<forall>upper. (\<forall>h. current = Some h \<longrightarrow> upper = h) \<longrightarrow>
        decode_lines upper ls = Some (zip [address + offset ..< address + length bs] (drop offset bs)))"
  using assms
proof (induction address bs offset current rule: hex_lines.induct)
  case (1 address bs offset current)
  show ?case
  proof (cases "offset < length bs")
    case False
    obtain s where "intel_hex_record 0 1 [] = Inr s" "CHR 0x0A \<notin> set s" "decode_record s = Some (0, 1, [])"
      by (rule record_decodes [of 0 1 "[]"]) simp_all
    moreover from this(1) False have "hex_lines address bs offset current = Inr [s]" by (subst hex_lines.simps) simp
    ultimately show ?thesis using False by (intro exI [of _ "[s]"]) simp
  next
    case True
    let ?n = "chunk_size address bs offset" and ?high = "(address + offset) div 0x10000"
      and ?low = "(address + offset) mod 0x10000"
    let ?chunk = "take ?n (drop offset bs)"
    have n: "0 < ?n" "offset + ?n \<le> length bs" "length ?chunk = ?n" "?n \<le> 16"
      using True chunk_size_pos [OF True] by (auto simp: chunk_size_def)
    have high: "?high \<le> 0xFFFF" using "1.prems"(1) True by (simp add: less_mult_imp_div_less)
    obtain d where d: "intel_hex_record ?low 0 ?chunk = Inr d" "CHR 0x0A \<notin> set d"
        "decode_record d = Some (?low, 0, ?chunk)"
      by (rule record_decodes [of ?low 0 ?chunk]) (use n in auto)
    obtain e where e: "extended_address_record ?high = Inr e" "CHR 0x0A \<notin> set e"
        "decode_record e = Some (0, 4, [of_nat (?high div 256), of_nat (?high mod 256)])"
      by (rule record_decodes [of 0 4 "[of_nat (?high div 256), of_nat (?high mod 256)]"])
        (use high in \<open>auto simp: extended_address_record_def\<close>)
    have rejoin: "256 * unat (of_nat (?high div 256) :: u8) + unat (of_nat (?high mod 256) :: u8) = ?high"
      using high by (simp add: unat_of_nat)
    let ?lines = "(if Some ?high \<noteq> current then [e] else []) @ [d]"
    have chunk: "chunk_records address bs offset current = Inr ?lines"
      using d(1) e(1) by (simp add: chunk_records_def Let_def)
    obtain ls where ls: "hex_lines address bs (offset + ?n) (Some ?high) = Inr ls"
        "list_all (\<lambda>l. CHR 0x0A \<notin> set l) ls"
        "decode_lines ?high ls = Some (zip [address + (offset + ?n) ..< address + length bs] (drop (offset + ?n) bs))"
      using "1.IH" [OF True chunk "1.prems"(1) n(2)] by blast
    have run: "hex_lines address bs offset current = Inr (?lines @ ls)"
      by (subst hex_lines.simps) (simp only: True chunk ls(1) if_True sum.case map_sum.simps id_apply)
    have start: "?high * 0x10000 + ?low = address + offset" by (rule div_mult_mod_eq)
    have data: "decode_lines ?high (d # ls) = Some (zip [address + offset ..< address + length bs] (drop offset bs))"
      using zip_chunk [OF n(2), of address] n(2) by (simp add: d(3) ls(3) start min_absorb2)
    have "decode_lines upper (?lines @ ls) = decode_lines ?high (d # ls)"
      if "\<forall>h. current = Some h \<longrightarrow> upper = h" for upper
      using that e(3) rejoin by (auto simp del: decode_lines.simps(2) simp: decode_lines.simps(2) [of _ e])
    with run data d(2) e(2) ls(2) show ?thesis by (intro exI [of _ "?lines @ ls"]) (simp del: decode_lines.simps)
  qed
qed

lemma build_intel_hex_decodes:
  assumes "address + length bs \<le> 2 ^ 32"
  obtains s where "build_intel_hex address bs = Inr s"
    "decode_intel_hex s = Some (zip [address ..< address + length bs] bs)"
proof -
  obtain ls where "hex_lines address bs 0 None = Inr ls" "list_all (\<lambda>l. CHR 0x0A \<notin> set l) ls"
      "decode_lines 0 ls = Some (zip [address ..< address + length bs] bs)"
    using hex_lines_decode [OF assms, of 0 None] by auto
  then show thesis
    using that by (simp add: build_intel_hex_def decode_intel_hex_def split_lines_concat)
qed

end
