(* ===== verification/Factory.thy ===== *)
theory Factory
  imports IntelHex Redcon ThreadDevice PowerSi
begin

text \<open>
  The factory-data scripts, and what the firmware reads of what they write: \<^verbatim>\<open>redcon_nve.py\<close> (TXR1, for
  the Bluetooth devices) and the two \<^verbatim>\<open>thread_factory.py\<close> (TXN1 for the nRF54LM20A, TXT1 for the MG24).
\<close>

section \<open>Python texts and bytes\<close>

text \<open>A \<^verbatim>\<open>str\<close> is a list of code points.\<close>

type_synonym py_str = "nat list"

definition py_isspace :: "nat \<Rightarrow> bool" where
  "py_isspace c \<longleftrightarrow> (9 \<le> c \<and> c \<le> 13) \<or> (28 \<le> c \<and> c \<le> 32) \<or> c \<in> {133, 160, 5760, 8232, 8233, 8239, 8287, 12288} \<or>
     (8192 \<le> c \<and> c \<le> 8202)"

definition py_strip :: "py_str \<Rightarrow> py_str" where
  "py_strip s = rev (dropWhile py_isspace (rev (dropWhile py_isspace s)))"

definition is_ascii :: "py_str \<Rightarrow> bool" where
  "is_ascii s \<longleftrightarrow> list_all (\<lambda>c. c < 128) s"

definition encode_ascii :: "py_str \<Rightarrow> bytes" where
  "encode_ascii s = map of_nat s"

text \<open>\<^verbatim>\<open>struct.pack\<close> of little-endian words.\<close>

definition le16 :: "u16 \<Rightarrow> bytes" where
  "le16 w = [ucast w, ucast (drop_bit 8 w)]"

definition le32 :: "u32 \<Rightarrow> bytes" where
  "le32 w = [ucast w, ucast (drop_bit 8 w), ucast (drop_bit 16 w), ucast (drop_bit 24 w)]"

text \<open>\<^verbatim>\<open>binascii.crc32\<close>: the reflected polynomial 0xEDB88320, initial and final complement.\<close>

definition crc_bit :: "u32 \<Rightarrow> u32" where
  "crc_bit c = (if c AND 1 \<noteq> 0 then drop_bit 1 c XOR 0xEDB88320 else drop_bit 1 c)"

definition crc_byte :: "u32 \<Rightarrow> u8 \<Rightarrow> u32" where
  "crc_byte c b = (crc_bit ^^ 8) (c XOR ucast b)"

definition crc32 :: "bytes \<Rightarrow> u32" where
  "crc32 bs = NOT (foldl crc_byte 0xFFFFFFFF bs)"

section \<open>TXR1 records\<close>

definition validate_device_name :: "py_str \<Rightarrow> factory_error + py_str" where
  "validate_device_name v =
     (let device_name = py_strip v in
      if device_name = [] then Inl (ValueError ''device name must not be empty'')
      else if \<not> is_ascii device_name then Inl (ValueError ''device name must be ASCII'')
      else if length device_name > 26 then Inl (ValueError ''device name is too long'')
      else if list_ex (\<lambda>c. c < 0x21 \<or> c > 0x7E) device_name
      then Inl (ValueError ''device name may contain only printable non-space ASCII'')
      else Inr device_name)"

definition txr1_without_crc :: "bytes \<Rightarrow> bytes" where
  "txr1_without_crc encoded =
     REDCON_FACTORY_DATA_MAGIC @ [1, of_nat (length encoded)] @ encoded @ replicate (26 - length encoded) 0"

definition redcon_build_factory_data :: "py_str \<Rightarrow> factory_error + bytes" where
  "redcon_build_factory_data v = (case validate_device_name v of
     Inl e \<Rightarrow> Inl e
   | Inr normalized \<Rightarrow>
       let without_crc = txr1_without_crc (encode_ascii normalized) in
       Inr (without_crc @ le32 (crc32 without_crc)))"

definition redcon_write_hex :: "py_str \<Rightarrow> nat \<Rightarrow> factory_error + string" where
  "redcon_write_hex v address = (case redcon_build_factory_data v of
     Inl e \<Rightarrow> Inl e | Inr payload \<Rightarrow> build_intel_hex address payload)"

section \<open>TXN1 and TXT1 records\<close>

record factory_record =
  record_thing_name :: py_str
  record_dataset_tlvs :: bytes
  record_coap_port :: int

definition validate_thing_name :: "py_str \<Rightarrow> factory_error + py_str" where
  "validate_thing_name v =
     (let thing_name = py_strip v in
      if thing_name = [] then Inl (ValueError ''Thing name must not be empty'')
      else if \<not> is_ascii thing_name then Inl (ValueError ''Thing name must be ASCII'')
      else if length thing_name > 64 then Inl (ValueError ''Thing name is too long'')
      else if \<not> list_all (\<lambda>c. 0x21 \<le> c \<and> c \<le> 0x7E) thing_name
      then Inl (ValueError ''Thing name may contain only printable non-space ASCII'')
      else Inr thing_name)"

definition validate_dataset_tlvs :: "bytes \<Rightarrow> factory_error + bytes" where
  "validate_dataset_tlvs tlvs =
     (if tlvs = [] then Inl (ValueError ''Thread Active Operational Dataset TLVs must not be empty'')
      else if length tlvs > 254 then Inl (ValueError ''Thread Active Operational Dataset TLVs are too large'')
      else Inr tlvs)"

definition is_hex :: "nat \<Rightarrow> bool" where
  "is_hex c \<longleftrightarrow> (48 \<le> c \<and> c \<le> 57) \<or> (65 \<le> c \<and> c \<le> 70) \<or> (97 \<le> c \<and> c \<le> 102)"

definition parse_dataset_tlvs_hex :: "py_str \<Rightarrow> factory_error + bytes" where
  "parse_dataset_tlvs_hex v =
     (let joined = filter (\<lambda>c. \<not> py_isspace c) v;
          compact = (if take 2 joined = [48, 120] \<or> take 2 joined = [48, 88] then drop 2 joined else joined) in
      if compact = [] then Inl (ValueError ''Thread Active Operational Dataset TLVs must not be empty'')
      else if odd (length compact)
      then Inl (ValueError ''Thread Active Operational Dataset TLVs hex must contain whole bytes'')
      else if \<not> list_all is_hex compact then Inl (ValueError ''Thread Active Operational Dataset TLVs must be hex'')
      else case unhex (map char_of compact) of
        Some tlvs \<Rightarrow> validate_dataset_tlvs tlvs
      | None \<Rightarrow> Inl (ValueError ''non-hexadecimal number found in fromhex() arg''))"

definition validate_port :: "int \<Rightarrow> factory_error + int" where
  "validate_port v = (if v < 1 \<or> v > 0xFFFF then Inl (ValueError ''CoAP port out of range'') else Inr v)"

text \<open>Header, name and dataset, then the CRC of all of them.\<close>

definition thread_header :: "bytes \<Rightarrow> nat \<Rightarrow> nat \<Rightarrow> int \<Rightarrow> bytes" where
  "thread_header magic name_len dataset_len port =
     magic @ [1, of_nat name_len] @ le16 (of_nat dataset_len) @ le16 (of_int port)"

definition thread_without_crc :: "bytes \<Rightarrow> bytes \<Rightarrow> bytes \<Rightarrow> int \<Rightarrow> bytes" where
  "thread_without_crc magic name_bytes tlvs port =
     thread_header magic (length name_bytes) (length tlvs) port @ name_bytes @ tlvs"

definition checked_size :: "bytes \<Rightarrow> factory_error + bytes" where
  "checked_size payload =
     (if length payload > 8 * 1024 then Inl (ValueError ''factory record is too large'') else Inr payload)"

definition lm_build_factory_data :: "py_str \<Rightarrow> bytes \<Rightarrow> int \<Rightarrow> factory_error + bytes" where
  "lm_build_factory_data v tlvs port = (case validate_thing_name v of
     Inl e \<Rightarrow> Inl e
   | Inr normalized \<Rightarrow> (case validate_dataset_tlvs tlvs of
       Inl e \<Rightarrow> Inl e
     | Inr dataset \<Rightarrow> (case validate_port port of
         Inl e \<Rightarrow> Inl e
       | Inr p \<Rightarrow>
           let without_crc = thread_without_crc TXN1_MAGIC (encode_ascii normalized) dataset p in
           checked_size (without_crc @ le32 (crc32 without_crc)))))"

definition si_build_factory_data :: "py_str \<Rightarrow> bytes \<Rightarrow> int \<Rightarrow> factory_error + bytes" where
  "si_build_factory_data v tlvs port = (case validate_thing_name v of
     Inl e \<Rightarrow> Inl e
   | Inr normalized \<Rightarrow> (case validate_port port of
       Inl e \<Rightarrow> Inl e
     | Inr _ \<Rightarrow>
         if tlvs = [] then Inl (ValueError ''Thread Active Operational Dataset TLVs must not be empty'')
         else if length tlvs > 254 then Inl (ValueError ''Thread Active Operational Dataset TLVs are too large'')
         else let without_crc = thread_without_crc TXT1_MAGIC (encode_ascii normalized) tlvs port in
           checked_size (without_crc @ le32 (crc32 without_crc))))"

definition unpack16 :: "bytes \<Rightarrow> nat \<Rightarrow> nat" where
  "unpack16 bs i = unat (bs ! i) + 256 * unat (bs ! (i + 1))"

definition unpack32 :: "bytes \<Rightarrow> nat \<Rightarrow> u32" where
  "unpack32 bs i = ucast (bs ! i) OR push_bit 8 (ucast (bs ! (i + 1))) OR push_bit 16 (ucast (bs ! (i + 2))) OR
     push_bit 24 (ucast (bs ! (i + 3)))"

definition parse_factory_data :: "bytes \<Rightarrow> factory_error + factory_record" where
  "parse_factory_data payload =
     (let minimum_size = 14 in
      if length payload < minimum_size then Inl (ValueError ''TXN1 factory record is truncated'')
      else if take 4 payload \<noteq> TXN1_MAGIC then Inl (ValueError ''unexpected factory record magic'')
      else if payload ! 4 \<noteq> 1 then Inl (ValueError ''unsupported TXN1 factory record version'')
      else
        let name_len = unat (payload ! 5); dataset_len = unpack16 payload 6; port = int (unpack16 payload 8);
            record_size = minimum_size + name_len + dataset_len;
            body = take (length payload - 4) payload in
        if length payload \<noteq> record_size then Inl (ValueError ''TXN1 factory record length mismatch'')
        else if unpack32 payload (record_size - 4) \<noteq> crc32 body
        then Inl (ValueError ''TXN1 factory record CRC32 mismatch'')
        else
          let thing_name = map unat (take name_len (drop 10 payload)) in
          if \<not> is_ascii thing_name then Inl (ValueError ''TXN1 Thing name must be ASCII'')
          else case validate_thing_name thing_name of
            Inl e \<Rightarrow> Inl e
          | Inr name \<Rightarrow> (case validate_dataset_tlvs (drop (10 + name_len) body) of
              Inl e \<Rightarrow> Inl e
            | Inr dataset \<Rightarrow> (case validate_port port of
                Inl e \<Rightarrow> Inl e
              | Inr p \<Rightarrow> Inr \<lparr>record_thing_name = name, record_dataset_tlvs = dataset, record_coap_port = p\<rparr>)))"

definition validate_factory_write :: "nat \<Rightarrow> nat \<Rightarrow> factory_error + unit" where
  "validate_factory_write address payload_size =
     (if address < 0x001F4000 then Inl (ValueError ''factory address precedes factory partition'')
      else if int payload_size > int (0x001F4000 + 8 * 1024) - int address
      then Inl (ValueError ''factory record exceeds the 8 KiB factory partition'')
      else Inr ())"

definition lm_write_hex :: "py_str \<Rightarrow> bytes \<Rightarrow> nat \<Rightarrow> int \<Rightarrow> factory_error + string" where
  "lm_write_hex v tlvs address port = (case lm_build_factory_data v tlvs port of
     Inl e \<Rightarrow> Inl e
   | Inr payload \<Rightarrow> (case validate_factory_write address (length payload) of
       Inl e \<Rightarrow> Inl e | Inr _ \<Rightarrow> build_intel_hex address payload))"

definition si_write_hex :: "py_str \<Rightarrow> bytes \<Rightarrow> nat \<Rightarrow> int \<Rightarrow> factory_error + string" where
  "si_write_hex v tlvs address port = (case si_build_factory_data v tlvs port of
     Inl e \<Rightarrow> Inl e | Inr payload \<Rightarrow> build_intel_hex address payload)"

section \<open>Words and bytes\<close>

lemma le16_join: "(ucast (ucast w :: u8) :: u16) OR push_bit 8 (ucast (ucast (drop_bit 8 w) :: u8)) = w"
  by (rule bit_word_eqI) (auto simp: bit_simps)

lemma le32_join:
  "(ucast (ucast w :: u8) :: u32) OR push_bit 8 (ucast (ucast (drop_bit 8 w) :: u8)) OR
   push_bit 16 (ucast (ucast (drop_bit 16 w) :: u8)) OR push_bit 24 (ucast (ucast (drop_bit 24 w) :: u8)) = w"
proof (rule bit_word_eqI, goal_cases)
  case (1 n)
  then show ?case by (cases "24 \<le> n"; cases "16 \<le> n") (auto simp: bit_simps)
qed

lemma length_le [simp]: "length (le16 w) = 2" "length (le32 v) = 4"
  by (simp_all add: le16_def le32_def)

lemma unpack16_le16: "unat ((ucast w :: u8)) + 256 * unat (ucast (drop_bit 8 w) :: u8) = unat (w :: u16)"
proof -
  have "unat (w div 256) = unat w div 256" by (simp add: unat_div)
  moreover have "unat w div 256 < 256" using unat_bounds(2) [of w] by (simp add: less_mult_imp_div_less)
  ultimately show ?thesis by (simp add: unat_ucast_mod drop_bit_eq_div)
qed

lemma strip_no_space: "list_all (\<lambda>c. \<not> py_isspace c) s \<Longrightarrow> py_strip s = s"
proof -
  have drop: "dropWhile py_isspace s = s" if "list_all (\<lambda>c. \<not> py_isspace c) s" for s
    using that by (cases s) auto
  assume "list_all (\<lambda>c. \<not> py_isspace c) s"
  then show ?thesis using drop [of s] drop [of "rev s"] by (simp add: py_strip_def)
qed

text \<open>What is known of a name that was accepted.\<close>

lemma validate_thing_name_Inr:
  assumes "validate_thing_name v = Inr name"
  shows "name = py_strip v" "0 < length name" "length name \<le> 64" "list_all (\<lambda>c. 0x21 \<le> c \<and> c \<le> 0x7E) name"
  using assms by (auto simp: validate_thing_name_def Let_def split: if_splits)

lemma validate_device_name_Inr:
  assumes "validate_device_name v = Inr name"
  shows "name = py_strip v" "0 < length name" "length name \<le> 26" "list_all (\<lambda>c. 0x21 \<le> c \<and> c \<le> 0x7E) name"
  using assms by (auto simp: validate_device_name_def Let_def list_all_iff list_ex_iff not_less split: if_splits)

lemma printable_bytes:
  assumes "list_all (\<lambda>c. 0x21 \<le> c \<and> c \<le> 0x7E) name"
  shows "list_all (\<lambda>b. 0x21 \<le> b \<and> b \<le> 0x7E) (encode_ascii name)" "map unat (encode_ascii name) = name"
    "is_ascii name" "py_strip name = name" "list_all (\<lambda>b. b \<noteq> 0) (encode_ascii name)"
proof -
  have c: "0x21 \<le> c \<and> c \<le> 0x7E" if "c \<in> set name" for c using assms that by (simp add: list_all_iff)
  then have u: "unat (of_nat c :: u8) = c" if "c \<in> set name" for c
    using c [OF that] by (simp add: unat_of_nat)
  show "map unat (encode_ascii name) = name" using u by (simp add: encode_ascii_def map_idI)
  show "list_all (\<lambda>b. 0x21 \<le> b \<and> b \<le> 0x7E) (encode_ascii name)"
    using c u by (simp add: encode_ascii_def list_all_iff word_le_nat_alt)
  then show "list_all (\<lambda>b. b \<noteq> 0) (encode_ascii name)" by (auto simp: list_all_iff)
  show "is_ascii name" using c by (fastforce simp: is_ascii_def list_all_iff)
  show "py_strip name = name"
    using c by (intro strip_no_space) (fastforce simp: list_all_iff py_isspace_def)
qed

lemma validate_thing_name_again:
  "validate_thing_name v = Inr name \<Longrightarrow> validate_thing_name name = Inr name"
  using validate_thing_name_Inr(2-4) [of v name] printable_bytes(3,4) [of name]
  unfolding validate_thing_name_def Let_def by auto

section \<open>Reading the records back\<close>

text \<open>A flash partition that holds the record, and whatever follows it.\<close>

definition serves :: "'w kernel \<Rightarrow> bytes \<Rightarrow> bool" where
  "serves k content \<longleftrightarrow> (\<forall>cs. code (k cs (Bus FlashOpen)) = 0) \<and>
     (\<forall>cs pos len. code (k cs (Bus (FlashRead pos len))) = 0 \<and>
        data (k cs (Bus (FlashRead pos len))) = take len (drop pos content))"

lemma buffer_full [simp]: "length bs = n \<Longrightarrow> buffer n bs = bs"
  by (simp add: buffer_def)

lemma thread_header_fields:
  assumes "length magic = 4" "name_len \<le> 64" "dataset_len \<le> 254" "1 \<le> port" "port \<le> 0xFFFF"
  defines "h \<equiv> thread_header magic name_len dataset_len port"
  shows "length h = 10" "take 4 h = magic" "h ! 4 = 1" "unat (h ! 5) = name_len"
    "ThreadDevice.u16_le h 6 = of_nat dataset_len" "ThreadDevice.u16_le h 8 = of_int port"
    "PowerSi.u16_le h 6 = of_nat dataset_len" "PowerSi.u16_le h 8 = of_int port"
    "unpack16 h 6 = dataset_len" "int (unpack16 h 8) = port"
    "unat (of_nat dataset_len :: u16) = dataset_len" "(of_int port :: u16) \<noteq> 0"
proof -
  obtain a b c d where m: "magic = [a, b, c, d]"
    using assms(1) by (auto simp: numeral_eq_Suc length_Suc_conv)
  have n: "unat (of_nat name_len :: u8) = name_len" using assms(2) by (simp add: unat_of_nat)
  show dl: "unat (of_nat dataset_len :: u16) = dataset_len" using assms(3) by (simp add: unat_of_nat)
  have p: "uint (of_int port :: u16) = port" using assms(4,5) by (simp add: uint_word_of_int)
  then show "(of_int port :: u16) \<noteq> 0" using assms(4) by auto
  have ip: "int (unat (of_int port :: u16)) = port" using p by (simp only: uint_nat)
  show "length h = 10" "take 4 h = magic" "h ! 4 = 1" "unat (h ! 5) = name_len"
    using n by (simp_all add: h_def thread_header_def m)
  show "ThreadDevice.u16_le h 6 = of_nat dataset_len" "ThreadDevice.u16_le h 8 = of_int port"
    "PowerSi.u16_le h 6 = of_nat dataset_len" "PowerSi.u16_le h 8 = of_int port"
    using le16_join
    by (simp_all add: h_def thread_header_def m le16_def ThreadDevice.u16_le_def PowerSi.u16_le_def)
  show "unpack16 h 6 = dataset_len" "int (unpack16 h 8) = port"
    using unpack16_le16 [of "of_nat dataset_len"] unpack16_le16 [of "of_int port"] dl ip
    by (simp_all add: h_def thread_header_def m le16_def unpack16_def)
qed

text \<open>The three reads of the firmware.\<close>

lemma record_reads:
  assumes "length h = 10" "content = (h @ name @ tlvs) @ le32 crc @ rest"
  shows "take 10 content = h" "take (length name + length tlvs) (drop 10 content) = name @ tlvs"
    "take 4 (drop (10 + length name + length tlvs) content) = le32 crc"
  using assms by simp_all

lemma le32_reads: "ThreadDevice.u32_le (le32 crc) = crc" "native_u32 (le32 crc) = crc"
  using le32_join [of crc] by (simp_all add: le32_def ThreadDevice.u32_le_def native_u32_def)

lemma lm_build_Inr:
  assumes "lm_build_factory_data v tlvs port = Inr payload"
  obtains name where "validate_thing_name v = Inr name" "tlvs \<noteq> []" "length tlvs \<le> 254" "1 \<le> port" "port \<le> 0xFFFF"
    "payload = thread_without_crc TXN1_MAGIC (encode_ascii name) tlvs port @
       le32 (crc32 (thread_without_crc TXN1_MAGIC (encode_ascii name) tlvs port))"
  using assms
  by (auto simp: lm_build_factory_data_def validate_dataset_tlvs_def validate_port_def checked_size_def Let_def
      split: sum.splits if_splits)

lemma si_build_Inr:
  assumes "si_build_factory_data v tlvs port = Inr payload"
  obtains name where "validate_thing_name v = Inr name" "tlvs \<noteq> []" "length tlvs \<le> 254" "1 \<le> port" "port \<le> 0xFFFF"
    "payload = thread_without_crc TXT1_MAGIC (encode_ascii name) tlvs port @
       le32 (crc32 (thread_without_crc TXT1_MAGIC (encode_ascii name) tlvs port))"
  using assms
  by (auto simp: si_build_factory_data_def validate_port_def checked_size_def Let_def split: sum.splits if_splits)

lemma lm_load_record:
  assumes "serves (lm_env.kernel E) content" "lm_env.crc32_ieee E = crc32" "lm_env.has_factory_partition E"
    and h: "h = thread_header TXN1_MAGIC (length name) (length tlvs) port"
    and content: "content = (h @ name @ tlvs) @ le32 (crc32 (h @ name @ tlvs)) @ rest"
    and "0 < length name" "length name \<le> 64" "tlvs \<noteq> []" "length tlvs \<le> 254" "1 \<le> port" "port \<le> 0xFFFF"
    and "list_all (\<lambda>b. 0x21 \<le> b \<and> b \<le> 0x7E) name"
  shows "wp (ThreadDevice.load_factory_data E) (\<lambda>rc t. rc = 0 \<and> factory_valid t \<and>
     thing_name t = name \<and> dataset_tlvs t = tlvs \<and> coap_port t = of_int port) s"
proof -
  have four: "length TXN1_MAGIC = 4" by (simp add: TXN1_MAGIC_def)
  note f = thread_header_fields [OF four assms(7,9-11), folded h]
  note r = record_reads [OF f(1) content]
  have reads: "code (lm_env.kernel E cs (Bus FlashOpen)) = 0"
    "code (lm_env.kernel E cs (Bus (FlashRead pos len))) = 0"
    "data (lm_env.kernel E cs (Bus (FlashRead pos len))) = take len (drop pos content)" for cs pos len
    using assms(1) by (simp_all add: serves_def)
  have valid: "thing_name_is_valid name"
    using assms(6,7,12) by (auto simp: thing_name_is_valid_def txn1_constants list_all_iff not_less)
  show ?thesis
    unfolding ThreadDevice.load_factory_data_def ThreadDevice.read_factory_record_def
    using assms(6-11) f r valid
    by (simp add: fw_simps reads txn1_constants(2-4) Let_def assms(2,3) le32_reads)
qed

lemma si_load_record:
  assumes "serves (si_env.kernel E) content" "si_env.crc32_ieee E = crc32" "si_env.has_factory_partition E"
    and h: "h = thread_header TXT1_MAGIC (length name) (length tlvs) port"
    and content: "content = (h @ name @ tlvs) @ le32 (crc32 (h @ name @ tlvs)) @ rest"
    and "0 < length name" "length name \<le> 64" "tlvs \<noteq> []" "length tlvs \<le> 254" "1 \<le> port" "port \<le> 0xFFFF"
    and "list_all (\<lambda>b. b \<noteq> 0) name"
  shows "wp (PowerSi.load_factory_data E) (\<lambda>rc t. rc = 0 \<and> factory_valid t \<and>
     thing_name t = name \<and> dataset_tlvs t = tlvs \<and> coap_port t = of_int port) s"
proof -
  have four: "length TXT1_MAGIC = 4" by (simp add: TXT1_MAGIC_def)
  note f = thread_header_fields [OF four assms(7,9-11), folded h]
  note r = record_reads [OF f(1) content]
  have reads: "code (si_env.kernel E cs (Bus FlashOpen)) = 0"
    "code (si_env.kernel E cs (Bus (FlashRead pos len))) = 0"
    "data (si_env.kernel E cs (Bus (FlashRead pos len))) = take len (drop pos content)" for cs pos len
    using assms(1) by (simp_all add: serves_def)
  have whole: "takeWhile (\<lambda>b. b \<noteq> 0) name = name"
    using assms(12) by (subst takeWhile_eq_all_conv) (simp add: list_all_iff)
  show ?thesis
    unfolding PowerSi.load_factory_data_def PowerSi.read_factory_record_def
    using assms(6-11) f r
    by (simp add: fw_simps reads txt1_constants(2-4) Let_def assms(2,3) le32_reads whole)
qed

lemma redcon_load_record:
  assumes "redcon_build_factory_data v = Inr payload"
    and "redcon_env.crc32_ieee E = crc32" "26 \<le> device_name_max E" "factory_data E = payload"
  shows "wp (load_device_name_from_nve E) (\<lambda>r t. r \<and> device_name t = encode_ascii (py_strip v)) s"
    and "length payload = 36"
proof -
  from assms(1) obtain name where name: "validate_device_name v = Inr name"
    and payload: "payload = txr1_without_crc (encode_ascii name) @ le32 (crc32 (txr1_without_crc (encode_ascii name)))"
    by (auto simp: redcon_build_factory_data_def Let_def split: sum.splits)
  note n = validate_device_name_Inr [OF name]
  let ?name = "encode_ascii name"
  have len: "length ?name = length name" "0 < length name" "length name \<le> 26"
    using n by (simp_all add: encode_ascii_def)
  have body: "length (txr1_without_crc ?name) = 32"
    using len by (simp add: txr1_without_crc_def REDCON_FACTORY_DATA_MAGIC_def)
  show "length payload = 36" using body by (simp add: payload)
  then have f: "buffer 36 (factory_data E) = payload" using assms(4) by simp
  have u: "unat (of_nat (length name) :: u8) = length name" using len by (simp add: unat_of_nat)
  have fields: "take 4 payload = REDCON_FACTORY_DATA_MAGIC" "payload ! 4 = 1" "payload ! 5 = of_nat (length name)"
      "take 32 payload = txr1_without_crc ?name" "take (length name) (drop 6 payload) = ?name"
    using len body by (simp_all add: payload txr1_without_crc_def REDCON_FACTORY_DATA_MAGIC_def)
  have crc: "factory_crc_le payload = crc32 (txr1_without_crc ?name)"
    using body le32_join by (simp add: factory_crc_le_def payload nth_append le32_def)
  have nz: "(of_nat (length name) :: u8) \<noteq> 0" using u len by force
  have ok: "list_all is_valid_device_name_byte ?name"
    using printable_bytes(1) [OF n(4)] by (simp add: is_valid_device_name_byte_def list_all_iff)
  show "wp (load_device_name_from_nve E) (\<lambda>r t. r \<and> device_name t = encode_ascii (py_strip v)) s"
    using len assms(3)
    by (simp add: load_device_name_from_nve_def set_device_name_from_bytes_def fw_simps Let_def f fields crc assms(2)
        u nz ok REDCON_FACTORY_DEVICE_NAME_SIZE_def TXING_REDCON_BLE_ADV_MAX_NAME_LEN_def n(1) [symmetric])
qed

text \<open>A dataset printed in hexadecimal is read back.\<close>

lemma hex_digit_is_hex: "n < 16 \<Longrightarrow> is_hex (of_char (hex_digit n))"
proof -
  assume "n < 16"
  moreover have "list_all (\<lambda>n. is_hex (of_char (hex_digit n))) [0..<16]"
    by (simp add: upt_rec hex_digit_def is_hex_def)
  ultimately show ?thesis by (simp add: list_all_iff)
qed

lemma hex_text_is_hex: "list_all is_hex (map of_char (hex_text tlvs))"
  by (induction tlvs)
    (auto simp: hex_text_def hex_byte_def hex_digit_is_hex less_mult_imp_div_less unsigned_less [where 'a = nat, THEN less_le_trans])

lemma length_hex_text: "length (hex_text tlvs) = 2 * length tlvs"
  by (induction tlvs) (simp_all add: hex_text_def hex_byte_def)

lemma dataset_hex_round_trip: "parse_dataset_tlvs_hex (map of_char (hex_text tlvs)) = validate_dataset_tlvs tlvs"
proof -
  let ?v = "map (of_char :: char \<Rightarrow> nat) (hex_text tlvs)"
  have hex: "\<forall>c \<in> set ?v. is_hex c" using hex_text_is_hex [of tlvs] by (simp add: list_all_iff)
  have plain: "\<not> py_isspace c \<and> c \<noteq> 120 \<and> c \<noteq> 88" if "is_hex c" for c
    using that by (auto simp: is_hex_def py_isspace_def)
  have "filter (\<lambda>c. \<not> py_isspace c) ?v = ?v" using hex plain by (intro filter_True) blast
  moreover have "take 2 ?v \<noteq> [48, 120]" "take 2 ?v \<noteq> [48, 88]"
    using hex plain by (metis in_set_takeD list.set_intros)+
  moreover have "unhex (map char_of ?v) = Some tlvs"
    using unhex_hex_text [of tlvs "[]"] by (simp add: comp_def)
  moreover have "length ?v = 2 * length tlvs" by (simp add: length_hex_text)
  moreover from this have "?v = [] \<longleftrightarrow> tlvs = []" by (metis length_0_conv mult_is_0 zero_neq_numeral)
  ultimately show ?thesis
    using hex_text_is_hex [of tlvs]
    by (simp add: parse_dataset_tlvs_hex_def Let_def validate_dataset_tlvs_def del: map_map map_is_Nil_conv)
qed

section \<open>Properties\<close>

text \<open>
  C29. A TXN1 record that the nRF54LM20A script writes is read back: by the parser of the script, and by
  the firmware from a flash partition that holds it (whatever follows), with the name without
  surrounding space, the dataset and the port that were given.  The dataset printed as hexadecimal
  text is the one the script reads.
\<close>

theorem txn1_round_trip:
  assumes "lm_build_factory_data v tlvs port = Inr payload"
    and "serves (lm_env.kernel E) (payload @ rest)" "lm_env.crc32_ieee E = crc32" "lm_env.has_factory_partition E"
  shows "parse_factory_data payload =
       Inr \<lparr>record_thing_name = py_strip v, record_dataset_tlvs = tlvs, record_coap_port = port\<rparr> \<and>
     parse_dataset_tlvs_hex (map of_char (hex_text tlvs)) = Inr tlvs \<and>
     wp (ThreadDevice.load_factory_data E) (\<lambda>rc t. rc = 0 \<and> factory_valid t \<and>
       thing_name t = encode_ascii (py_strip v) \<and> dataset_tlvs t = tlvs \<and> coap_port t = of_int port) s"
proof -
  obtain name where name: "validate_thing_name v = Inr name"
    and bounds: "tlvs \<noteq> []" "length tlvs \<le> 254" "1 \<le> port" "port \<le> 0xFFFF"
    and payload: "payload = thread_without_crc TXN1_MAGIC (encode_ascii name) tlvs port @
       le32 (crc32 (thread_without_crc TXN1_MAGIC (encode_ascii name) tlvs port))"
    by (rule lm_build_Inr [OF assms(1)])
  note n = validate_thing_name_Inr [OF name] and b = printable_bytes [OF validate_thing_name_Inr(4) [OF name]]
  let ?name = "encode_ascii name"
  have len: "length ?name = length name" by (simp add: encode_ascii_def)
  have four: "length TXN1_MAGIC = 4" by (simp add: TXN1_MAGIC_def)
  let ?h = "thread_header TXN1_MAGIC (length ?name) (length tlvs) port"
  have "wp (ThreadDevice.load_factory_data E) (\<lambda>rc t. rc = 0 \<and> factory_valid t \<and>
       thing_name t = ?name \<and> dataset_tlvs t = tlvs \<and> coap_port t = of_int port) s"
    by (rule lm_load_record [OF assms(2-4) refl, of ?name tlvs port rest])
      (use n(2,3) len bounds b(1) in \<open>simp_all add: payload thread_without_crc_def\<close>)
  moreover have "parse_factory_data payload =
       Inr \<lparr>record_thing_name = name, record_dataset_tlvs = tlvs, record_coap_port = port\<rparr>"
  proof -
    note f = thread_header_fields [OF four, of "length ?name" "length tlvs" port]
    have p: "payload = ?h @ ?name @ tlvs @ le32 (crc32 (?h @ ?name @ tlvs))"
      by (simp add: payload thread_without_crc_def)
    have h: "length ?h = 10" "take 4 ?h = TXN1_MAGIC" "?h ! 4 = 1" "unat (?h ! 5) = length name"
      "unpack16 ?h 6 = length tlvs" "int (unpack16 ?h 8) = port"
      using f n(3) len bounds by simp_all
    have at: "payload ! i = ?h ! i" if "i < 10" for i using that h(1) by (simp add: p nth_append)
    have crc: "unpack32 payload (10 + (length name + length tlvs)) = crc32 (?h @ ?name @ tlvs)"
      using h(1) len le32_join by (simp add: p unpack32_def nth_append le32_def)
    have "unpack16 payload 6 = length tlvs" "int (unpack16 payload 8) = port" "payload ! 4 = 1"
        "unat (payload ! 5) = length name"
      using h at by (simp_all add: unpack16_def)
    moreover have "take 4 payload = TXN1_MAGIC" "length payload = 14 + length name + length tlvs"
        "take (10 + (length name + length tlvs)) payload = ?h @ ?name @ tlvs"
        "take (length name) (drop 10 payload) = ?name"
      using h len by (simp_all add: p)
    ultimately show ?thesis
      using crc h(1) len validate_thing_name_again [OF name] bounds b(2,3)
      by (simp add: parse_factory_data_def Let_def validate_dataset_tlvs_def validate_port_def)
  qed
  moreover have "parse_dataset_tlvs_hex (map of_char (hex_text tlvs)) = Inr tlvs"
    using bounds by (simp add: dataset_hex_round_trip validate_dataset_tlvs_def)
  ultimately show ?thesis using n(1) by simp
qed

text \<open>A device whose flash holds a given content.\<close>

definition flash_kernel :: "bytes \<Rightarrow> 'w kernel" where
  "flash_kernel content cs c = (case c of
     Bus (FlashRead pos len) \<Rightarrow> \<lparr>code = 0, out = 0, data = take len (drop pos content)\<rparr>
   | _ \<Rightarrow> \<lparr>code = 0, out = 0, data = []\<rparr>)"

lemma serves_flash_kernel: "serves (flash_kernel content) content"
  by (simp add: serves_def flash_kernel_def)

lemma sample_name: "validate_thing_name [32, 97, 49] = Inr [97, 49]" "py_strip [32, 97, 49] = [97, 49]"
  by (simp_all add: validate_thing_name_def py_strip_def py_isspace_def is_ascii_def)

theorem txn1_round_trip_witness:
  "\<exists>payload E. lm_build_factory_data [32, 97, 49] [0x0E, 8] 5683 = Inr payload \<and>
     parse_factory_data payload =
       Inr \<lparr>record_thing_name = [97, 49], record_dataset_tlvs = [0x0E, 8], record_coap_port = 5683\<rparr> \<and>
     wp (ThreadDevice.load_factory_data E) (\<lambda>rc t. rc = 0 \<and> thing_name t = [97, 49]) (initial_lm_state E)"
proof -
  obtain payload where payload: "lm_build_factory_data [32, 97, 49] [0x0E, 8] 5683 = Inr payload"
    by (simp add: lm_build_factory_data_def sample_name validate_dataset_tlvs_def validate_port_def checked_size_def
        thread_without_crc_def thread_header_def encode_ascii_def TXN1_MAGIC_def Let_def)
  let ?E = "sample_lm_env\<lparr>lm_env.kernel := flash_kernel (payload @ []), lm_env.crc32_ieee := crc32\<rparr>"
  have E: "serves (lm_env.kernel ?E) (payload @ [])" "lm_env.crc32_ieee ?E = crc32" "lm_env.has_factory_partition ?E"
    by (simp_all add: sample_lm_env_def serves_flash_kernel)
  note r = txn1_round_trip [OF payload E, of "initial_lm_state ?E"]
  have load: "wp (ThreadDevice.load_factory_data ?E) (\<lambda>rc t. rc = 0 \<and> thing_name t = [97, 49]) (initial_lm_state ?E)"
    by (rule wp_mono [OF conjunct2 [OF conjunct2 [OF r]]]) (simp add: sample_name encode_ascii_def)
  have "parse_factory_data payload =
       Inr \<lparr>record_thing_name = [97, 49], record_dataset_tlvs = [0x0E, 8], record_coap_port = 5683\<rparr>"
    using conjunct1 [OF r] by (simp add: sample_name)
  with payload load show ?thesis by blast
qed

text \<open>
  A TXT1 record that the MG24 script writes is loaded by its firmware from a flash partition that
  holds it, with the name, the dataset and the port that were given.
\<close>

theorem txt1_round_trip:
  assumes "si_build_factory_data v tlvs port = Inr payload"
    and "serves (si_env.kernel E) (payload @ rest)" "si_env.crc32_ieee E = crc32" "si_env.has_factory_partition E"
  shows "wp (PowerSi.load_factory_data E) (\<lambda>rc t. rc = 0 \<and> factory_valid t \<and>
       thing_name t = encode_ascii (py_strip v) \<and> dataset_tlvs t = tlvs \<and> coap_port t = of_int port) s"
proof -
  obtain name where name: "validate_thing_name v = Inr name"
    and bounds: "tlvs \<noteq> []" "length tlvs \<le> 254" "1 \<le> port" "port \<le> 0xFFFF"
    and payload: "payload = thread_without_crc TXT1_MAGIC (encode_ascii name) tlvs port @
       le32 (crc32 (thread_without_crc TXT1_MAGIC (encode_ascii name) tlvs port))"
    by (rule si_build_Inr [OF assms(1)])
  note n = validate_thing_name_Inr [OF name] and b = printable_bytes [OF validate_thing_name_Inr(4) [OF name]]
  have len: "length (encode_ascii name) = length name" by (simp add: encode_ascii_def)
  have "wp (PowerSi.load_factory_data E) (\<lambda>rc t. rc = 0 \<and> factory_valid t \<and>
       thing_name t = encode_ascii name \<and> dataset_tlvs t = tlvs \<and> coap_port t = of_int port) s"
    by (rule si_load_record [OF assms(2-4) refl, of "encode_ascii name" tlvs port rest])
      (use n(2,3) len bounds b(5) in \<open>simp_all add: payload thread_without_crc_def\<close>)
  then show ?thesis using n(1) by simp
qed

theorem txt1_round_trip_witness:
  "\<exists>payload E. si_build_factory_data [32, 97, 49] [0x0E, 8] 5683 = Inr payload \<and>
     wp (PowerSi.load_factory_data E) (\<lambda>rc t. rc = 0 \<and> thing_name t = [97, 49]) initial_si_state"
proof -
  obtain payload where payload: "si_build_factory_data [32, 97, 49] [0x0E, 8] 5683 = Inr payload"
    by (simp add: si_build_factory_data_def sample_name validate_port_def checked_size_def
        thread_without_crc_def thread_header_def encode_ascii_def TXT1_MAGIC_def Let_def)
  let ?E = "\<lparr>si_env.kernel = flash_kernel (payload @ []), json_obj_parse = (\<lambda>_. (0, 0, 0)), crc32_ieee = crc32,
     has_factory_partition = True, battery_reporting = False, adc_differential = False, redcon_link_mode_test = False,
     sed_recovery_test = False, pm_transition_diagnostics = False, srp_psa_diagnostics = False,
     openthread_key_ids_begin = 0\<rparr>"
  have E: "serves (si_env.kernel ?E) (payload @ [])" "si_env.crc32_ieee ?E = crc32" "si_env.has_factory_partition ?E"
    by (simp_all add: serves_flash_kernel)
  have "wp (PowerSi.load_factory_data ?E) (\<lambda>rc t. rc = 0 \<and> thing_name t = [97, 49]) initial_si_state"
    by (rule wp_mono [OF txt1_round_trip [OF payload E]]) (simp add: sample_name encode_ascii_def)
  with payload show ?thesis by blast
qed



end
