(* ===== verification/Scheduler.thy ===== *)
theory Scheduler
  imports Prelude
begin

text \<open>
  Model of the Thread work scheduler of the rig, \<^verbatim>\<open>src/rig/internal/thread/scheduler.go\<close>: a fixed set of
  workers, a queue of commands and a queue of maintenance polls, one lock.  Every section that holds the
  lock is one step; the steps of the workers, of the maintenance goroutine and of the callers interleave
  freely.  What a command, a poll or a discovery does is outside; it only takes time between two steps.
\<close>

section \<open>State\<close>

record 'c scheduled_work =
  work_thing :: string
  work_command :: "'c option"
  work_cycle :: "nat option"

text \<open>
  Where a worker stands: in \<^verbatim>\<open>nextWork\<close>, after it with its work, inside \<^verbatim>\<open>Poll\<close> under a registered
  context, before \<^verbatim>\<open>complete\<close>, or gone.
\<close>

datatype 'c worker =
  Waiting
| Holding "'c scheduled_work"
| Polling "'c scheduled_work" nat
| Finishing "'c scheduled_work"
| Exited

text \<open>
  The fields of \<^verbatim>\<open>Scheduler\<close>, the maintenance cycles by address with their counters, the contexts that
  were cancelled, the goroutines of the pool and the number of goroutines in \<^verbatim>\<open>maintain\<close>.
\<close>

record 'c scheduler =
  workers :: nat
  ctx_set :: bool
  ctx_cancelled :: bool
  stopped :: bool
  busy :: "string \<Rightarrow> bool"
  commands :: "'c scheduled_work list"
  polls :: "'c scheduled_work list"
  running_polls :: int
  active_poll_cancel :: "string \<rightharpoonup> nat"
  maintenance_active :: bool
  cycle_pending :: "nat \<Rightarrow> int"
  next_cycle :: nat
  cancelled :: "nat set"
  next_context :: nat
  pool :: "'c worker list"
  maintainers :: nat

section \<open>Operations\<close>

definition NewScheduler :: "nat \<Rightarrow> 'c scheduler" where
  "NewScheduler n = \<lparr>workers = (if n < 2 then 2 else n), ctx_set = False, ctx_cancelled = False, stopped = False,
     busy = (\<lambda>_. False), commands = [], polls = [], running_polls = 0, active_poll_cancel = Map.empty,
     maintenance_active = False, cycle_pending = (\<lambda>_. 0), next_cycle = 0, cancelled = {}, next_context = 0,
     pool = [], maintainers = 0\<rparr>"

definition Start :: "'c scheduler \<Rightarrow> 'c scheduler" where
  "Start s = (if ctx_set s then s else s\<lparr>ctx_set := True, pool := replicate (workers s) Waiting\<rparr>)"

definition RequestMaintenance :: "'c scheduler \<Rightarrow> 'c scheduler" where
  "RequestMaintenance s = (if stopped s \<or> \<not> ctx_set s \<or> maintenance_active s then s
     else s\<lparr>maintenance_active := True, maintainers := maintainers s + 1\<rparr>)"

definition cancel_context :: "nat option \<Rightarrow> 'c scheduler \<Rightarrow> 'c scheduler" where
  "cancel_context c s = (case c of Some k \<Rightarrow> s\<lparr>cancelled := insert k (cancelled s)\<rparr> | None \<Rightarrow> s)"

definition SubmitCommand :: "string \<Rightarrow> 'c \<Rightarrow> 'c scheduler \<Rightarrow> string + 'c scheduler" where
  "SubmitCommand thing c s = (if stopped s \<or> \<not> ctx_set s then Inl ''Thread scheduler is stopped''
     else let s = cancel_context (active_poll_cancel s thing) s in
       Inr (s\<lparr>commands := commands s @ [\<lparr>work_thing = thing, work_command = Some c, work_cycle = None\<rparr>]\<rparr>))"

definition CloseScheduler :: "'c scheduler \<Rightarrow> 'c scheduler" where
  "CloseScheduler s = (if stopped s then s
     else s\<lparr>stopped := True, ctx_cancelled := ctx_cancelled s \<or> ctx_set s,
       cancelled := cancelled s \<union> ran (active_poll_cancel s)\<rparr>)"

definition finishMaintenanceCycle :: "'c scheduler \<Rightarrow> 'c scheduler" where
  "finishMaintenanceCycle s = s\<lparr>maintenance_active := False\<rparr>"

text \<open>The last section of \<^verbatim>\<open>maintain\<close>, with the names of the endpoints that were discovered.\<close>

definition queue_polls :: "string list \<Rightarrow> 'c scheduler \<Rightarrow> 'c scheduler" where
  "queue_polls names s = (if stopped s then s\<lparr>maintenance_active := False\<rparr>
     else if names = [] then s\<lparr>maintenance_active := False\<rparr>
     else let c = next_cycle s in
       s\<lparr>next_cycle := c + 1, cycle_pending := (cycle_pending s)(c := int (length names)),
         polls := polls s @ map (\<lambda>t. \<lparr>work_thing = t, work_command = None, work_cycle = Some c\<rparr>) names\<rparr>)"

fun firstAvailable :: "(string \<Rightarrow> bool) \<Rightarrow> 'c scheduled_work list \<Rightarrow> int" where
  "firstAvailable act [] = -1"
| "firstAvailable act (w # ws) = (if \<not> act (work_thing w) then 0
     else let r = firstAvailable act ws in if r < 0 then -1 else r + 1)"

definition removeWork :: "'a list \<Rightarrow> nat \<Rightarrow> 'a list" where
  "removeWork ws i = take i ws @ drop (i + 1) ws"

text \<open>
  One turn of the loop in \<^verbatim>\<open>nextWork\<close>: \<open>None\<close> when it waits, otherwise the work (or none, when the
  scheduler is stopped) and the new state.
\<close>

definition nextWork :: "'c scheduler \<Rightarrow> ('c scheduled_work option \<times> 'c scheduler) option" where
  "nextWork s = (if stopped s then Some (None, s)
     else let i = firstAvailable (busy s) (commands s) in
       if i \<ge> 0 then let w = commands s ! nat i in
         Some (Some w, s\<lparr>commands := removeWork (commands s) (nat i), busy := (busy s)(work_thing w := True)\<rparr>)
       else if running_polls s < int (workers s) - 1 then let j = firstAvailable (busy s) (polls s) in
         if j \<ge> 0 then let w = polls s ! nat j in
           Some (Some w, s\<lparr>polls := removeWork (polls s) (nat j), busy := (busy s)(work_thing w := True),
             running_polls := running_polls s + 1\<rparr>)
         else None
       else None)"

definition setActivePollCancel :: "string \<Rightarrow> nat \<Rightarrow> 'c scheduler \<Rightarrow> 'c scheduler" where
  "setActivePollCancel thing c s = s\<lparr>active_poll_cancel := (active_poll_cancel s)(thing \<mapsto> c)\<rparr>"

definition clearActivePollCancel :: "string \<Rightarrow> 'c scheduler \<Rightarrow> 'c scheduler" where
  "clearActivePollCancel thing s = s\<lparr>active_poll_cancel := (active_poll_cancel s)(thing := None)\<rparr>"

definition complete :: "'c scheduled_work \<Rightarrow> 'c scheduler \<Rightarrow> 'c scheduler" where
  "complete w s = (let s = s\<lparr>busy := (busy s)(work_thing w := False)\<rparr> in
     if work_command w \<noteq> None then s
     else let s = s\<lparr>running_polls := running_polls s - 1\<rparr> in
       case work_cycle w of None \<Rightarrow> s
       | Some c \<Rightarrow> let n = cycle_pending s c - 1; s = s\<lparr>cycle_pending := (cycle_pending s)(c := n)\<rparr> in
           if n = 0 then s\<lparr>maintenance_active := False\<rparr> else s)"

section \<open>Interleavings\<close>

text \<open>
  The events: calls of the scheduler, cancellation of the parent context (which cancels the contexts derived
  from it), the end of \<^verbatim>\<open>maintain\<close>, and the steps of worker \<open>i\<close>.
\<close>

datatype 'c sched_event =
  Started | MaintenanceRequested | Submitted string 'c | Refused string 'c | Closed | ParentCancelled
| DiscoveryFailed | Discovered "string list"
| Took nat "'c scheduled_work" | WorkerExited nat
| CommandHandled nat | PollStarted nat | PollReturned nat | Completed nat

text \<open>A worker creates and registers the context of a poll before \<^verbatim>\<open>Poll\<close>, and cancels and removes it after.\<close>

definition with_worker :: "nat \<Rightarrow> 'c worker \<Rightarrow> 'c scheduler \<Rightarrow> 'c scheduler" where
  "with_worker i p s = s\<lparr>pool := (pool s)[i := p]\<rparr>"

definition leave_maintain :: "'c scheduler \<Rightarrow> 'c scheduler" where
  "leave_maintain s = s\<lparr>maintainers := maintainers s - 1\<rparr>"

definition start_poll :: "nat \<Rightarrow> 'c scheduled_work \<Rightarrow> 'c scheduler \<Rightarrow> 'c scheduler" where
  "start_poll i w s = (let c = next_context s in
     with_worker i (Polling w c) (setActivePollCancel (work_thing w) c
       (s\<lparr>next_context := c + 1, cancelled := (if ctx_cancelled s then insert c (cancelled s) else cancelled s)\<rparr>)))"

definition end_poll :: "nat \<Rightarrow> 'c scheduled_work \<Rightarrow> nat \<Rightarrow> 'c scheduler \<Rightarrow> 'c scheduler" where
  "end_poll i w c s = with_worker i (Finishing w) (clearActivePollCancel (work_thing w) (cancel_context (Some c) s))"

inductive sched_step :: "'c scheduler \<Rightarrow> 'c sched_event \<Rightarrow> 'c scheduler \<Rightarrow> bool" where
  start: "sched_step s Started (Start s)"
| request: "sched_step s MaintenanceRequested (RequestMaintenance s)"
| submit: "SubmitCommand thing c s = Inr t \<Longrightarrow> sched_step s (Submitted thing c) t"
| refuse: "SubmitCommand thing c s = Inl e \<Longrightarrow> sched_step s (Refused thing c) s"
| close: "sched_step s Closed (CloseScheduler s)"
| parent: "sched_step s ParentCancelled (s\<lparr>ctx_cancelled := True, cancelled := cancelled s \<union> ran (active_poll_cancel s)\<rparr>)"
| discovery_failed: "0 < maintainers s \<Longrightarrow>
    sched_step s DiscoveryFailed (leave_maintain (finishMaintenanceCycle s))"
| discovered: "0 < maintainers s \<Longrightarrow> sched_step s (Discovered names) (leave_maintain (queue_polls names s))"
| take: "i < length (pool s) \<Longrightarrow> pool s ! i = Waiting \<Longrightarrow> nextWork s = Some (Some w, t) \<Longrightarrow>
    sched_step s (Took i w) (with_worker i (Holding w) t)"
| exit: "i < length (pool s) \<Longrightarrow> pool s ! i = Waiting \<Longrightarrow> nextWork s = Some (None, t) \<Longrightarrow>
    sched_step s (WorkerExited i) (with_worker i Exited t)"
| handled: "i < length (pool s) \<Longrightarrow> pool s ! i = Holding w \<Longrightarrow> work_command w \<noteq> None \<Longrightarrow>
    sched_step s (CommandHandled i) (with_worker i (Finishing w) s)"
| poll_start: "i < length (pool s) \<Longrightarrow> pool s ! i = Holding w \<Longrightarrow> work_command w = None \<Longrightarrow>
    sched_step s (PollStarted i) (start_poll i w s)"
| poll_return: "i < length (pool s) \<Longrightarrow> pool s ! i = Polling w c \<Longrightarrow>
    sched_step s (PollReturned i) (end_poll i w c s)"
| completed: "i < length (pool s) \<Longrightarrow> pool s ! i = Finishing w \<Longrightarrow>
    sched_step s (Completed i) (with_worker i Waiting (complete w s))"

inductive_cases sched_stepE: "sched_step s ev t"

section \<open>Invariants\<close>

fun held :: "'c worker \<Rightarrow> 'c scheduled_work option" where
  "held (Holding w) = Some w"
| "held (Polling w c) = Some w"
| "held (Finishing w) = Some w"
| "held Waiting = None"
| "held Exited = None"

definition is_poll :: "'c worker \<Rightarrow> bool" where
  "is_poll p \<longleftrightarrow> (\<exists>w. held p = Some w \<and> work_command w = None)"

definition polls_for :: "nat \<Rightarrow> 'c worker \<Rightarrow> bool" where
  "polls_for c p \<longleftrightarrow> (\<exists>w. held p = Some w \<and> work_command w = None \<and> work_cycle w = Some c)"

lemma is_poll_simps [simp]:
  "is_poll (Holding w) = (work_command w = None)" "is_poll (Polling w k) = (work_command w = None)"
  "is_poll (Finishing w) = (work_command w = None)" "\<not> is_poll Waiting" "\<not> is_poll Exited"
  by (simp_all add: is_poll_def)

lemma polls_for_simps [simp]:
  "polls_for c (Holding w) = (work_command w = None \<and> work_cycle w = Some c)"
  "polls_for c (Polling w k) = (work_command w = None \<and> work_cycle w = Some c)"
  "polls_for c (Finishing w) = (work_command w = None \<and> work_cycle w = Some c)"
  "\<not> polls_for c Waiting" "\<not> polls_for c Exited"
  by (simp_all add: polls_for_def)

text \<open>How many elements of a list satisfy a predicate, and how an update changes that.\<close>

definition tally :: "('a \<Rightarrow> bool) \<Rightarrow> 'a list \<Rightarrow> int" where
  "tally P xs = (\<Sum>x\<leftarrow>xs. if P x then 1 else 0)"

lemma tally_simps [simp]:
  "tally P [] = 0" "tally P (x # xs) = (if P x then 1 else 0) + tally P xs" "tally P (xs @ ys) = tally P xs + tally P ys"
  by (simp_all add: tally_def)

lemma tally_replicate [simp]: "tally P (replicate n x) = (if P x then int n else 0)"
  by (induction n) auto

lemma tally_nonneg [simp]: "0 \<le> tally P xs"
  by (induction xs) auto

lemma tally_update:
  "i < length xs \<Longrightarrow> tally P (xs[i := y]) = tally P xs - (if P (xs ! i) then 1 else 0) + (if P y then 1 else 0)"
  by (induction xs arbitrary: i) (auto split: nat.split)

lemma tally_remove: "i < length xs \<Longrightarrow> tally P (removeWork xs i) = tally P xs - (if P (xs ! i) then 1 else 0)"
proof (induction xs arbitrary: i)
  case (Cons x xs)
  then show ?case by (cases i) (auto simp: removeWork_def)
qed simp

lemma tally_pos: "0 < tally P xs \<longleftrightarrow> (\<exists>x \<in> set xs. P x)"
  by (induction xs) (auto simp: add_nonneg_pos add_pos_nonneg intro: less_le_trans)

lemma tally_all: "\<forall>x \<in> set xs. P x \<Longrightarrow> tally P xs = int (length xs)"
  by (induction xs) auto

lemma tally_le: "tally P xs \<le> int (length xs)"
  by (induction xs) auto

text \<open>What \<^verbatim>\<open>firstAvailable\<close> finds.\<close>

lemma firstAvailable_found:
  assumes "0 \<le> firstAvailable act ws"
  shows "nat (firstAvailable act ws) < length ws" "\<not> act (work_thing (ws ! nat (firstAvailable act ws)))"
    "\<forall>w \<in> set (take (nat (firstAvailable act ws)) ws). act (work_thing w)"
  using assms by (induction ws) (auto simp: Let_def nat_add_distrib split: if_splits)

lemma firstAvailable_none: "firstAvailable act ws < 0 \<longleftrightarrow> (\<forall>w \<in> set ws. act (work_thing w))"
  by (induction ws) (auto simp: Let_def)

text \<open>One device, one worker.\<close>

definition exclusive :: "'c scheduler \<Rightarrow> bool" where
  "exclusive s \<longleftrightarrow>
     (\<forall>i j v w. i < length (pool s) \<longrightarrow> j < length (pool s) \<longrightarrow> held (pool s ! i) = Some v \<longrightarrow>
        held (pool s ! j) = Some w \<longrightarrow> work_thing v = work_thing w \<longrightarrow> i = j) \<and>
     (\<forall>t. busy s t \<longleftrightarrow> (\<exists>i w. i < length (pool s) \<and> held (pool s ! i) = Some w \<and> work_thing w = t))"

text \<open>The shape of the queues and of the pool.\<close>

definition well_formed :: "'c scheduler \<Rightarrow> bool" where
  "well_formed s \<longleftrightarrow> 2 \<le> workers s \<and> length (pool s) = (if ctx_set s then workers s else 0) \<and>
     (\<forall>w \<in> set (commands s). work_command w \<noteq> None) \<and>
     (\<forall>w \<in> set (polls s). work_command w = None \<and> work_cycle w \<noteq> None) \<and>
     (\<forall>p \<in> set (pool s). \<forall>w. held p = Some w \<longrightarrow> work_command w = None \<longrightarrow> work_cycle w \<noteq> None) \<and>
     (\<forall>w c. Polling w c \<in> set (pool s) \<longrightarrow> work_command w = None) \<and>
     (\<not> stopped s \<longrightarrow> Exited \<notin> set (pool s))"

text \<open>The number of polls in progress leaves a worker for commands.\<close>

definition counted :: "'c scheduler \<Rightarrow> bool" where
  "counted s \<longleftrightarrow> running_polls s = tally is_poll (pool s) \<and> running_polls s \<le> int (workers s) - 1"

text \<open>The counter of a cycle is the number of its polls that are queued or in progress.\<close>

definition cycles_counted :: "'c scheduler \<Rightarrow> bool" where
  "cycles_counted s \<longleftrightarrow>
     (\<forall>c. cycle_pending s c = tally (\<lambda>w. work_cycle w = Some c) (polls s) + tally (polls_for c) (pool s))"

text \<open>
  One cycle at a time: the maintenance flag is set exactly while a goroutine is in \<^verbatim>\<open>maintain\<close> or polls of the
  last cycle are outstanding, never both.
\<close>

definition one_cycle :: "'c scheduler \<Rightarrow> bool" where
  "one_cycle s \<longleftrightarrow> (\<forall>c. Suc c \<noteq> next_cycle s \<longrightarrow> cycle_pending s c = 0) \<and>
     (if maintenance_active s
      then if maintainers s = 0 then 0 < next_cycle s \<and> 0 < cycle_pending s (next_cycle s - Suc 0)
           else maintainers s = Suc 0 \<and> cycle_pending s (next_cycle s - Suc 0) = 0
      else maintainers s = 0 \<and> cycle_pending s (next_cycle s - Suc 0) = 0)"

text \<open>
  The registered cancel functions are those of the polls in progress, and once the scheduler is stopped every
  poll in progress runs under a cancelled context.
\<close>

definition polling :: "'c worker list \<Rightarrow> string \<Rightarrow> nat \<Rightarrow> bool" where
  "polling ps x c \<longleftrightarrow> (\<exists>i < length ps. \<exists>w. ps ! i = Polling w c \<and> work_thing w = x)"

definition cancellable :: "'c scheduler \<Rightarrow> bool" where
  "cancellable s \<longleftrightarrow> (\<forall>x c. active_poll_cancel s x = Some c \<longleftrightarrow> polling (pool s) x c) \<and>
     (stopped s \<longrightarrow> ran (active_poll_cancel s) \<subseteq> cancelled s) \<and>
     (stopped s \<and> \<not> ctx_cancelled s \<longrightarrow> (\<forall>p \<in> set (pool s). held p = None))"

subsection \<open>Taking work\<close>

definition takes :: "nat \<Rightarrow> 'c scheduled_work \<Rightarrow> 'c scheduled_work list \<Rightarrow> (string \<Rightarrow> bool) \<Rightarrow> bool" where
  "takes i w ws act \<longleftrightarrow> i < length ws \<and> w = ws ! i \<and> \<not> act (work_thing w) \<and> (\<forall>v \<in> set (take i ws). act (work_thing v))"

lemma nextWork_Some:
  assumes "nextWork s = Some (Some w, t)"
  obtains (command) i where "takes i w (commands s) (busy s)" "\<not> stopped s"
      "t = s\<lparr>commands := removeWork (commands s) i, busy := (busy s)(work_thing w := True)\<rparr>"
  | (poll) i where "takes i w (polls s) (busy s)" "\<not> stopped s" "running_polls s < int (workers s) - 1"
      "firstAvailable (busy s) (commands s) < 0"
      "t = s\<lparr>polls := removeWork (polls s) i, busy := (busy s)(work_thing w := True),
         running_polls := running_polls s + 1\<rparr>"
proof (cases "0 \<le> firstAvailable (busy s) (commands s)")
  case True
  with assms that(1) [of "nat (firstAvailable (busy s) (commands s))"] show ?thesis
    using firstAvailable_found [OF True] by (auto simp: nextWork_def takes_def Let_def split: if_splits)
next
  case False
  with assms have j: "0 \<le> firstAvailable (busy s) (polls s)" "\<not> stopped s" "running_polls s < int (workers s) - 1"
    by (auto simp: nextWork_def Let_def split: if_splits)
  with False assms that(2) [of "nat (firstAvailable (busy s) (polls s))"] show ?thesis
    using firstAvailable_found [OF j(1)] by (auto simp: nextWork_def takes_def Let_def split: if_splits)
qed

lemma nextWork_exit: "nextWork s = Some (None, t) \<Longrightarrow> stopped s \<and> t = s"
  by (auto simp: nextWork_def Let_def split: if_splits)

lemma nextWork_wait:
  "nextWork s = None \<longleftrightarrow> \<not> stopped s \<and> (\<forall>w \<in> set (commands s). busy s (work_thing w)) \<and>
     (running_polls s < int (workers s) - 1 \<longrightarrow> (\<forall>w \<in> set (polls s). busy s (work_thing w)))"
  using firstAvailable_none [of "busy s" "commands s"] firstAvailable_none [of "busy s" "polls s"]
  by (auto simp: nextWork_def Let_def not_le split: if_splits)

subsection \<open>Exclusion\<close>

lemma exclusive_same: "exclusive s \<Longrightarrow> pool t = pool s \<Longrightarrow> busy t = busy s \<Longrightarrow> exclusive t"
  by (simp add: exclusive_def)

lemma exclusive_unique:
  "exclusive s \<Longrightarrow> i < length (pool s) \<Longrightarrow> j < length (pool s) \<Longrightarrow> held (pool s ! i) = Some v \<Longrightarrow>
     held (pool s ! j) = Some w \<Longrightarrow> work_thing v = work_thing w \<Longrightarrow> i = j"
  unfolding exclusive_def by blast

lemma exclusive_swap:
  assumes "exclusive s" "i < length (pool s)" "held p = held (pool s ! i)" "pool t = (pool s)[i := p]" "busy t = busy s"
  shows "exclusive t"
proof -
  have "held (pool t ! j) = held (pool s ! j)" for j using assms(2-4) by (cases "j = i") auto
  then show ?thesis using assms(1,4,5) unfolding exclusive_def by auto
qed

lemma exclusive_take:
  assumes "exclusive s" "i < length (pool s)" "held (pool s ! i) = None" "\<not> busy s (work_thing w)"
    and "pool t = (pool s)[i := Holding w]" "busy t = (busy s)(work_thing w := True)"
  shows "exclusive t"
proof -
  have at: "held (pool t ! j) = (if j = i then Some w else held (pool s ! j))" for j
    using assms(2,5) by (cases "j = i") auto
  note one = exclusive_unique [OF assms(1)]
  have busy: "busy s x \<longleftrightarrow> (\<exists>j v. j < length (pool s) \<and> held (pool s ! j) = Some v \<and> work_thing v = x)" for x
    using assms(1) unfolding exclusive_def by blast
  have free: "work_thing v \<noteq> work_thing w" if "j < length (pool s)" "held (pool s ! j) = Some v" for j v
    using assms(4) busy that by blast
  have "busy t x \<longleftrightarrow> (\<exists>j v. j < length (pool s) \<and> held (pool t ! j) = Some v \<and> work_thing v = x)" for x
  proof (cases "x = work_thing w")
    case True
    with assms(2,6) at show ?thesis by (auto intro!: exI [of _ i])
  next
    case False
    then have "busy t x = busy s x" using assms(6) by simp
    also have "\<dots> \<longleftrightarrow> (\<exists>j v. j < length (pool s) \<and> held (pool t ! j) = Some v \<and> work_thing v = x)"
      unfolding busy at using False assms(3) by (metis option.distinct(1) option.inject)
    finally show ?thesis .
  qed
  moreover have "j = k" if "j < length (pool s)" "k < length (pool s)" "held (pool t ! j) = Some u"
    "held (pool t ! k) = Some v" "work_thing u = work_thing v" for j k u v
    using that one [of j k u v] free [of j u] free [of k v] unfolding at by (auto split: if_splits)
  moreover have "length (pool t) = length (pool s)" using assms(5) by simp
  ultimately show ?thesis unfolding exclusive_def by auto
qed

lemma exclusive_release:
  assumes "exclusive s" "i < length (pool s)" "held (pool s ! i) = Some w"
    and "pool t = (pool s)[i := Waiting]" "busy t = (busy s)(work_thing w := False)"
  shows "exclusive t"
proof -
  have at: "held (pool t ! j) = (if j = i then None else held (pool s ! j))" for j
    using assms(2,4) by (cases "j = i") auto
  note one = exclusive_unique [OF assms(1)]
  have busy: "busy s x \<longleftrightarrow> (\<exists>j v. j < length (pool s) \<and> held (pool s ! j) = Some v \<and> work_thing v = x)" for x
    using assms(1) unfolding exclusive_def by blast
  have "busy t x \<longleftrightarrow> (\<exists>j v. j < length (pool s) \<and> held (pool t ! j) = Some v \<and> work_thing v = x)" for x
  proof (cases "x = work_thing w")
    case True
    then have "\<not> busy t x" using assms(5) by simp
    moreover have False if "j < length (pool s)" "held (pool t ! j) = Some v" "work_thing v = x" for j v
      using that one [OF that(1) assms(2) _ assms(3), of v] True unfolding at by (simp split: if_splits)
    ultimately show ?thesis by blast
  next
    case False
    then have "busy t x = busy s x" using assms(5) by simp
    also have "\<dots> \<longleftrightarrow> (\<exists>j v. j < length (pool s) \<and> held (pool t ! j) = Some v \<and> work_thing v = x)"
      unfolding busy at using False assms(3) by (metis option.distinct(1) option.inject)
    finally show ?thesis .
  qed
  moreover have "j = k" if "j < length (pool s)" "k < length (pool s)" "held (pool t ! j) = Some u"
    "held (pool t ! k) = Some v" "work_thing u = work_thing v" for j k u v
    using that one [of j k u v] unfolding at by (auto split: if_splits)
  moreover have "length (pool t) = length (pool s)" using assms(4) by simp
  ultimately show ?thesis unfolding exclusive_def by auto
qed

lemma complete_simps [simp]:
  "pool (complete w s) = pool s" "busy (complete w s) = (busy s)(work_thing w := False)"
  "commands (complete w s) = commands s" "polls (complete w s) = polls s" "workers (complete w s) = workers s"
  "ctx_set (complete w s) = ctx_set s" "stopped (complete w s) = stopped s"
  "active_poll_cancel (complete w s) = active_poll_cancel s" "next_cycle (complete w s) = next_cycle s"
  "maintainers (complete w s) = maintainers s" "next_context (complete w s) = next_context s" "cancelled (complete w s) = cancelled s"
  by (simp_all add: complete_def Let_def split: option.split)

lemmas sched_defs = Start_def RequestMaintenance_def SubmitCommand_def CloseScheduler_def finishMaintenanceCycle_def
  queue_polls_def setActivePollCancel_def clearActivePollCancel_def with_worker_def leave_maintain_def start_poll_def
  end_poll_def cancel_context_def Let_def

lemma exclusive_step:
  assumes "sched_step s ev t" "exclusive s" "well_formed s"
  shows "exclusive t"
  using assms(1)
proof cases
  case start
  then show ?thesis using assms(2,3) by (cases "ctx_set s") (auto simp: Start_def exclusive_def well_formed_def)
next
  case (take i w u)
  from take(5) have "\<not> busy s (work_thing w)" "busy u = (busy s)(work_thing w := True)" "pool u = pool s"
    by (auto elim!: nextWork_Some simp: takes_def)
  with take show ?thesis by (intro exclusive_take [OF assms(2), of i w]) (simp_all add: with_worker_def)
next
  case (exit i u)
  then show ?thesis using nextWork_exit [OF exit(5)]
    by (intro exclusive_swap [OF assms(2), of i Exited]) (simp_all add: with_worker_def)
next
  case (handled i w)
  then show ?thesis by (intro exclusive_swap [OF assms(2), of i "Finishing w"]) (simp_all add: with_worker_def)
next
  case (poll_start i w)
  then show ?thesis
    by (intro exclusive_swap [OF assms(2), of i "Polling w (next_context s)"]) (simp_all add: sched_defs)
next
  case (poll_return i w c)
  then show ?thesis by (intro exclusive_swap [OF assms(2), of i "Finishing w"]) (simp_all add: sched_defs)
next
  case (completed i w)
  then show ?thesis by (intro exclusive_release [OF assms(2), of i w]) (simp_all add: with_worker_def)
qed (rule exclusive_same [OF assms(2)]; auto simp: sched_defs split: option.splits if_splits)+

subsection \<open>Shape\<close>

lemma removeWork_subset: "w \<in> set (removeWork ws i) \<Longrightarrow> w \<in> set ws"
  by (auto simp: removeWork_def dest: in_set_takeD in_set_dropD)

lemma takes_mem: "takes i w ws act \<Longrightarrow> w \<in> set ws"
  by (auto simp: takes_def)

definition worker_ok :: "'c worker \<Rightarrow> bool" where
  "worker_ok p \<longleftrightarrow> (\<forall>w. held p = Some w \<longrightarrow> work_command w = None \<longrightarrow> work_cycle w \<noteq> None) \<and>
     (\<forall>w c. p = Polling w c \<longrightarrow> work_command w = None)"

lemma well_formed_alt:
  "well_formed s \<longleftrightarrow> 2 \<le> workers s \<and> length (pool s) = (if ctx_set s then workers s else 0) \<and>
     (\<forall>w \<in> set (commands s). work_command w \<noteq> None) \<and>
     (\<forall>w \<in> set (polls s). work_command w = None \<and> work_cycle w \<noteq> None) \<and>
     (\<forall>p \<in> set (pool s). worker_ok p \<and> (\<not> stopped s \<longrightarrow> p \<noteq> Exited))"
  unfolding well_formed_def worker_ok_def by blast

lemma well_formed_same:
  "well_formed s \<Longrightarrow> pool t = pool s \<Longrightarrow> set (commands t) \<subseteq> set (commands s) \<Longrightarrow> set (polls t) \<subseteq> set (polls s) \<Longrightarrow>
     workers t = workers s \<Longrightarrow> ctx_set t = ctx_set s \<Longrightarrow> (stopped s \<longrightarrow> stopped t) \<Longrightarrow> well_formed t"
  by (auto simp: well_formed_alt)

lemma well_formed_worker:
  assumes "well_formed s" "worker_ok p" "\<not> stopped s \<longrightarrow> p \<noteq> Exited"
  shows "well_formed (with_worker i p s)"
  using assms set_update_subset_insert [of "pool s" i p] unfolding well_formed_alt with_worker_def by auto

lemma well_formed_at: "well_formed s \<Longrightarrow> i < length (pool s) \<Longrightarrow> worker_ok (pool s ! i)"
  by (simp add: well_formed_alt)

lemma well_formed_step:
  assumes "sched_step s ev t" "well_formed s"
  shows "well_formed t"
  using assms(1)
proof cases
  case start
  then show ?thesis using assms(2) by (auto simp: Start_def well_formed_alt worker_ok_def)
next
  case (submit thing c)
  then show ?thesis using assms(2)
    by (auto simp: SubmitCommand_def cancel_context_def Let_def well_formed_alt split: if_splits option.splits)
next
  case (discovered names)
  then show ?thesis using assms(2) by (auto simp: queue_polls_def leave_maintain_def Let_def well_formed_alt)
next
  case (take i w u)
  from take(5) have u: "well_formed u \<and> worker_ok (Holding w)"
    using assms(2)
  proof (cases rule: nextWork_Some)
    case (command j)
    then show ?thesis using assms(2) takes_mem [OF command(1)]
      by (auto simp: well_formed_alt worker_ok_def dest: removeWork_subset)
  next
    case (poll j)
    then show ?thesis using assms(2) takes_mem [OF poll(1)]
      by (auto simp: well_formed_alt worker_ok_def dest: removeWork_subset)
  qed
  with take show ?thesis by (auto intro: well_formed_worker)
next
  case (exit i u)
  then show ?thesis using assms(2) nextWork_exit [OF exit(5)] by (auto intro: well_formed_worker simp: worker_ok_def)
next
  case (handled i w)
  then show ?thesis using assms(2) by (auto intro!: well_formed_worker simp: worker_ok_def)
next
  case (poll_start i w)
  then show ?thesis using assms(2) well_formed_at [OF assms(2), of i] unfolding start_poll_def Let_def
    by (auto intro!: well_formed_worker well_formed_same [OF assms(2)] simp: worker_ok_def setActivePollCancel_def)
next
  case (poll_return i w c)
  then show ?thesis using assms(2) well_formed_at [OF assms(2), of i] unfolding end_poll_def
    by (auto intro!: well_formed_worker well_formed_same [OF assms(2)]
      simp: worker_ok_def clearActivePollCancel_def cancel_context_def)
next
  case (completed i w)
  then show ?thesis using assms(2)
    by (auto intro!: well_formed_worker well_formed_same [OF assms(2)] simp: worker_ok_def)
qed (rule well_formed_same [OF assms(2)]; auto simp: sched_defs)+

subsection \<open>Counters\<close>

lemma counted_step:
  assumes "sched_step s ev t" "counted s" "well_formed s"
  shows "counted t"
  using assms(1)
proof cases
  case start
  with assms(2,3) show ?thesis by (auto simp: Start_def counted_def well_formed_def)
next
  case (take i w u)
  from take(5) show ?thesis
  proof (cases rule: nextWork_Some)
    case (command j)
    with take assms(2,3) takes_mem [OF command(1)] show ?thesis
      by (auto simp: counted_def with_worker_def tally_update well_formed_def)
  next
    case (poll j)
    with take assms(2,3) takes_mem [OF poll(1)] show ?thesis
      by (auto simp: counted_def with_worker_def tally_update well_formed_def)
  qed
next
  case (completed i w)
  with assms(2,3) show ?thesis
    by (auto simp: counted_def with_worker_def tally_update complete_def Let_def split: option.split)
qed (use assms(2) nextWork_exit [of s] in
  \<open>auto simp: counted_def sched_defs tally_update split: option.splits if_splits\<close>)

lemma cycles_counted_step:
  assumes "sched_step s ev t" "cycles_counted s" "one_cycle s" "well_formed s"
  shows "cycles_counted t"
  using assms(1)
proof cases
  case start
  with assms(2,4) show ?thesis by (auto simp: Start_def cycles_counted_def well_formed_def)
next
  case (discovered names)
  have new: "tally (\<lambda>w. work_cycle w = Some c) (map (\<lambda>t. \<lparr>work_thing = t, work_command = None, work_cycle = Some d\<rparr>) ns)
     = (if c = d then int (length ns) else 0)" for c d ns
    by (induction ns) auto
  have "cycle_pending s (next_cycle s) = 0" using assms(3) by (simp add: one_cycle_def)
  with discovered assms(2) show ?thesis
    by (auto simp: cycles_counted_def queue_polls_def leave_maintain_def Let_def new)
next
  case (take i w u)
  from take(5) show ?thesis
  proof (cases rule: nextWork_Some)
    case (command j)
    with take assms(2,4) takes_mem [OF command(1)] show ?thesis
      by (auto simp: cycles_counted_def with_worker_def tally_update well_formed_def)
  next
    case (poll j)
    then have "work_command w = None" using assms(4) takes_mem [OF poll(1)] by (simp add: well_formed_def)
    with poll take assms(2) show ?thesis
      by (simp add: cycles_counted_def with_worker_def tally_update tally_remove takes_def)
  qed
next
  case (completed i w)
  with assms(2) show ?thesis
    by (auto simp: cycles_counted_def with_worker_def tally_update complete_def Let_def split: option.split)
qed (use assms(2) nextWork_exit [of s] in
  \<open>auto simp: cycles_counted_def sched_defs tally_update split: option.splits if_splits\<close>)

lemma one_cycle_same:
  "one_cycle s \<Longrightarrow> cycle_pending t = cycle_pending s \<Longrightarrow> next_cycle t = next_cycle s \<Longrightarrow>
     maintenance_active t = maintenance_active s \<Longrightarrow> maintainers t = maintainers s \<Longrightarrow> one_cycle t"
  by (simp only: one_cycle_def)

lemma one_cycle_step:
  assumes "sched_step s ev t" "one_cycle s" "cycles_counted s" "well_formed s"
  shows "one_cycle t"
  using assms(1)
proof cases
  case (completed i w)
  show ?thesis
  proof (cases "work_command w")
    case None
    with completed assms(4) obtain c where c: "work_cycle w = Some c"
      using well_formed_at [OF assms(4), of i] by (auto simp: worker_ok_def)
    have "0 < tally (polls_for c) (pool s)" using completed None c nth_mem [of i "pool s"]
      by (auto simp: tally_pos intro!: bexI [of _ "pool s ! i"])
    then have "0 < cycle_pending s c" using assms(3) tally_nonneg [of _ "polls s"] by (simp add: cycles_counted_def add_nonneg_pos)
    moreover from this have "Suc c = next_cycle s" using assms(2) unfolding one_cycle_def by force
    ultimately show ?thesis using completed None c assms(2)
      by (auto simp: one_cycle_def with_worker_def complete_def Let_def simp flip: \<open>Suc c = next_cycle s\<close> split: if_splits)
  qed (use completed in \<open>auto intro!: one_cycle_same [OF assms(2)] simp: with_worker_def complete_def\<close>)
next
  case (take i w u)
  from take(5) show ?thesis unfolding take(2)
    by (cases rule: nextWork_Some) (auto intro!: one_cycle_same [OF assms(2)] simp: with_worker_def)
next
  case request
  with assms(2) show ?thesis by (auto simp: one_cycle_def RequestMaintenance_def split: if_splits)
next
  case discovery_failed
  with assms(2) show ?thesis by (auto simp: one_cycle_def finishMaintenanceCycle_def leave_maintain_def split: if_splits)
next
  case (discovered names)
  have "cycle_pending s c = 0" for c
    using assms(2) discovered(3) by (cases "next_cycle s = Suc c") (auto simp: one_cycle_def split: if_splits)
  with discovered assms(2) show ?thesis
    by (auto simp: one_cycle_def queue_polls_def leave_maintain_def Let_def split: if_splits)
next
  case (exit i u)
  with nextWork_exit [OF exit(5)] show ?thesis by (auto intro!: one_cycle_same [OF assms(2)] simp: with_worker_def)
qed (rule one_cycle_same [OF assms(2)]; auto simp: sched_defs split: option.splits if_splits)+

subsection \<open>Cancellation\<close>

lemma cancellable_same:
  "cancellable s \<Longrightarrow> pool t = pool s \<Longrightarrow> active_poll_cancel t = active_poll_cancel s \<Longrightarrow> cancelled s \<subseteq> cancelled t \<Longrightarrow>
     stopped t = stopped s \<Longrightarrow> (ctx_cancelled s \<longrightarrow> ctx_cancelled t) \<Longrightarrow> cancellable t"
  unfolding cancellable_def by auto

lemma polling_fresh [simp]: "\<not> polling [] x c" "\<not> polling (replicate n Waiting) x c"
  by (auto simp: polling_def)

lemma polling_update:
  assumes "i < length ps"
  shows "polling (ps[i := p]) x c \<longleftrightarrow> (\<exists>w. p = Polling w c \<and> work_thing w = x) \<or>
     (\<exists>j < length ps. j \<noteq> i \<and> (\<exists>w. ps ! j = Polling w c \<and> work_thing w = x))"
proof -
  have "polling (ps[i := p]) x c \<longleftrightarrow> (\<exists>j < length ps. if j = i then \<exists>w. p = Polling w c \<and> work_thing w = x
      else \<exists>w. ps ! j = Polling w c \<and> work_thing w = x)"
    unfolding polling_def length_list_update by (intro ex_cong) (simp add: assms nth_list_update)
  then show ?thesis using assms by metis
qed

lemma polling_split:
  "i < length ps \<Longrightarrow> polling ps x c \<longleftrightarrow> (\<exists>w. ps ! i = Polling w c \<and> work_thing w = x) \<or>
     (\<exists>j < length ps. j \<noteq> i \<and> (\<exists>w. ps ! j = Polling w c \<and> work_thing w = x))"
  using polling_update [of i ps "ps ! i"] by simp

lemma polling_skip:
  assumes "i < length ps" "\<forall>w c. p \<noteq> Polling w c" "\<forall>w c. ps ! i \<noteq> Polling w c"
  shows "polling (ps[i := p]) = polling ps"
  using assms by (intro ext) (simp add: polling_update polling_split [OF assms(1)])

lemma all_update: "\<forall>q \<in> set ps. P q \<Longrightarrow> P p \<Longrightarrow> \<forall>q \<in> set (ps[i := p]). P q"
  using set_update_subset_insert [of ps i p] by blast

lemma cancellable_worker:
  assumes "cancellable s" "i < length (pool s)" "\<forall>w c. p \<noteq> Polling w c" "\<forall>w c. pool s ! i \<noteq> Polling w c"
    and "held p = None \<or> \<not> stopped s \<or> held (pool s ! i) \<noteq> None"
  shows "cancellable (with_worker i p s)"
proof -
  have "\<forall>q \<in> set ((pool s)[i := p]). held q = None" if "stopped s" "\<not> ctx_cancelled s"
  proof (rule all_update)
    show "\<forall>q \<in> set (pool s). held q = None" using assms(1) that by (simp add: cancellable_def)
    then show "held p = None" using assms(2,5) that(1) by auto
  qed
  then show ?thesis using assms(1) unfolding cancellable_def with_worker_def by (simp add: polling_skip assms(2-4))
qed

lemma cancellable_start_poll:
  assumes "cancellable s" "exclusive s" "i < length (pool s)" "pool s ! i = Holding w"
  shows "cancellable (start_poll i w s)"
proof -
  have other: "work_thing v \<noteq> work_thing w" if "j < length (pool s)" "pool s ! j = Polling v c" for j v c
    using exclusive_unique [OF assms(2) that(1) assms(3), of v w] that(2) assms(4) by auto
  have held: "stopped s \<longrightarrow> ctx_cancelled s"
    using assms(1,3,4) nth_mem [of i "pool s"] unfolding cancellable_def by force
  have reg: "((active_poll_cancel s)(work_thing w \<mapsto> d)) x = Some c \<longleftrightarrow> polling ((pool s)[i := Polling w d]) x c" for x c d
  proof (cases "x = work_thing w")
    case True
    with other show ?thesis using assms(3) by (auto simp: polling_update)
  next
    case False
    then have "polling ((pool s)[i := Polling w d]) x c \<longleftrightarrow> polling (pool s) x c"
      using assms(3,4) by (auto simp: polling_update polling_split [OF assms(3)])
    with False assms(1) show ?thesis by (simp add: cancellable_def)
  qed
  have "ran ((active_poll_cancel s)(work_thing w \<mapsto> d)) \<subseteq> insert d (ran (active_poll_cancel s))" for d
    by (auto simp: ran_def)
  then have "stopped s \<longrightarrow> ran ((active_poll_cancel s)(work_thing w \<mapsto> d)) \<subseteq> insert d (cancelled s)" for d
    using assms(1) unfolding cancellable_def by blast
  with reg held show ?thesis unfolding cancellable_def start_poll_def setActivePollCancel_def with_worker_def Let_def
    by (auto simp del: fun_upd_apply)
qed

lemma cancellable_end_poll:
  assumes "cancellable s" "exclusive s" "i < length (pool s)" "pool s ! i = Polling w k"
  shows "cancellable (end_poll i w k s)"
proof -
  have other: "work_thing v \<noteq> work_thing w" if "j < length (pool s)" "j \<noteq> i" "pool s ! j = Polling v c" for j v c
    using exclusive_unique [OF assms(2) that(1) assms(3), of v w] that(2,3) assms(4) by auto
  have held: "stopped s \<longrightarrow> ctx_cancelled s"
    using assms(1,3,4) nth_mem [of i "pool s"] unfolding cancellable_def by force
  have reg: "((active_poll_cancel s)(work_thing w := None)) x = Some c \<longleftrightarrow> polling ((pool s)[i := Finishing w]) x c" for x c
  proof (cases "x = work_thing w")
    case True
    with other show ?thesis using assms(3) by (auto simp: polling_update)
  next
    case False
    then have "polling ((pool s)[i := Finishing w]) x c \<longleftrightarrow> polling (pool s) x c"
      using assms(3,4) by (auto simp: polling_update polling_split [OF assms(3)])
    with False assms(1) show ?thesis by (simp add: cancellable_def)
  qed
  have "ran ((active_poll_cancel s)(work_thing w := None)) \<subseteq> ran (active_poll_cancel s)"
    by (auto simp: ran_def)
  then have "stopped s \<longrightarrow> ran ((active_poll_cancel s)(work_thing w := None)) \<subseteq> insert k (cancelled s)"
    using assms(1) unfolding cancellable_def by blast
  with reg held show ?thesis
    unfolding cancellable_def end_poll_def clearActivePollCancel_def with_worker_def cancel_context_def
    by (auto simp del: fun_upd_apply)
qed

lemma cancellable_step:
  assumes "sched_step s ev t" "cancellable s" "exclusive s" "well_formed s"
  shows "cancellable t"
  using assms(1)
proof cases
  case start
  with assms(2,4) show ?thesis by (auto simp: Start_def cancellable_def well_formed_def)
next
  case close
  with assms(2,4) show ?thesis by (auto simp: CloseScheduler_def cancellable_def well_formed_def)
next
  case (take i w u)
  from take(5) have "cancellable u \<and> \<not> stopped u \<and> pool u = pool s"
    by (cases rule: nextWork_Some) (auto intro!: cancellable_same [OF assms(2)])
  with take show ?thesis by (auto intro!: cancellable_worker)
next
  case (exit i u)
  with nextWork_exit [OF exit(5)] show ?thesis using assms(2) by (auto intro!: cancellable_worker)
next
  case (handled i w)
  with assms(2) show ?thesis by (auto intro!: cancellable_worker)
next
  case (completed i w)
  have "cancellable (complete w s)" by (rule cancellable_same [OF assms(2)]) (simp_all add: complete_def Let_def split: option.split)
  with completed show ?thesis by (auto intro!: cancellable_worker)
next
  case (poll_start i w)
  with assms show ?thesis by (auto intro: cancellable_start_poll)
next
  case (poll_return i w c)
  with assms show ?thesis by (auto intro: cancellable_end_poll)
qed (rule cancellable_same [OF assms(2)]; auto simp: sched_defs split: option.splits if_splits)+

section \<open>Runs\<close>

definition sched_inv :: "'c scheduler \<Rightarrow> bool" where
  "sched_inv s \<longleftrightarrow> exclusive s \<and> well_formed s \<and> counted s \<and> cycles_counted s \<and> one_cycle s \<and> cancellable s"

lemma sched_inv_init: "sched_inv (NewScheduler n)"
  by (simp add: sched_inv_def NewScheduler_def exclusive_def well_formed_def counted_def cycles_counted_def
    one_cycle_def cancellable_def)

lemmas sched_inv_steps = exclusive_step well_formed_step counted_step cycles_counted_step one_cycle_step cancellable_step

interpretation sched: event_system "\<lambda>s. \<exists>n. s = NewScheduler n" sched_step sched_inv
  by unfold_locales (use sched_inv_init in blast, simp add: sched_inv_def, blast intro: sched_inv_steps)

lemma reachable_inv: "steps sched_step (NewScheduler n) es s \<Longrightarrow> sched_inv s"
  by (rule sched.run_inv [OF exI [of _ n]]) auto

subsection \<open>Order of the commands of a device\<close>

fun submitted :: "string \<Rightarrow> 'c sched_event list \<Rightarrow> 'c list" where
  "submitted x [] = []"
| "submitted x (Submitted y c # es) = (if y = x then c # submitted x es else submitted x es)"
| "submitted x (_ # es) = submitted x es"

definition commands_of :: "string \<Rightarrow> 'c scheduled_work list \<Rightarrow> 'c list" where
  "commands_of x ws = List.map_filter work_command (filter (\<lambda>w. work_thing w = x) ws)"

fun begun :: "string \<Rightarrow> 'c sched_event list \<Rightarrow> 'c list" where
  "begun x [] = []"
| "begun x (Took i w # es) = commands_of x [w] @ begun x es"
| "begun x (_ # es) = begun x es"

lemma submitted_append [simp]: "submitted x (es @ fs) = submitted x es @ submitted x fs"
  by (induction x es rule: submitted.induct) auto

lemma begun_append [simp]: "begun x (es @ fs) = begun x es @ begun x fs"
  by (induction x es rule: begun.induct) auto

lemma commands_of_append [simp]: "commands_of x (ws @ vs) = commands_of x ws @ commands_of x vs"
  by (simp add: commands_of_def List.map_filter_def)

lemma commands_of_simps [simp]:
  "commands_of x [] = []" "work_thing w \<noteq> x \<Longrightarrow> commands_of x [w] = []"
  "commands_of x [\<lparr>work_thing = x, work_command = Some c, work_cycle = k\<rparr>] = [c]"
  by (simp_all add: commands_of_def List.map_filter_def)

lemma commands_of_take:
  assumes "takes i w ws act"
  shows "commands_of x ws = commands_of x [w] @ commands_of x (removeWork ws i)"
proof -
  have ws: "ws = take i ws @ [w] @ drop (i + 1) ws" using assms id_take_nth_drop [of i ws] by (simp add: takes_def)
  have "filter (\<lambda>v. work_thing v = x) (take i ws) = []" if "work_thing w = x"
    using assms that by (auto simp: takes_def filter_empty_conv)
  then have "commands_of x (take i ws) = [] \<or> commands_of x [w] = []"
    by (cases "work_thing w = x") (simp_all add: commands_of_def)
  then show ?thesis by (subst ws, unfold removeWork_def commands_of_append) auto
qed

lemma order_step:
  assumes "sched_step s ev t" "well_formed s"
  shows "commands_of x (commands s) @ submitted x [ev] = begun x [ev] @ commands_of x (commands t)"
  using assms(1)
proof cases
  case (submit thing c)
  then show ?thesis by (auto simp: SubmitCommand_def cancel_context_def Let_def split: if_splits option.splits)
next
  case (take i w u)
  from take(5) show ?thesis
  proof (cases rule: nextWork_Some)
    case (command j)
    with take show ?thesis by (simp add: with_worker_def commands_of_take)
  next
    case (poll j)
    then have "work_command w = None" using assms(2) takes_mem [OF poll(1)] by (simp add: well_formed_def)
    with poll take show ?thesis by (simp add: with_worker_def commands_of_def List.map_filter_def)
  qed
next
  case (exit i u)
  with nextWork_exit [OF exit(5)] show ?thesis by (simp add: with_worker_def)
qed (auto simp: sched_defs)

lemma order_steps:
  assumes "steps sched_step (NewScheduler n) es s"
  shows "submitted x es = begun x es @ commands_of x (commands s)"
  using assms
proof induction
  case steps_nil
  show ?case by (simp add: NewScheduler_def)
next
  case (steps_snoc es t ev u)
  with order_step [OF steps_snoc(2), of x] reachable_inv [OF steps_snoc(1)] show ?case by (simp add: sched_inv_def)
qed

subsection \<open>Progress of the workers\<close>

fun worker_event :: "'c sched_event \<Rightarrow> bool" where
  "worker_event (Took i w) = True"
| "worker_event (WorkerExited i) = True"
| "worker_event (CommandHandled i) = True"
| "worker_event (PollStarted i) = True"
| "worker_event (PollReturned i) = True"
| "worker_event (Completed i) = True"
| "worker_event _ = False"

fun rank :: "'c worker \<Rightarrow> nat" where
  "rank Exited = 0"
| "rank Waiting = 1"
| "rank (Finishing w) = 2"
| "rank (Polling w c) = 3"
| "rank (Holding w) = 4"

definition remaining :: "'c scheduler \<Rightarrow> nat" where
  "remaining s = 4 * (length (commands s) + length (polls s)) + sum_list (map rank (pool s))"

lemma rank_update:
  "i < length ps \<Longrightarrow> sum_list (map rank (ps[i := p])) + rank (ps ! i) = sum_list (map rank ps) + rank p"
  by (induction ps arbitrary: i) (auto split: nat.split)

lemma length_removeWork: "i < length ws \<Longrightarrow> length (removeWork ws i) + 1 = length ws"
  by (simp add: removeWork_def)

lemma worker_step_decreases:
  assumes "sched_step s ev t" "worker_event ev"
  shows "remaining t < remaining s"
  using assms(1)
proof cases
  case (take i w u)
  from take(5) show ?thesis
  proof (cases rule: nextWork_Some)
    case (command j)
    then show ?thesis using take rank_update [of i "pool s" "Holding w"] length_removeWork [of j "commands s"]
      by (simp add: remaining_def with_worker_def takes_def)
  next
    case (poll j)
    then show ?thesis using take rank_update [of i "pool s" "Holding w"] length_removeWork [of j "polls s"]
      by (simp add: remaining_def with_worker_def takes_def)
  qed
next
  case (exit i u)
  then show ?thesis using nextWork_exit [OF exit(5)] rank_update [of i "pool s" Exited]
    by (simp add: remaining_def with_worker_def)
next
  case (handled i w)
  then show ?thesis using rank_update [of i "pool s" "Finishing w"] by (simp add: remaining_def with_worker_def)
next
  case (poll_start i w)
  then show ?thesis using rank_update [of i "pool s" "Polling w (next_context s)"]
    by (simp add: remaining_def start_poll_def with_worker_def setActivePollCancel_def Let_def)
next
  case (poll_return i w c)
  then show ?thesis using rank_update [of i "pool s" "Finishing w"]
    by (simp add: remaining_def end_poll_def with_worker_def clearActivePollCancel_def cancel_context_def)
next
  case (completed i w)
  then show ?thesis using rank_update [of i "pool s" Waiting] by (simp add: remaining_def with_worker_def)
qed (use assms(2) in simp_all)

lemma worker_steps_bound:
  "steps sched_step s es t \<Longrightarrow> list_all worker_event es \<Longrightarrow> length es + remaining t \<le> remaining s"
  by (induction rule: steps.induct) (fastforce dest: worker_step_decreases)+

lemma remaining_bound: "remaining s \<le> 4 * (length (commands s) + length (polls s)) + 4 * length (pool s)"
proof -
  have "rank p \<le> 4" for p :: "'a worker" by (cases p) auto
  then have "sum_list (map rank ps) \<le> 4 * length ps" for ps :: "'a worker list"
    by (induction ps) (auto intro: add_mono)
  then show ?thesis by (simp add: remaining_def)
qed

text \<open>A worker that holds work can go on; an idle scheduler hands out whatever is queued.\<close>

lemma holding_enabled:
  assumes "i < length (pool s)" "held (pool s ! i) = Some w" "well_formed s"
  shows "\<exists>ev t. sched_step s ev t \<and> worker_event ev"
proof (cases "pool s ! i")
  case (Holding v)
  then show ?thesis using assms(1) by (cases "work_command v") (fastforce intro: sched_step.intros)+
qed (use assms in \<open>fastforce intro: sched_step.intros\<close>)+

lemma idle_enabled:
  assumes "sched_inv s" "ctx_set s" "\<forall>p \<in> set (pool s). held p = None" "Waiting \<in> set (pool s)"
    and "stopped s \<or> commands s \<noteq> [] \<or> polls s \<noteq> []"
  shows "\<exists>ev t. sched_step s ev t \<and> worker_event ev"
proof -
  obtain i where i: "i < length (pool s)" "pool s ! i = Waiting" using assms(4) by (auto simp: in_set_conv_nth)
  have free: "\<not> busy s x" for x using assms(1,3) by (auto simp: sched_inv_def exclusive_def)
  have "\<not> (\<exists>p \<in> set (pool s). is_poll p)" using assms(3) by (auto simp: is_poll_def)
  then have "tally is_poll (pool s) = 0" using tally_nonneg [of is_poll "pool s"] by (simp flip: tally_pos)
  then have "running_polls s < int (workers s) - 1" using assms(1) by (auto simp: sched_inv_def counted_def well_formed_def)
  then have "nextWork s \<noteq> None" using free assms(5) unfolding nextWork_wait by (auto simp: neq_Nil_conv)
  then obtain w t where "nextWork s = Some (w, t)" by auto
  then show ?thesis using i by (cases w) (fastforce intro: sched_step.intros)+
qed

lemma enabled_or_done:
  assumes "sched_inv s" "ctx_set s"
  shows "(if stopped s then \<forall>p \<in> set (pool s). p = Exited
      else commands s = [] \<and> polls s = [] \<and> (\<forall>p \<in> set (pool s). p = Waiting)) \<or>
    (\<exists>ev t. sched_step s ev t \<and> worker_event ev)"
proof (cases "\<exists>i w. i < length (pool s) \<and> held (pool s ! i) = Some w")
  case True
  then show ?thesis using holding_enabled [of _ s] assms(1) by (auto simp: sched_inv_def)
next
  case False
  then have none: "\<forall>p \<in> set (pool s). held p = None" by (auto simp: in_set_conv_nth)
  have kind: "p = Waiting \<or> p = Exited" if "p \<in> set (pool s)" for p using none that by (cases p) auto
  have up: "p \<noteq> Exited" if "\<not> stopped s" "p \<in> set (pool s)" for p
    using assms(1) that by (auto simp: sched_inv_def well_formed_def)
  have some: "pool s \<noteq> []" using assms by (auto simp: sched_inv_def well_formed_def)
  show ?thesis
  proof (cases "Waiting \<in> set (pool s)")
    case True
    then show ?thesis using idle_enabled [OF assms none] kind up by (auto split: if_splits)
  next
    case False
    then have all: "\<forall>p \<in> set (pool s). p = Exited" using kind by blast
    moreover have "hd (pool s) \<in> set (pool s)" using some by simp
    ultimately have "stopped s" using up by blast
    with all show ?thesis by simp
  qed
qed

lemma one_worker_left:
  assumes "sched_inv s" "ctx_set s"
  shows "\<exists>p \<in> set (pool s). \<not> is_poll p"
proof (rule ccontr)
  assume "\<not> ?thesis"
  then have "\<forall>p \<in> set (pool s). is_poll p" by blast
  then have "tally is_poll (pool s) = int (length (pool s))" by (rule tally_all)
  then show False using assms by (auto simp: sched_inv_def counted_def well_formed_def)
qed

lemma outstanding_polls:
  assumes "cycles_counted s" "well_formed s"
  shows "(\<exists>c. 0 < cycle_pending s c) \<longleftrightarrow> polls s \<noteq> [] \<or> (\<exists>p \<in> set (pool s). is_poll p)"
proof -
  have "(0 < a + b) \<longleftrightarrow> 0 < a \<or> 0 < b" if "0 \<le> a" "0 \<le> b" for a b :: int using that by linarith
  then have "0 < cycle_pending s c \<longleftrightarrow> (\<exists>w \<in> set (polls s). work_cycle w = Some c) \<or> (\<exists>p \<in> set (pool s). polls_for c p)" for c
    using assms(1) by (simp add: cycles_counted_def tally_pos)
  moreover have "(\<exists>c. \<exists>w \<in> set (polls s). work_cycle w = Some c) \<longleftrightarrow> polls s \<noteq> []"
    using assms(2) by (fastforce simp: well_formed_def neq_Nil_conv)
  moreover have "(\<exists>c. \<exists>p \<in> set (pool s). polls_for c p) \<longleftrightarrow> (\<exists>p \<in> set (pool s). is_poll p)"
    using assms(2) unfolding well_formed_def polls_for_def is_poll_def by blast
  ultimately show ?thesis by blast
qed

lemma started_steps: "steps sched_step s es t \<Longrightarrow> ctx_set s \<Longrightarrow> ctx_set t"
proof (induction rule: steps.induct)
  case (steps_snoc es t ev u)
  from steps_snoc(2) have "ctx_set t \<longrightarrow> ctx_set u"
    by cases (auto simp: sched_defs elim!: nextWork_Some dest: nextWork_exit split: if_splits option.splits)
  with steps_snoc show ?case by simp
qed

section \<open>Properties\<close>

text \<open>A run used below: the scheduler is started, a command is queued and taken, a second one is queued.\<close>

definition demo_work :: "nat scheduled_work" where
  "demo_work = \<lparr>work_thing = ''a'', work_command = Some 1, work_cycle = None\<rparr>"

definition demo_events :: "nat sched_event list" where
  "demo_events = [Started, Submitted ''a'' 1, Took 0 demo_work, Submitted ''a'' 2]"

definition demo_state :: "nat scheduler" where
  "demo_state = (NewScheduler 2)\<lparr>ctx_set := True, busy := (\<lambda>_. False)(''a'' := True),
     commands := [\<lparr>work_thing = ''a'', work_command = Some 2, work_cycle = None\<rparr>], pool := [Holding demo_work, Waiting]\<rparr>"

lemma demo_run: "steps sched_step (NewScheduler 2) demo_events demo_state"
proof -
  define s1 where "s1 = Start (NewScheduler 2 :: nat scheduler)"
  define s2 where "s2 = s1\<lparr>commands := [demo_work]\<rparr>"
  define s3 where "s3 = demo_state\<lparr>commands := []\<rparr>"
  note defs = s1_def s2_def s3_def demo_state_def Start_def NewScheduler_def demo_work_def
  have "sched_step (NewScheduler 2) Started s1" unfolding s1_def by (rule start)
  moreover have "sched_step s1 (Submitted ''a'' 1) s2"
    by (rule submit) (simp add: defs SubmitCommand_def cancel_context_def)
  moreover have "sched_step s2 (Took 0 demo_work) (with_worker 0 (Holding demo_work) (s2\<lparr>commands := [], busy := (busy s2)(''a'' := True)\<rparr>))"
    by (rule take) (simp_all add: defs nextWork_def removeWork_def numeral_2_eq_2)
  moreover have "with_worker 0 (Holding demo_work) (s2\<lparr>commands := [], busy := (busy s2)(''a'' := True)\<rparr>) = s3"
    by (simp add: defs with_worker_def numeral_2_eq_2)
  moreover have "sched_step s3 (Submitted ''a'' 2) demo_state"
    by (rule submit) (simp add: defs SubmitCommand_def cancel_context_def)
  ultimately show ?thesis unfolding demo_events_def by (auto intro!: steps_Cons steps_nil)
qed

text \<open>A second run: a worker has taken a maintenance poll and not yet started it.\<close>

definition poll_work :: "nat scheduled_work" where
  "poll_work = \<lparr>work_thing = ''a'', work_command = None, work_cycle = Some 0\<rparr>"

definition poll_events :: "nat sched_event list" where
  "poll_events = [Started, MaintenanceRequested, Discovered [''a''], Took 0 poll_work]"

definition taken_state :: "nat scheduler" where
  "taken_state = (NewScheduler 2)\<lparr>ctx_set := True, busy := (\<lambda>_. False)(''a'' := True), running_polls := 1,
     maintenance_active := True, cycle_pending := (\<lambda>_. 0)(0 := 1), next_cycle := 1, pool := [Holding poll_work, Waiting]\<rparr>"

lemmas taken_defs = taken_state_def poll_work_def NewScheduler_def

lemma poll_run: "steps sched_step (NewScheduler 2) poll_events taken_state"
proof -
  define s1 where "s1 = Start (NewScheduler 2 :: nat scheduler)"
  define s2 where "s2 = RequestMaintenance s1"
  define s3 where "s3 = leave_maintain (queue_polls [''a''] s2)"
  note defs = s1_def s2_def s3_def Start_def RequestMaintenance_def leave_maintain_def queue_polls_def taken_defs
  define u where "u = s3\<lparr>polls := [], busy := (busy s3)(''a'' := True), running_polls := 1\<rparr>"
  have "sched_step (NewScheduler 2) Started s1" unfolding s1_def by (rule start)
  moreover have "sched_step s1 MaintenanceRequested s2" unfolding s2_def by (rule request)
  moreover have "sched_step s2 (Discovered [''a'']) s3" unfolding s3_def by (rule discovered) (simp add: defs)
  moreover have "sched_step s3 (Took 0 poll_work) (with_worker 0 (Holding poll_work) u)"
    by (rule take) (simp_all add: u_def defs nextWork_def removeWork_def numeral_2_eq_2)
  moreover have "with_worker 0 (Holding poll_work) u = taken_state"
    by (simp add: u_def defs with_worker_def numeral_2_eq_2)
  ultimately show ?thesis unfolding poll_events_def by (auto intro!: steps_Cons steps_nil)
qed

text \<open>
  C31. Work is serialized per device and a worker is left for commands.  After any interleaving of callers,
  workers and maintenance, two workers never hold work of the same device, a device is marked active exactly
  while a worker holds work of it, \<^verbatim>\<open>runningPolls\<close> is the number of polls in progress, and once started at
  least one worker is not occupied by a poll.
\<close>

theorem scheduler_serializes:
  assumes "steps sched_step (NewScheduler n) es s"
  shows "(\<forall>i j v w. i < length (pool s) \<and> j < length (pool s) \<and> held (pool s ! i) = Some v \<and>
        held (pool s ! j) = Some w \<and> work_thing v = work_thing w \<longrightarrow> i = j) \<and>
    (\<forall>x. busy s x \<longleftrightarrow> (\<exists>p \<in> set (pool s). \<exists>w. held p = Some w \<and> work_thing w = x)) \<and>
    running_polls s = tally is_poll (pool s) \<and>
    (ctx_set s \<longrightarrow> (\<exists>p \<in> set (pool s). \<not> is_poll p))"
proof -
  have inv: "sched_inv s" by (rule reachable_inv [OF assms])
  then have ex: "exclusive s" by (simp add: sched_inv_def)
  have "busy s x \<longleftrightarrow> (\<exists>i w. i < length (pool s) \<and> held (pool s ! i) = Some w \<and> work_thing w = x)" for x
    using ex unfolding exclusive_def by blast
  also have "\<dots> x \<longleftrightarrow> (\<exists>p \<in> set (pool s). \<exists>w. held p = Some w \<and> work_thing w = x)" for x
    by (metis in_set_conv_nth)
  finally have "\<forall>x. busy s x \<longleftrightarrow> (\<exists>p \<in> set (pool s). \<exists>w. held p = Some w \<and> work_thing w = x)" by blast
  moreover have "running_polls s = tally is_poll (pool s)" using inv by (simp add: sched_inv_def counted_def)
  ultimately show ?thesis using one_worker_left [OF inv] exclusive_unique [OF ex] by blast
qed

theorem scheduler_serializes_witness:
  "running_polls demo_state = tally is_poll (pool demo_state) \<and> (\<exists>p \<in> set (pool demo_state). \<not> is_poll p)"
  using scheduler_serializes [OF demo_run] by (auto simp: demo_state_def)

text \<open>
  C32. Commands of a device are begun in the order of their submission.  In every run the accepted commands
  of a device are, in order, those the workers took followed by those still queued: none is lost, repeated
  or overtaken.
\<close>

theorem commands_in_order:
  assumes "steps sched_step (NewScheduler n) es s"
  shows "submitted x es = begun x es @ commands_of x (commands s)"
  by (rule order_steps [OF assms])

theorem commands_in_order_witness:
  "submitted ''a'' demo_events = begun ''a'' demo_events @ commands_of ''a'' (commands demo_state) \<and>
   submitted ''a'' demo_events = [1, 2] \<and> commands_of ''a'' (commands demo_state) = [2]"
  using commands_in_order [OF demo_run, of "''a''"]
  by (simp add: demo_events_def demo_state_def)



text \<open>
  C34. Maintenance cycles are coalesced and end.  In every reachable state at most one goroutine is in
  \<^verbatim>\<open>maintain\<close>, and the flag that makes \<^verbatim>\<open>RequestMaintenance\<close> ignore a tick is set exactly while that goroutine
  runs or a poll of its cycle is queued or in progress; hence a tick starts a new cycle as soon as the
  previous one is over.
\<close>

theorem maintenance_coalesced:
  assumes "steps sched_step (NewScheduler n) es s"
  shows "maintainers s \<le> 1 \<and>
    (maintenance_active s \<longleftrightarrow> maintainers s = 1 \<or> polls s \<noteq> [] \<or> (\<exists>p \<in> set (pool s). is_poll p)) \<and>
    (maintainers s = 1 \<longrightarrow> polls s = [] \<and> \<not> (\<exists>p \<in> set (pool s). is_poll p))"
proof -
  have inv: "sched_inv s" by (rule reachable_inv [OF assms])
  then have one: "one_cycle s" and out: "(\<exists>c. 0 < cycle_pending s c) \<longleftrightarrow> polls s \<noteq> [] \<or> (\<exists>p \<in> set (pool s). is_poll p)"
    using outstanding_polls by (auto simp: sched_inv_def)
  from one have last: "(\<exists>c. 0 < cycle_pending s c) \<longleftrightarrow> 0 < cycle_pending s (next_cycle s - Suc 0)"
    unfolding one_cycle_def by (metis diff_Suc_Suc less_irrefl minus_nat.diff_0)
  define q where "q \<longleftrightarrow> (\<exists>p \<in> set (pool s). is_poll p)"
  have pending: "0 < cycle_pending s (next_cycle s - Suc 0) \<longleftrightarrow> polls s \<noteq> [] \<or> q"
    using out last by (simp add: q_def)
  with one show ?thesis unfolding q_def [symmetric] one_cycle_def
    by (cases "maintenance_active s"; cases "maintainers s = 0") auto
qed

theorem maintenance_coalesced_witness:
  "maintainers demo_state \<le> 1 \<and> \<not> maintenance_active demo_state"
  using maintenance_coalesced [OF demo_run] by (simp add: demo_state_def NewScheduler_def)

text \<open>
  C35. Polls give way.  In every reachable state a submitted command cancels the poll of its device that runs
  under a registered context, and leaves every other context alone; once the scheduler is closed, every poll
  that runs or still starts has a cancelled context.
\<close>

theorem polls_give_way:
  assumes "steps sched_step (NewScheduler n) es s"
  shows "(\<forall>x c t. SubmitCommand x c s = Inr t \<longrightarrow>
       cancelled t = cancelled s \<union> {k. \<exists>w. Polling w k \<in> set (pool s) \<and> work_thing w = x}) \<and>
    (stopped s \<longrightarrow> (\<forall>w k. Polling w k \<in> set (pool s) \<longrightarrow> k \<in> cancelled s))"
proof -
  have can: "cancellable s" using reachable_inv [OF assms] by (simp add: sched_inv_def)
  have poll: "polling (pool s) x k \<longleftrightarrow> (\<exists>w. Polling w k \<in> set (pool s) \<and> work_thing w = x)" for x k
    unfolding polling_def by (metis in_set_conv_nth)
  have reg: "active_poll_cancel s x = Some k \<longleftrightarrow> (\<exists>w. Polling w k \<in> set (pool s) \<and> work_thing w = x)" for x k
    using can unfolding cancellable_def poll by blast
  have "cancelled t = cancelled s \<union> {k. active_poll_cancel s x = Some k}" if "SubmitCommand x c s = Inr t" for x c t
    using that by (auto simp: SubmitCommand_def cancel_context_def Let_def split: if_splits option.splits)
  moreover have "k \<in> cancelled s" if "stopped s" "Polling w k \<in> set (pool s)" for w k
    using can that reg [of "work_thing w" k] unfolding cancellable_def by (blast intro: ranI)
  ultimately show ?thesis unfolding reg by blast
qed

theorem polls_give_way_witness:
  "\<exists>s t. steps sched_step (NewScheduler 2) (poll_events @ [PollStarted 0]) s \<and>
     SubmitCommand ''a'' (1 :: nat) s = Inr t \<and> cancelled s = {} \<and> cancelled t = {0}"
proof -
  define s where "s = start_poll 0 poll_work taken_state"
  have run: "steps sched_step (NewScheduler 2) (poll_events @ [PollStarted 0]) s"
    unfolding s_def by (rule steps_snoc [OF poll_run poll_start]) (simp_all add: taken_defs)
  obtain t where t: "SubmitCommand ''a'' (1 :: nat) s = Inr t"
    by (simp add: s_def SubmitCommand_def taken_defs start_poll_def with_worker_def setActivePollCancel_def Let_def)
  have "cancelled t = cancelled s \<union> {k. \<exists>w. Polling w k \<in> set (pool s) \<and> work_thing w = ''a''}"
    using polls_give_way [OF run] t by blast
  moreover have "cancelled s = {}" "Polling w k \<in> set (pool s) \<longleftrightarrow> w = poll_work \<and> k = 0" for w k
    by (auto simp: s_def taken_defs start_poll_def with_worker_def setActivePollCancel_def Let_def)
  ultimately show ?thesis using run t by (auto simp: poll_work_def)
qed

text \<open>
  The cancellation only reaches registered polls: when the command arrives after a worker took the poll and
  before it registered its context, the poll starts uncancelled although a command of its device waits.
\<close>

lemma late_poll_uncancelled:
  "\<exists>s. steps sched_step (NewScheduler 2) (poll_events @ [Submitted ''a'' 1, PollStarted 0]) s \<and>
     Polling poll_work 0 \<in> set (pool s) \<and> 0 \<notin> cancelled s \<and> commands_of ''a'' (commands s) = [1]"
proof -
  define s where "s = taken_state\<lparr>commands := [demo_work]\<rparr>"
  have "sched_step taken_state (Submitted ''a'' 1) s"
    by (rule submit) (simp add: s_def taken_defs SubmitCommand_def cancel_context_def demo_work_def)
  then have run: "steps sched_step (NewScheduler 2) (poll_events @ [Submitted ''a'' 1]) s" by (rule steps_snoc [OF poll_run])
  have "steps sched_step (NewScheduler 2) ((poll_events @ [Submitted ''a'' 1]) @ [PollStarted 0]) (start_poll 0 poll_work s)"
    by (rule steps_snoc [OF run poll_start]) (simp_all add: s_def taken_defs)
  then show ?thesis
    by (intro exI [of _ "start_poll 0 poll_work s"])
      (simp add: s_def taken_defs demo_work_def start_poll_def with_worker_def setActivePollCancel_def Let_def)
qed

end
