(* ===== verification/Sparkplug.thy ===== *)
theory Sparkplug
  imports Prelude
begin

text \<open>
  Model of the Sparkplug codec of the rig, \<^verbatim>\<open>src/rig/internal/sparkplug/sparkplug.go\<close>: the protobuf encoding
  of payloads and metrics and the decoder for payloads and REDCON commands.  Integers keep their width; a
  \<^verbatim>\<open>float64\<close> is its bit pattern; a Go string is the list of its bytes as characters.
\<close>

section \<open>Go results\<close>

text \<open>An \<^verbatim>\<open>error\<close>, or the run-time panic of a slice expression whose bounds are out of order.\<close>

datatype go_error = Fail string | SlicePanic

text \<open>Conversions between strings and bytes.\<close>

definition byte_of_char :: "char \<Rightarrow> u8" where
  "byte_of_char c = word_of_nat (of_char c)"

definition char_of_byte :: "u8 \<Rightarrow> char" where
  "char_of_byte b = char_of (unat b)"

lemma char_of_byte_of_char [simp]: "char_of_byte (byte_of_char c) = c"
proof -
  have "(of_char c :: nat) < 256" by simp
  then show ?thesis by (simp add: char_of_byte_def byte_of_char_def unat_of_nat)
qed

lemma byte_of_char_of_byte [simp]: "byte_of_char (char_of_byte b) = b"
  using unat_bounds(1) [of b] by (simp add: char_of_byte_def byte_of_char_def)

lemma string_bytes [simp]: "map char_of_byte (map byte_of_char s) = s" "map byte_of_char (map char_of_byte bs) = bs"
  by (simp_all add: comp_def)

text \<open>The verb \<^verbatim>\<open>%d\<close>.\<close>

definition format_int :: "int \<Rightarrow> string" where
  "format_int k = (if k < 0 then ''-'' else []) @ decimal_string (nat \<bar>k\<bar>)"

section \<open>Data\<close>

text \<open>
  A metric value is built from its \<^verbatim>\<open>Kind\<close> and the field that belongs to it; a kind outside the constants is
  kept as a number.
\<close>

datatype metric_value =
  MetricInt32 u32
| MetricUInt64 u64
| MetricDouble u64
| MetricBoolean bool
| MetricString string
| MetricOther int

record metric =
  metric_name :: string
  metric_val :: metric_value

record payload =
  timestamp :: u64
  metrics :: "metric list"
  seq :: "u64 option"

record decoded_command =
  command_metric :: string
  command_value :: u8
  command_seq :: "u64 option"
  command_timestamp :: "u64 option"

abbreviation DataTypeInt32 :: u64 where "DataTypeInt32 \<equiv> 3"
abbreviation DataTypeUInt64 :: u64 where "DataTypeUInt64 \<equiv> 8"
abbreviation DataTypeDouble :: u64 where "DataTypeDouble \<equiv> 10"
abbreviation DataTypeBoolean :: u64 where "DataTypeBoolean \<equiv> 11"
abbreviation DataTypeString :: u64 where "DataTypeString \<equiv> 12"

section \<open>Topics\<close>

definition BuildNodeTopic :: "string \<Rightarrow> string \<Rightarrow> string \<Rightarrow> string" where
  "BuildNodeTopic groupID messageType edgeNodeID =
     ''spBv1.0'' @ ''/'' @ groupID @ ''/'' @ messageType @ ''/'' @ edgeNodeID"

definition BuildNodeCommandTopic :: "string \<Rightarrow> string \<Rightarrow> string" where
  "BuildNodeCommandTopic groupID edgeNodeID = BuildNodeTopic groupID ''NCMD'' edgeNodeID"

definition BuildDeviceTopic :: "string \<Rightarrow> string \<Rightarrow> string \<Rightarrow> string \<Rightarrow> string" where
  "BuildDeviceTopic groupID messageType edgeNodeID deviceID =
     ''spBv1.0'' @ ''/'' @ groupID @ ''/'' @ messageType @ ''/'' @ edgeNodeID @ ''/'' @ deviceID"

section \<open>Encoding\<close>

text \<open>The append functions extend a buffer; each is modelled by the bytes it appends.\<close>

lemma unat_drop_7: "unat (drop_bit 7 (v :: u64)) = unat v div 128"
  unfolding unat_drop_bit_eq by (simp add: drop_bit_eq_div)

lemma drop_bit_7_less: "drop_bit 7 (v :: u64) \<noteq> 0 \<Longrightarrow> unat (drop_bit 7 v) < unat v"
  by (cases "v = 0") (simp_all add: unat_drop_7 unat_gt_0)

function appendVarint :: "u64 \<Rightarrow> bytes" where
  "appendVarint value = (let next = ucast (value AND 0x7f) :: u8; value = drop_bit 7 value in
     if value \<noteq> 0 then (next OR 0x80) # appendVarint value else [next])"
  by pat_completeness auto

termination
  by (relation "measure unat") (auto simp: drop_bit_7_less)

declare appendVarint.simps [simp del]

definition appendKey :: "u64 \<Rightarrow> u64 \<Rightarrow> bytes" where
  "appendKey fieldNumber wireType = appendVarint (push_bit 3 fieldNumber OR wireType)"

definition appendVarintField :: "u64 \<Rightarrow> u64 \<Rightarrow> bytes" where
  "appendVarintField fieldNumber value = appendKey fieldNumber 0 @ appendVarint value"

definition appendBytesField :: "u64 \<Rightarrow> bytes \<Rightarrow> bytes" where
  "appendBytesField fieldNumber value =
     appendKey fieldNumber 2 @ appendVarint (word_of_nat (length value)) @ value"

definition appendStringField :: "u64 \<Rightarrow> string \<Rightarrow> bytes" where
  "appendStringField fieldNumber value = appendBytesField fieldNumber (map byte_of_char value)"

definition PutUint64 :: "u64 \<Rightarrow> bytes" where
  "PutUint64 v = map (\<lambda>i. ucast (drop_bit (8 * i) v)) [0..<8]"

definition appendFixed64Field :: "u64 \<Rightarrow> u64 \<Rightarrow> bytes" where
  "appendFixed64Field fieldNumber value = appendKey fieldNumber 1 @ PutUint64 value"

definition metric_value_fields :: "metric_value \<Rightarrow> go_error + bytes" where
  "metric_value_fields v = (case v of
     MetricInt32 i \<Rightarrow> Inr (appendVarintField 4 DataTypeInt32 @ appendVarintField 10 (scast i))
   | MetricUInt64 n \<Rightarrow> Inr (appendVarintField 4 DataTypeUInt64 @ appendVarintField 11 n)
   | MetricDouble d \<Rightarrow> Inr (appendVarintField 4 DataTypeDouble @ appendFixed64Field 13 d)
   | MetricBoolean b \<Rightarrow> Inr (appendVarintField 4 DataTypeBoolean @ appendVarintField 14 (if b then 1 else 0))
   | MetricString s \<Rightarrow> Inr (appendVarintField 4 DataTypeString @ appendStringField 15 s)
   | MetricOther k \<Rightarrow> Inl (Fail (''unsupported Sparkplug metric value kind '' @ format_int k)))"

definition EncodeMetric :: "metric \<Rightarrow> go_error + bytes" where
  "EncodeMetric m = res_bind (metric_value_fields (metric_val m)) (\<lambda>fs. Inr (appendStringField 1 (metric_name m) @ fs))"

fun encode_metrics :: "metric list \<Rightarrow> go_error + bytes" where
  "encode_metrics [] = Inr []"
| "encode_metrics (m # ms) = res_bind (EncodeMetric m) (\<lambda>encoded.
     res_bind (encode_metrics ms) (\<lambda>rest. Inr (appendBytesField 2 encoded @ rest)))"

definition EncodePayload :: "payload \<Rightarrow> go_error + bytes" where
  "EncodePayload p = res_bind (encode_metrics (metrics p)) (\<lambda>ms.
     Inr (appendVarintField 1 (timestamp p) @ ms @ (case seq p of Some n \<Rightarrow> appendVarintField 3 n | None \<Rightarrow> [])))"

definition ValidateRedcon :: "u8 \<Rightarrow> go_error option" where
  "ValidateRedcon level = (if level < 1 \<or> level > 4
     then Some (Fail (''redcon must be between 1 and 4, got '' @ decimal_string (unat level))) else None)"

definition build_validated :: "u8 \<Rightarrow> payload \<Rightarrow> go_error + bytes" where
  "build_validated redcon p = (case ValidateRedcon redcon of Some e \<Rightarrow> Inl e | None \<Rightarrow> EncodePayload p)"

definition NewInt32Metric :: "string \<Rightarrow> u32 \<Rightarrow> metric" where
  "NewInt32Metric name v = \<lparr>metric_name = name, metric_val = MetricInt32 v\<rparr>"

definition NewUInt64Metric :: "string \<Rightarrow> u64 \<Rightarrow> metric" where
  "NewUInt64Metric name v = \<lparr>metric_name = name, metric_val = MetricUInt64 v\<rparr>"

definition BuildRedconPayload :: "u8 \<Rightarrow> u64 \<Rightarrow> u64 \<Rightarrow> go_error + bytes" where
  "BuildRedconPayload redcon n ts = build_validated redcon
     \<lparr>timestamp = ts, metrics = [NewInt32Metric ''redcon'' (ucast redcon)], seq = Some n\<rparr>"

definition BuildDeviceReportPayload :: "u8 \<Rightarrow> u64 \<Rightarrow> u64 \<Rightarrow> metric list \<Rightarrow> go_error + bytes" where
  "BuildDeviceReportPayload redcon n ts ms = build_validated redcon
     \<lparr>timestamp = ts, metrics = NewInt32Metric ''redcon'' (ucast redcon) # ms, seq = Some n\<rparr>"

definition BuildDeviceDeathPayload :: "u64 \<Rightarrow> u64 \<Rightarrow> go_error + bytes" where
  "BuildDeviceDeathPayload n ts = EncodePayload \<lparr>timestamp = ts, metrics = [], seq = Some n\<rparr>"

definition BuildNodeBirthPayloadWithMetrics :: "u8 \<Rightarrow> u64 \<Rightarrow> u64 \<Rightarrow> u64 \<Rightarrow> metric list \<Rightarrow> go_error + bytes" where
  "BuildNodeBirthPayloadWithMetrics redcon bdSeq n ts ms = build_validated redcon
     \<lparr>timestamp = ts, metrics = NewUInt64Metric ''bdSeq'' bdSeq # NewInt32Metric ''redcon'' (ucast redcon) # ms,
      seq = Some n\<rparr>"

definition BuildNodeBirthPayload :: "u8 \<Rightarrow> u64 \<Rightarrow> u64 \<Rightarrow> u64 \<Rightarrow> go_error + bytes" where
  "BuildNodeBirthPayload redcon bdSeq n ts = BuildNodeBirthPayloadWithMetrics redcon bdSeq n ts []"

definition BuildNodeDeathPayload :: "u8 \<Rightarrow> u64 \<Rightarrow> u64 \<Rightarrow> go_error + bytes" where
  "BuildNodeDeathPayload redcon bdSeq ts = build_validated redcon
     \<lparr>timestamp = ts, metrics = [NewUInt64Metric ''bdSeq'' bdSeq, NewInt32Metric ''redcon'' (ucast redcon)], seq = None\<rparr>"

section \<open>Decoding\<close>

function readVarint_loop :: "bytes \<Rightarrow> u64 \<Rightarrow> nat \<Rightarrow> nat \<Rightarrow> go_error + (u64 \<times> nat)" where
  "readVarint_loop data value shift index = (if length data \<le> index
     then Inl (Fail ''unexpected end of buffer while reading varint'')
     else let next = data ! index; index = index + 1; value = value OR push_bit shift (ucast (next AND 0x7f)) in
       if next AND 0x80 = 0 then Inr (value, index)
       else let shift = shift + 7 in
         if shift > 63 then Inl (Fail ''varint is too large'') else readVarint_loop data value shift index)"
  by pat_completeness auto

termination
  by (relation "measure (\<lambda>(data, _, _, index). length data - index)") auto

declare readVarint_loop.simps [simp del]

definition readVarint :: "bytes \<Rightarrow> nat \<Rightarrow> go_error + (u64 \<times> nat)" where
  "readVarint data offset = readVarint_loop data 0 0 offset"

definition readKey :: "bytes \<Rightarrow> nat \<Rightarrow> go_error + (u64 \<times> u64 \<times> nat)" where
  "readKey data offset = res_bind (readVarint data offset) (\<lambda>(key, next). Inr (drop_bit 3 key, key AND 0x07, next))"

text \<open>
  \<^verbatim>\<open>next + int(length)\<close> is a signed 64-bit sum, which may be negative; \<^verbatim>\<open>data[next:end]\<close> panics unless
  \<^verbatim>\<open>next <= end\<close>.
\<close>

definition int_end :: "nat \<Rightarrow> u64 \<Rightarrow> int" where
  "int_end next len = sint (word_of_nat next + len)"

definition readLengthDelimited :: "bytes \<Rightarrow> nat \<Rightarrow> go_error + (bytes \<times> nat)" where
  "readLengthDelimited data offset = res_bind (readVarint data offset) (\<lambda>(len, next). let e = int_end next len in
     if e > int (length data) then Inl (Fail ''unexpected end of buffer while reading bytes field'')
     else if e < int next then Inl SlicePanic
     else Inr (take (nat e - next) (drop next data), nat e))"

definition Uint64 :: "bytes \<Rightarrow> u64" where
  "Uint64 bs = foldr (\<lambda>b v. ucast b OR push_bit 8 v) bs 0"

definition readFixed64 :: "bytes \<Rightarrow> nat \<Rightarrow> go_error + (u64 \<times> nat)" where
  "readFixed64 data offset = (let e = offset + 8 in
     if e > length data then Inl (Fail ''unexpected end of buffer while reading fixed64 field'')
     else Inr (Uint64 (take 8 (drop offset data)), e))"

definition skipField :: "bytes \<Rightarrow> nat \<Rightarrow> u64 \<Rightarrow> go_error + nat" where
  "skipField data offset wireType =
    (if wireType = 0 then res_bind (readVarint data offset) (\<lambda>(_, next). Inr next)
     else if wireType = 1 then (if offset + 8 > length data
       then Inl (Fail ''unexpected end of buffer while skipping fixed64 field'') else Inr (offset + 8))
     else if wireType = 2 then res_bind (readLengthDelimited data offset) (\<lambda>(_, next). Inr next)
     else if wireType = 5 then (if offset + 4 > length data
       then Inl (Fail ''unexpected end of buffer while skipping fixed32 field'') else Inr (offset + 4))
     else Inl (Fail (''unsupported wire type '' @ decimal_string (unat wireType))))"

text \<open>The variables of the loop in \<^verbatim>\<open>DecodeMetric\<close> and one turn of it.\<close>

record metric_fields =
  mf_name :: string
  mf_dataType :: u64
  mf_int :: "u32 option"
  mf_long :: "u64 option"
  mf_double :: "u64 option"
  mf_bool :: "bool option"
  mf_string :: "string option"

definition no_fields :: metric_fields where
  "no_fields = \<lparr>mf_name = [], mf_dataType = 0, mf_int = None, mf_long = None, mf_double = None, mf_bool = None,
     mf_string = None\<rparr>"

definition metric_field :: "bytes \<Rightarrow> nat \<Rightarrow> metric_fields \<Rightarrow> go_error + (metric_fields \<times> nat)" where
  "metric_field data offset m = res_bind (readKey data offset) (\<lambda>(fieldNumber, wireType, offset).
     if fieldNumber = 1 \<and> wireType = 2 then
       res_bind (readLengthDelimited data offset) (\<lambda>(v, next). Inr (m\<lparr>mf_name := map char_of_byte v\<rparr>, next))
     else if fieldNumber = 4 \<and> wireType = 0 then
       res_bind (readVarint data offset) (\<lambda>(v, next). Inr (m\<lparr>mf_dataType := v\<rparr>, next))
     else if fieldNumber = 10 \<and> wireType = 0 then
       res_bind (readVarint data offset) (\<lambda>(v, next). Inr (m\<lparr>mf_int := Some (ucast v)\<rparr>, next))
     else if fieldNumber = 11 \<and> wireType = 0 then
       res_bind (readVarint data offset) (\<lambda>(v, next). Inr (m\<lparr>mf_long := Some v\<rparr>, next))
     else if fieldNumber = 13 \<and> wireType = 1 then
       res_bind (readFixed64 data offset) (\<lambda>(v, next). Inr (m\<lparr>mf_double := Some v\<rparr>, next))
     else if fieldNumber = 14 \<and> wireType = 0 then
       res_bind (readVarint data offset) (\<lambda>(v, next). Inr (m\<lparr>mf_bool := Some (v \<noteq> 0)\<rparr>, next))
     else if fieldNumber = 15 \<and> wireType = 2 then
       res_bind (readLengthDelimited data offset) (\<lambda>(v, next). Inr (m\<lparr>mf_string := Some (map char_of_byte v)\<rparr>, next))
     else res_bind (skipField data offset wireType) (\<lambda>next. Inr (m, next)))"

lemma readVarint_loop_index:
  "readVarint_loop data acc shift index = Inr (v, next) \<Longrightarrow> index < next \<and> next \<le> length data"
proof (induction data acc shift index rule: readVarint_loop.induct)
  case (1 data acc shift index)
  from 1(2) show ?case unfolding readVarint_loop.simps [of data acc shift index] using 1(1)
    by (fastforce simp: Let_def split: if_splits)
qed

lemma readVarint_index: "readVarint data offset = Inr (v, next) \<Longrightarrow> offset < next \<and> next \<le> length data"
  unfolding readVarint_def by (rule readVarint_loop_index)

lemma readKey_index: "readKey data offset = Inr (f, w, next) \<Longrightarrow> offset < next \<and> next \<le> length data"
  by (auto simp: readKey_def res_bind_Inr dest: readVarint_index)

lemma readLengthDelimited_index:
  "readLengthDelimited data offset = Inr (v, next) \<Longrightarrow> offset < next \<and> next \<le> length data"
  by (auto simp: readLengthDelimited_def res_bind_Inr Let_def split: if_splits dest!: readVarint_index)

lemma skipField_index: "skipField data offset w = Inr next \<Longrightarrow> offset < next \<and> next \<le> length data"
  by (auto simp: skipField_def res_bind_Inr split: if_splits dest: readVarint_index readLengthDelimited_index)

lemma readFixed64_index: "readFixed64 data offset = Inr (v, next) \<Longrightarrow> offset < next \<and> next \<le> length data"
  by (auto simp: readFixed64_def Let_def split: if_splits)

lemmas read_index = readVarint_index readKey_index readLengthDelimited_index skipField_index readFixed64_index

lemma metric_field_index:
  assumes "metric_field data offset m = Inr (m', next)"
  shows "offset < next \<and> next \<le> length data"
proof -
  from assms obtain f w o2 where key: "readKey data offset = Inr (f, w, o2)"
    by (auto simp: metric_field_def res_bind_Inr)
  with assms have "o2 < next \<and> next \<le> length data"
    by (auto simp: metric_field_def res_bind_Inr split: if_splits dest: read_index)
  with readKey_index [OF key] show ?thesis by simp
qed

function decode_metric_loop :: "bytes \<Rightarrow> nat \<Rightarrow> metric_fields \<Rightarrow> go_error + metric_fields" where
  "decode_metric_loop data offset m = (if length data \<le> offset then Inr m
     else case metric_field data offset m of Inl e \<Rightarrow> Inl e | Inr (m, next) \<Rightarrow> decode_metric_loop data next m)"
  by pat_completeness auto

termination
  by (relation "measure (\<lambda>(data, offset, _). length data - offset)") (auto dest!: metric_field_index)

declare decode_metric_loop.simps [simp del]

definition metric_of_fields :: "metric_fields \<Rightarrow> go_error + metric" where
  "metric_of_fields m =
    (let with_value = (\<lambda>v missing. case v of None \<Rightarrow> Inl (Fail missing)
        | Some v \<Rightarrow> Inr \<lparr>metric_name = mf_name m, metric_val = v\<rparr>) in
     if mf_dataType m = DataTypeInt32 then with_value (map_option MetricInt32 (mf_int m)) ''Int32 metric missing value''
     else if mf_dataType m = DataTypeUInt64 then with_value (map_option MetricUInt64 (mf_long m)) ''UInt64 metric missing value''
     else if mf_dataType m = DataTypeDouble then with_value (map_option MetricDouble (mf_double m)) ''Double metric missing value''
     else if mf_dataType m = DataTypeBoolean then with_value (map_option MetricBoolean (mf_bool m)) ''Boolean metric missing value''
     else if mf_dataType m = DataTypeString then with_value (map_option MetricString (mf_string m)) ''String metric missing value''
     else Inl (Fail (''unsupported Sparkplug metric datatype '' @ decimal_string (unat (mf_dataType m)))))"

definition DecodeMetric :: "bytes \<Rightarrow> go_error + metric" where
  "DecodeMetric data = res_bind (decode_metric_loop data 0 no_fields) metric_of_fields"

text \<open>The loop of \<^verbatim>\<open>DecodePayload\<close>; its variables are the fields of the payload.\<close>

definition payload_field :: "bytes \<Rightarrow> nat \<Rightarrow> payload \<Rightarrow> go_error + (payload \<times> nat)" where
  "payload_field data offset p = res_bind (readKey data offset) (\<lambda>(fieldNumber, wireType, offset).
     if fieldNumber = 1 \<and> wireType = 0 then
       res_bind (readVarint data offset) (\<lambda>(v, next). Inr (p\<lparr>timestamp := v\<rparr>, next))
     else if fieldNumber = 2 \<and> wireType = 2 then
       res_bind (readLengthDelimited data offset) (\<lambda>(v, next).
         res_bind (DecodeMetric v) (\<lambda>m. Inr (p\<lparr>metrics := metrics p @ [m]\<rparr>, next)))
     else if fieldNumber = 3 \<and> wireType = 0 then
       res_bind (readVarint data offset) (\<lambda>(v, next). Inr (p\<lparr>seq := Some v\<rparr>, next))
     else res_bind (skipField data offset wireType) (\<lambda>next. Inr (p, next)))"

lemma payload_field_index:
  assumes "payload_field data offset p = Inr (p', next)"
  shows "offset < next \<and> next \<le> length data"
proof -
  from assms obtain f w o2 where key: "readKey data offset = Inr (f, w, o2)"
    by (auto simp: payload_field_def res_bind_Inr)
  with assms have "o2 < next \<and> next \<le> length data"
    by (auto simp: payload_field_def res_bind_Inr split: if_splits dest: read_index)
  with readKey_index [OF key] show ?thesis by simp
qed

function decode_payload_loop :: "bytes \<Rightarrow> nat \<Rightarrow> payload \<Rightarrow> go_error + payload" where
  "decode_payload_loop data offset p = (if length data \<le> offset then Inr p
     else case payload_field data offset p of Inl e \<Rightarrow> Inl e | Inr (p, next) \<Rightarrow> decode_payload_loop data next p)"
  by pat_completeness auto

termination
  by (relation "measure (\<lambda>(data, offset, _). length data - offset)") (auto dest!: payload_field_index)

declare decode_payload_loop.simps [simp del]

definition DecodePayload :: "bytes \<Rightarrow> go_error + payload" where
  "DecodePayload data = decode_payload_loop data 0 \<lparr>timestamp = 0, metrics = [], seq = None\<rparr>"

text \<open>The loop over the metrics in \<^verbatim>\<open>DecodeRedconCommand\<close>.\<close>

fun redcon_value :: "metric list \<Rightarrow> (string \<times> u8) option" where
  "redcon_value [] = None"
| "redcon_value (m # ms) = (if metric_name m \<noteq> ''redcon'' then redcon_value ms
     else case (case metric_val m of MetricInt32 i \<Rightarrow> Some i
         | MetricUInt64 n \<Rightarrow> if n > 2147483647 then None else Some (ucast n) | _ \<Rightarrow> None) of
       None \<Rightarrow> None
     | Some v \<Rightarrow> if sint v < 1 \<or> sint v > 4 then None else Some (metric_name m, ucast v))"

definition DecodeRedconCommand :: "bytes \<Rightarrow> go_error + decoded_command option" where
  "DecodeRedconCommand data = res_bind (DecodePayload data) (\<lambda>p. Inr (map_option (\<lambda>(name, v).
     \<lparr>command_metric = name, command_value = v, command_seq = seq p, command_timestamp = Some (timestamp p)\<rparr>)
       (redcon_value (metrics p))))"

section \<open>Reading what was appended\<close>

lemma masks: "(0x7f :: 'a::len word) = mask 7"
  by (simp add: mask_eq_exp_minus_1)

lemma bit_0x80: "bit (0x80 :: int) n \<longleftrightarrow> n = 7"
proof -
  have "(0x80 :: int) = push_bit 7 1" by simp
  then show ?thesis by (simp only: bit_push_bit_iff bit_1_iff) auto
qed

lemma split_low: "push_bit s (v :: u64) = push_bit s (v AND 0x7f) OR push_bit (s + 7) (drop_bit 7 v)"
  unfolding masks
proof (rule bit_word_eqI)
  fix n assume "n < LENGTH(64)"
  moreover have "7 + (n - (s + 7)) = n - s" if "s + 7 \<le> n" using that by simp
  ultimately show "bit (push_bit s v) n = bit (push_bit s (v AND mask 7) OR push_bit (s + 7) (drop_bit 7 v)) n"
    by (cases "s + 7 \<le> n") (auto simp: bit_simps)
qed

lemma low_byte:
  fixes v :: u64
  defines "b \<equiv> ucast (v AND 0x7f) :: u8"
  shows "ucast ((b OR 0x80) AND 0x7f) = v AND 0x7f" "(b OR 0x80) AND 0x80 \<noteq> 0"
    "ucast (b AND 0x7f) = v AND 0x7f" "b AND 0x80 = 0"
proof -
  show "ucast ((b OR 0x80) AND 0x7f) = v AND 0x7f" "ucast (b AND 0x7f) = v AND 0x7f" "b AND 0x80 = 0"
    unfolding b_def masks by (rule bit_word_eqI; auto simp: bit_simps bit_0x80)+
  have "bit ((b OR 0x80) AND 0x80) 7" by (simp add: bit_simps bit_0x80)
  then show "(b OR 0x80) AND 0x80 \<noteq> 0" by auto
qed

lemma varint_shift:
  assumes "s \<le> 63" "unat (v :: u64) < 2 ^ (64 - s)" "drop_bit 7 v \<noteq> 0"
  shows "s + 7 \<le> 63" "unat (drop_bit 7 v) < 2 ^ (64 - (s + 7))"
proof -
  have "0 < unat v div 128" using assms(3) unat_drop_7 [of v] by (metis gr0I unat_eq_0)
  then have "128 \<le> unat v" by (simp add: div_greater_zero_iff)
  then have "(2::nat) ^ 7 < 2 ^ (64 - s)" using assms(2) by simp
  then have less: "7 < 64 - s" by (rule power_less_imp_less_exp [rotated]) simp
  then show "s + 7 \<le> 63" by simp
  have "2 ^ (64 - s) = 2 ^ (64 - (s + 7)) * (128::nat)" using less power_add [of "2::nat" "64 - (s + 7)" 7] by simp
  then show "unat (drop_bit 7 v) < 2 ^ (64 - (s + 7))"
    using assms(2) by (simp only: unat_drop_7 less_mult_imp_div_less)
qed

lemma readVarint_loop_append:
  assumes "s \<le> 63" "unat v < 2 ^ (64 - s)"
  shows "readVarint_loop (pre @ appendVarint v @ rest) acc s (length pre) =
    Inr (acc OR push_bit s v, length pre + length (appendVarint v))"
  using assms
proof (induction v arbitrary: pre acc s rule: appendVarint.induct)
  case (1 v)
  define b where "b = (ucast (v AND 0x7f) :: u8)"
  note low = low_byte [of v, folded b_def]
  show ?case
  proof (cases "drop_bit 7 v = 0")
    case True
    then have "appendVarint v = [b]" by (simp add: appendVarint.simps [of v] b_def Let_def)
    then show ?thesis using True split_low [of s v]
      by (simp add: readVarint_loop.simps [of _ _ s] low nth_append)
  next
    case False
    then have a: "appendVarint v = (b OR 0x80) # appendVarint (drop_bit 7 v)"
      by (subst appendVarint.simps) (simp add: b_def Let_def)
    note s = varint_shift [OF 1(2,3) False]
    have "readVarint_loop (pre @ appendVarint v @ rest) acc s (length pre) =
        readVarint_loop ((pre @ [b OR 0x80]) @ appendVarint (drop_bit 7 v) @ rest) (acc OR push_bit s (v AND 0x7f)) (s + 7)
          (length (pre @ [b OR 0x80]))"
      unfolding a using s(1) low by (subst readVarint_loop.simps) (simp add: nth_append Let_def)
    also have "\<dots> = Inr ((acc OR push_bit s (v AND 0x7f)) OR push_bit (s + 7) (drop_bit 7 v),
        length (pre @ [b OR 0x80]) + length (appendVarint (drop_bit 7 v)))"
      by (rule 1(1) [OF refl refl False s])
    also have "(acc OR push_bit s (v AND 0x7f)) OR push_bit (s + 7) (drop_bit 7 v) = acc OR push_bit s v"
      unfolding or.assoc by (rule arg_cong [OF split_low [symmetric]])
    finally show ?thesis by (simp only: a) simp
  qed
qed

lemma readVarint_append [simp]:
  "readVarint (pre @ appendVarint v @ rest) (length pre) = Inr (v, length pre + length (appendVarint v))"
  using readVarint_loop_append [of 0 v pre rest 0] unsigned_less [of v, where ?'a = nat]
  by (simp add: readVarint_def)

lemma appendVarint_nonempty [simp]: "appendVarint v \<noteq> []"
  by (simp add: appendVarint.simps [of v] Let_def)

lemma key_parts:
  fixes f w :: u64
  assumes "take_bit 61 f = f" "take_bit 3 w = w"
  shows "drop_bit 3 (push_bit 3 f OR w) = f" "(push_bit 3 f OR w) AND 0x07 = w"
proof -
  have f: "\<not> bit f n" if "61 \<le> n" for n using that by (subst assms(1) [symmetric]) (simp add: bit_take_bit_iff)
  have w: "\<not> bit w n" if "3 \<le> n" for n using that by (subst assms(2) [symmetric]) (simp add: bit_take_bit_iff)
  show "drop_bit 3 (push_bit 3 f OR w) = f"
  proof (rule bit_word_eqI)
    fix n assume "n < LENGTH(64)"
    with f [of n] w [of "n + 3"] show "bit (drop_bit 3 (push_bit 3 f OR w)) n = bit f n"
      by (cases "n < 61") (auto simp: bit_simps add.commute)
  qed
  have m: "(0x07 :: u64) = mask 3" by (simp add: mask_eq_exp_minus_1)
  show "(push_bit 3 f OR w) AND 0x07 = w"
    unfolding m
  proof (rule bit_word_eqI)
    fix n assume "n < LENGTH(64)"
    with w [of n] show "bit ((push_bit 3 f OR w) AND mask 3) n = bit w n"
      by (cases "n < 3") (auto simp: bit_simps)
  qed
qed

lemma readKey_append [simp]:
  assumes "take_bit 61 f = f" "take_bit 3 w = w"
  shows "readKey (pre @ appendKey f w @ rest) (length pre) = Inr (f, w, length pre + length (appendKey f w))"
  using key_parts [OF assms] by (simp add: readKey_def appendKey_def)

lemma appendKey_nonempty [simp]: "appendKey f w \<noteq> []"
  by (simp add: appendKey_def)

lemma int_end_small:
  assumes "next + n < 2 ^ 63"
  shows "int_end next (word_of_nat n) = int (next + n)"
proof -
  have "sint (word_of_nat m :: u64) = int m" if "m < 2 ^ 63" for m
    using that by (simp add: signed_of_nat signed_take_bit_int_eq_self)
  from this [OF assms] show ?thesis by (simp add: int_end_def)
qed

lemma readLengthDelimited_append:
  assumes "length pre + length (appendVarint (word_of_nat (length v))) + length v < 2 ^ 63"
  shows "readLengthDelimited (pre @ appendVarint (word_of_nat (length v)) @ v @ rest) (length pre) =
    Inr (v, length pre + length (appendVarint (word_of_nat (length v))) + length v)"
  using int_end_small [OF assms] by (simp add: readLengthDelimited_def Let_def)

lemma byte_step:
  "ucast (ucast (drop_bit k v) :: u8) OR push_bit 8 (take_bit m (drop_bit (k + 8) v)) = take_bit (m + 8) (drop_bit k (v :: u64))"
proof (rule bit_word_eqI)
  fix n assume "n < LENGTH(64)"
  moreover have "k + 8 + (n - 8) = k + n" if "8 \<le> n" using that by simp
  ultimately show "bit (ucast (ucast (drop_bit k v) :: u8) OR push_bit 8 (take_bit m (drop_bit (k + 8) v))) n =
      bit (take_bit (m + 8) (drop_bit k v)) n"
    by (cases "8 \<le> n") (auto simp: bit_simps)
qed

lemma Uint64_parts: "Uint64 (map (\<lambda>i. ucast (drop_bit (8 * i) v)) [k..<k + m]) = take_bit (8 * m) (drop_bit (8 * k) v)"
proof (induction m arbitrary: k)
  case (Suc m)
  have "[k..<k + Suc m] = k # [Suc k..<Suc k + m]" by (simp add: upt_rec)
  with Suc [of "Suc k"] byte_step [of "8 * k" v "8 * m"] show ?case
    by (simp add: Uint64_def add.commute)
qed (simp add: Uint64_def)

lemma Uint64_PutUint64 [simp]: "Uint64 (PutUint64 v) = v"
  using Uint64_parts [of v 0 8] by (simp add: PutUint64_def take_bit_word_eq_self)

lemma length_PutUint64 [simp]: "length (PutUint64 v) = 8"
  by (simp add: PutUint64_def)

lemma readFixed64_append: "readFixed64 (pre @ PutUint64 v @ rest) (length pre) = Inr (v, length pre + 8)"
  by (simp add: readFixed64_def)

section \<open>Field by field\<close>

text \<open>
  What the four loops of the two Go decoders have in common: a loop that handles one field per turn.  The
  client lemma reads a sequence of encoded fields one after the other.
\<close>

definition reads :: "(bytes \<Rightarrow> nat \<Rightarrow> 's \<Rightarrow> 'e + ('s \<times> nat)) \<Rightarrow> bytes \<Rightarrow> ('s \<Rightarrow> 's) \<Rightarrow> bool" where
  "reads field f upd \<longleftrightarrow> f \<noteq> [] \<and> (\<forall>pre rest st. length (pre @ f @ rest) < 2 ^ 63 \<longrightarrow>
     field (pre @ f @ rest) (length pre) st = Inr (upd st, length pre + length f))"

locale field_loop =
  fixes field :: "bytes \<Rightarrow> nat \<Rightarrow> 's \<Rightarrow> 'e + ('s \<times> nat)"
    and loop :: "bytes \<Rightarrow> nat \<Rightarrow> 's \<Rightarrow> 'e + 's"
  assumes loop: "loop data offset st = (if length data \<le> offset then Inr st
    else case field data offset st of Inl e \<Rightarrow> Inl e | Inr (st, next) \<Rightarrow> loop data next st)"
begin

lemma loop_step:
  assumes "reads field f upd" "length (pre @ f @ rest) < 2 ^ 63"
  shows "loop (pre @ f @ rest) (length pre) st = loop (pre @ f @ rest) (length pre + length f) (upd st)"
  using assms by (subst loop) (auto simp: reads_def)

lemma loop_fields:
  assumes "\<forall>(f, upd) \<in> set fs. reads field f upd" "length (pre @ concat (map fst fs)) < 2 ^ 63"
  shows "loop (pre @ concat (map fst fs)) (length pre) st = Inr (fold snd fs st)"
  using assms
proof (induction fs arbitrary: pre st)
  case Nil
  then show ?case by (subst loop) simp
next
  case (Cons p fs)
  obtain f upd where p: "p = (f, upd)" by (cases p)
  have "loop (pre @ f @ concat (map fst fs)) (length pre) st = loop (pre @ f @ concat (map fst fs)) (length pre + length f) (upd st)"
    by (rule loop_step) (use Cons.prems p in auto)
  with Cons.IH [of "pre @ f" "upd st"] Cons.prems show ?case by (simp add: p)
qed

lemma loop_all:
  assumes "\<forall>(f, upd) \<in> set fs. reads field f upd" "length (concat (map fst fs)) < 2 ^ 63"
  shows "loop (concat (map fst fs)) 0 st = Inr (fold snd fs st)"
  using loop_fields [of fs "[]" st] assms by simp

end

interpretation metric_loop: field_loop metric_field decode_metric_loop
  by unfold_locales (rule decode_metric_loop.simps)

interpretation payload_loop: field_loop payload_field decode_payload_loop
  by unfold_locales (rule decode_payload_loop.simps)

text \<open>The reads after a key.\<close>

lemma after_key [simp]:
  "readVarint (pre @ k @ appendVarint v @ rest) (length pre + length k) = Inr (v, length pre + length k + length (appendVarint v))"
  "readFixed64 (pre @ k @ PutUint64 d @ rest) (length pre + length k) = Inr (d, length pre + length k + 8)"
  using readVarint_append [of "pre @ k" v rest] readFixed64_append [of "pre @ k" d rest] by simp_all

lemma bytes_after_key:
  assumes "length (pre @ k @ appendVarint (word_of_nat (length v)) @ v @ rest) < 2 ^ 63"
  shows "readLengthDelimited (pre @ k @ appendVarint (word_of_nat (length v)) @ v @ rest) (length pre + length k) =
    Inr (v, length pre + length k + length (appendVarint (word_of_nat (length v))) + length v)"
  using readLengthDelimited_append [of "pre @ k" v rest] assms by simp

lemma metric_reads:
  "reads metric_field (appendStringField 1 name) (mf_name_update (\<lambda>_. name))"
  "reads metric_field (appendVarintField 4 t) (mf_dataType_update (\<lambda>_. t))"
  "reads metric_field (appendVarintField 10 n) (mf_int_update (\<lambda>_. Some (ucast n)))"
  "reads metric_field (appendVarintField 11 n) (mf_long_update (\<lambda>_. Some n))"
  "reads metric_field (appendFixed64Field 13 n) (mf_double_update (\<lambda>_. Some n))"
  "reads metric_field (appendVarintField 14 n) (mf_bool_update (\<lambda>_. Some (n \<noteq> 0)))"
  "reads metric_field (appendStringField 15 name) (mf_string_update (\<lambda>_. Some name))"
  by (simp_all add: reads_def metric_field_def appendStringField_def appendBytesField_def appendVarintField_def
    appendFixed64Field_def bytes_after_key [where ?v = "map byte_of_char _", simplified] comp_def)

lemma payload_reads:
  "reads payload_field (appendVarintField 1 n) (timestamp_update (\<lambda>_. n))"
  "reads payload_field (appendVarintField 3 n) (seq_update (\<lambda>_. Some n))"
  "DecodeMetric bs = Inr m \<Longrightarrow> reads payload_field (appendBytesField 2 bs) (metrics_update (\<lambda>ms. ms @ [m]))"
  by (simp_all add: reads_def payload_field_def appendBytesField_def appendVarintField_def bytes_after_key)

lemma ucast_scast_32: "ucast (scast (i :: u32) :: u64) = i"
  by (rule bit_word_eqI) (auto simp: bit_simps)

text \<open>The fields of an encoded metric with what they change, and the metric they make up.\<close>

fun value_parts :: "metric_value \<Rightarrow> (bytes \<times> (metric_fields \<Rightarrow> metric_fields)) list" where
  "value_parts (MetricInt32 i) = [(appendVarintField 4 DataTypeInt32, mf_dataType_update (\<lambda>_. DataTypeInt32)),
     (appendVarintField 10 (scast i), mf_int_update (\<lambda>_. Some i))]"
| "value_parts (MetricUInt64 n) = [(appendVarintField 4 DataTypeUInt64, mf_dataType_update (\<lambda>_. DataTypeUInt64)),
     (appendVarintField 11 n, mf_long_update (\<lambda>_. Some n))]"
| "value_parts (MetricDouble d) = [(appendVarintField 4 DataTypeDouble, mf_dataType_update (\<lambda>_. DataTypeDouble)),
     (appendFixed64Field 13 d, mf_double_update (\<lambda>_. Some d))]"
| "value_parts (MetricBoolean b) = [(appendVarintField 4 DataTypeBoolean, mf_dataType_update (\<lambda>_. DataTypeBoolean)),
     (appendVarintField 14 (if b then 1 else 0), mf_bool_update (\<lambda>_. Some b))]"
| "value_parts (MetricString t) = [(appendVarintField 4 DataTypeString, mf_dataType_update (\<lambda>_. DataTypeString)),
     (appendStringField 15 t, mf_string_update (\<lambda>_. Some t))]"
| "value_parts (MetricOther k) = []"

definition metric_parts :: "metric \<Rightarrow> (bytes \<times> (metric_fields \<Rightarrow> metric_fields)) list" where
  "metric_parts m = (appendStringField 1 (metric_name m), mf_name_update (\<lambda>_. metric_name m)) # value_parts (metric_val m)"

lemma EncodeMetric_parts: "EncodeMetric m = Inr bs \<Longrightarrow> bs = concat (map fst (metric_parts m))"
  by (cases "metric_val m") (auto simp: EncodeMetric_def metric_value_fields_def metric_parts_def)

lemma metric_parts_read: "\<forall>(f, upd) \<in> set (metric_parts m). reads metric_field f upd"
proof (cases "metric_val m")
  case (MetricInt32 i)
  then show ?thesis using metric_reads(3) [of "scast i"] by (simp add: metric_parts_def metric_reads ucast_scast_32)
next
  case (MetricBoolean b)
  then show ?thesis using metric_reads(6) [of "if b then 1 else 0"] by (cases b) (simp_all add: metric_parts_def metric_reads)
qed (simp_all add: metric_parts_def metric_reads)

lemma metric_parts_fold:
  assumes "EncodeMetric m = Inr bs"
  shows "metric_of_fields (fold snd (metric_parts m) no_fields) = Inr m"
proof -
  have "metric_name m = n \<Longrightarrow> metric_val m = v \<Longrightarrow> \<lparr>metric_name = n, metric_val = v\<rparr> = m" for n v by auto
  with assms show ?thesis
    by (cases "metric_val m")
      (simp_all add: EncodeMetric_def metric_value_fields_def metric_parts_def metric_of_fields_def no_fields_def)
qed

lemma metric_round_trip:
  assumes "EncodeMetric m = Inr bs" "length bs < 2 ^ 63"
  shows "DecodeMetric bs = Inr m"
  using metric_loop.loop_all [OF metric_parts_read, of m no_fields] metric_parts_fold [OF assms(1)] assms(2)
  by (simp add: DecodeMetric_def EncodeMetric_parts [OF assms(1)])

lemma metrics_parts:
  assumes "encode_metrics ms = Inr bs" "length bs < 2 ^ 63"
  shows "\<exists>fs. bs = concat (map fst fs) \<and> (\<forall>(f, upd) \<in> set fs. reads payload_field f upd) \<and>
    (\<forall>p. fold snd fs p = p\<lparr>metrics := metrics p @ ms\<rparr>)"
  using assms
proof (induction ms arbitrary: bs)
  case (Cons m ms)
  from Cons.prems(1) obtain e rest where e: "EncodeMetric m = Inr e" "encode_metrics ms = Inr rest"
    "bs = appendBytesField 2 e @ rest" by (auto simp: res_bind_Inr)
  with Cons obtain fs where fs: "rest = concat (map fst fs)" "\<forall>(f, upd) \<in> set fs. reads payload_field f upd"
    "\<forall>p. fold snd fs p = p\<lparr>metrics := metrics p @ ms\<rparr>" by fastforce
  have "DecodeMetric e = Inr m" using metric_round_trip [OF e(1)] Cons.prems(2) e(3) by (simp add: appendBytesField_def)
  then show ?case using e(3) fs
    by (intro exI [of _ "(appendBytesField 2 e, metrics_update (\<lambda>xs. xs @ [m])) # fs"]) (simp add: payload_reads)
qed (auto intro: exI [of _ "[]"])

lemma payload_round_trip:
  assumes "EncodePayload p = Inr bs" "length bs < 2 ^ 63"
  shows "DecodePayload bs = Inr p"
proof -
  define last :: "(bytes \<times> (payload \<Rightarrow> payload)) list" where "last = (case seq p of Some n \<Rightarrow> [(appendVarintField 3 n, seq_update (\<lambda>_. Some n))] | None \<Rightarrow> [])"
  from assms(1) obtain ms where ms: "encode_metrics (metrics p) = Inr ms"
    "bs = appendVarintField 1 (timestamp p) @ ms @ concat (map fst last)"
    by (auto simp: EncodePayload_def res_bind_Inr last_def split: option.splits)
  then have "length ms < 2 ^ 63" using assms(2) by simp
  with metrics_parts [OF ms(1)] obtain fs where fs: "ms = concat (map fst fs)"
    "\<forall>(f, upd) \<in> set fs. reads payload_field f upd"
    "\<forall>q. fold snd fs q = q\<lparr>metrics := metrics q @ metrics p\<rparr>" by blast
  define all where "all = (appendVarintField 1 (timestamp p), timestamp_update (\<lambda>_. timestamp p)) # fs @ last"
  have bs: "bs = concat (map fst all)" by (simp add: all_def ms(2) fs(1))
  have "\<forall>(f, upd) \<in> set all. reads payload_field f upd"
    using fs(2) by (cases "seq p") (simp_all add: all_def last_def payload_reads ball_Un)
  from payload_loop.loop_all [OF this] assms(2) bs
  have "DecodePayload bs = Inr (fold snd all \<lparr>timestamp = 0, metrics = [], seq = None\<rparr>)" by (simp add: DecodePayload_def)
  then show ?thesis by (cases "seq p") (simp_all add: all_def last_def fs(3))
qed

section \<open>Sizes\<close>

lemma length_appendVarint: "unat v < 128 ^ Suc n \<Longrightarrow> length (appendVarint v) \<le> Suc n"
proof (induction v arbitrary: n rule: appendVarint.induct)
  case (1 v)
  show ?case
  proof (cases "drop_bit 7 v = 0")
    case True
    then show ?thesis by (simp add: appendVarint.simps [of v])
  next
    case False
    then have "0 < unat v div 128" using unat_drop_7 [of v] by (metis gr0I unat_eq_0)
    then have "128 \<le> unat v" by (simp add: div_greater_zero_iff)
    then obtain k where k: "n = Suc k" using 1(2) by (cases n) auto
    have "unat (drop_bit 7 v) < 128 ^ Suc k" using 1(2) unfolding unat_drop_7 k by (simp add: less_mult_imp_div_less)
    with 1(1) [OF refl refl False, of k] False k show ?thesis by (simp add: appendVarint.simps [of v] Let_def)
  qed
qed

lemma appendVarint_size: "length (appendVarint v) \<le> 10"
proof -
  have "(18446744073709551616 :: nat) < 128 ^ 10" by simp
  moreover have "unat v < 18446744073709551616" using unsigned_less [of v, where ?'a = nat] by simp
  ultimately have "unat v < 128 ^ Suc 9" by (simp only: Suc_numeral semiring_norm)
  from length_appendVarint [OF this] show ?thesis by simp
qed

lemma field_sizes:
  "length (appendVarintField f v) \<le> 20" "length (appendBytesField f bs) \<le> 20 + length bs"
  "length (appendStringField f t) \<le> 20 + length t"
  using appendVarint_size [of v] appendVarint_size [of "push_bit 3 f OR 0"] appendVarint_size [of "push_bit 3 f OR 2"]
    appendVarint_size [of "word_of_nat (length bs)"] appendVarint_size [of "word_of_nat (length t)"]
  by (simp_all add: appendVarintField_def appendBytesField_def appendStringField_def appendKey_def)

lemma int_end_negative:
  assumes "next \<le> 20" "bit len 63"
  shows "int_end next len < int next"
proof -
  have neg: "sint len < 0" using bit_last_iff [of len] assms(2) by simp
  have low: "- (2 ^ 63) \<le> sint len" using sint_ge [of len] by simp
  have "sint (word_of_nat next :: u64) = int next" using assms(1) by (simp add: signed_of_nat signed_take_bit_int_eq_self)
  then have "int_end next len = signed_take_bit 63 (int next + sint len)" by (simp add: int_end_def sint_word_ariths)
  also have "\<dots> = int next + sint len" using neg low assms(1) by (intro signed_take_bit_int_eq_self) auto
  finally show ?thesis using neg by simp
qed

lemma redcon_payload_size:
  assumes "EncodePayload \<lparr>timestamp = ts, metrics = [NewInt32Metric ''redcon'' v], seq = n\<rparr> = Inr bs"
  shows "length bs \<le> 200"
  using assms field_sizes(1) [of 1 ts] field_sizes(3) [of 1 "''redcon''"] field_sizes(1) [of 4 3]
    field_sizes(1) [of 10 "scast v"] field_sizes(1) [of 3 "the n"]
    field_sizes(2) [of 2 "appendStringField 1 ''redcon'' @ appendVarintField 4 3 @ appendVarintField 10 (scast v)"]
  by (auto simp: EncodePayload_def NewInt32Metric_def EncodeMetric_def metric_value_fields_def split: option.splits)

section \<open>Properties\<close>

lemma encode_metrics_total:
  "(\<exists>bs. encode_metrics ms = Inr bs) \<longleftrightarrow> (\<forall>m \<in> set ms. \<forall>k. metric_val m \<noteq> MetricOther k)"
proof (induction ms)
  case (Cons m ms)
  have "(\<exists>bs. EncodeMetric m = Inr bs) \<longleftrightarrow> (\<forall>k. metric_val m \<noteq> MetricOther k)"
    by (cases "metric_val m") (auto simp: EncodeMetric_def metric_value_fields_def)
  with Cons show ?case by (auto simp: res_bind_Inr)
qed simp

text \<open>
  C36. Payloads survive the wire.  A payload is encoded exactly when every metric has one of the five
  supported kinds, and \<^verbatim>\<open>DecodePayload\<close> reads the encoding, of any length a slice can have, back to the same
  timestamp, metrics in order and sequence number; negative integers included.
\<close>

theorem sparkplug_round_trip:
  "((\<exists>bs. EncodePayload p = Inr bs) \<longleftrightarrow> (\<forall>m \<in> set (metrics p). \<forall>k. metric_val m \<noteq> MetricOther k)) \<and>
   (\<forall>bs. EncodePayload p = Inr bs \<and> length bs < 2 ^ 63 \<longrightarrow> DecodePayload bs = Inr p)"
  using payload_round_trip [of p] encode_metrics_total [of "metrics p"] by (auto simp: EncodePayload_def res_bind_Inr)

theorem sparkplug_round_trip_witness:
  "\<exists>bs. EncodePayload \<lparr>timestamp = 7, metrics = [NewInt32Metric ''redcon'' (- 1)], seq = None\<rparr> = Inr bs \<and>
     DecodePayload bs = Inr \<lparr>timestamp = 7, metrics = [NewInt32Metric ''redcon'' (- 1)], seq = None\<rparr>"
proof -
  let ?p = "\<lparr>timestamp = 7, metrics = [NewInt32Metric ''redcon'' (- 1)], seq = None\<rparr>"
  obtain bs where bs: "EncodePayload ?p = Inr bs"
    using sparkplug_round_trip [of ?p] by (auto simp: NewInt32Metric_def)
  then have "length bs < 2 ^ 63" using redcon_payload_size [OF bs] by simp
  with bs sparkplug_round_trip [of ?p] show ?thesis by blast
qed

lemma level_cases:
  assumes "\<not> (r < 1 \<or> r > (4 :: u8))"
  shows "r = 1 \<or> r = 2 \<or> r = 3 \<or> r = 4"
proof -
  have "unat r = 1 \<or> unat r = 2 \<or> unat r = 3 \<or> unat r = 4" using assms by (auto simp: word_less_nat_alt)
  then show ?thesis by (simp add: word_unat_eq_iff)
qed

lemma redcon_value_level:
  "redcon_value ms = Some (name, v) \<Longrightarrow> name = ''redcon'' \<and> 1 \<le> v \<and> v \<le> 4"
proof (induction ms)
  case (Cons m ms)
  have "1 \<le> (ucast w :: u8) \<and> (ucast w :: u8) \<le> 4" if "1 \<le> sint w" "sint w \<le> 4" for w :: u32
  proof -
    have "sint w = 1 \<or> sint w = 2 \<or> sint w = 3 \<or> sint w = 4" using that by arith
    then have "word_of_int (sint w) = (1 :: u32) \<or> word_of_int (sint w) = (2 :: u32) \<or>
        word_of_int (sint w) = (3 :: u32) \<or> word_of_int (sint w) = (4 :: u32)" by (elim disjE) simp_all
    then show ?thesis by auto
  qed
  with Cons show ?case by (auto split: if_splits option.splits metric_value.splits)
qed simp

lemma redcon_round_trip:
  assumes "\<not> (r < 1 \<or> r > 4)"
  shows "\<exists>bs. BuildRedconPayload r n ts = Inr bs \<and> DecodeRedconCommand bs = Inr (Some \<lparr>command_metric = ''redcon'',
      command_value = r, command_seq = Some n, command_timestamp = Some ts\<rparr>)"
proof -
  let ?p = "\<lparr>timestamp = ts, metrics = [NewInt32Metric ''redcon'' (ucast r)], seq = Some n\<rparr>"
  obtain bs where bs: "EncodePayload ?p = Inr bs"
    by (simp add: EncodePayload_def NewInt32Metric_def EncodeMetric_def metric_value_fields_def)
  have "length bs < 2 ^ 63" using redcon_payload_size [OF bs] by simp
  from payload_round_trip [OF bs this] have dec: "DecodePayload bs = Inr ?p" .
  have "redcon_value [NewInt32Metric ''redcon'' (ucast r)] = Some (''redcon'', r)"
    using level_cases [OF assms] by (auto simp: NewInt32Metric_def)
  with bs dec assms show ?thesis
    by (simp add: BuildRedconPayload_def build_validated_def ValidateRedcon_def DecodeRedconCommand_def)
qed

text \<open>
  REDCON commands.  \<^verbatim>\<open>BuildRedconPayload\<close> fails exactly for a level outside 1 to 4; otherwise
  \<^verbatim>\<open>DecodeRedconCommand\<close> reads back the level, the sequence number and the timestamp.  Whatever bytes arrive, a
  command that is decoded names the metric \<^verbatim>\<open>redcon\<close> and has a level from 1 to 4.
\<close>

theorem redcon_commands:
  "(if r < 1 \<or> r > 4 then BuildRedconPayload r n ts = Inl (Fail (''redcon must be between 1 and 4, got '' @ decimal_string (unat r)))
    else res_bind (BuildRedconPayload r n ts) DecodeRedconCommand = Inr (Some \<lparr>command_metric = ''redcon'',
      command_value = r, command_seq = Some n, command_timestamp = Some ts\<rparr>)) \<and>
   (\<forall>bs c. DecodeRedconCommand bs = Inr (Some c) \<longrightarrow>
      command_metric c = ''redcon'' \<and> 1 \<le> command_value c \<and> command_value c \<le> 4)"
proof (cases "r < 1 \<or> r > 4")
  case True
  then show ?thesis
    by (auto simp: BuildRedconPayload_def build_validated_def ValidateRedcon_def DecodeRedconCommand_def res_bind_Inr
      dest!: redcon_value_level)
next
  case False
  with redcon_round_trip [OF False, of n ts] show ?thesis
    by (auto simp: DecodeRedconCommand_def res_bind_Inr dest!: redcon_value_level)
qed

theorem redcon_commands_witness:
  "res_bind (BuildRedconPayload 3 7 9) DecodeRedconCommand = Inr (Some \<lparr>command_metric = ''redcon'',
      command_value = 3, command_seq = Some 7, command_timestamp = Some 9\<rparr>)"
  using redcon_commands [of 3 7 9] by simp

text \<open>
  C39. A malformed length stops the program.  For every field number and every length from $2^{63}$ on, the
  decoder does not return an error but panics on the slice expression, whatever follows in the message.
\<close>

theorem huge_length_panics:
  assumes "take_bit 61 f = f" "bit len 63"
  shows "DecodePayload (appendKey f 2 @ appendVarint len @ rest) = Inl SlicePanic"
proof -
  let ?data = "appendKey f 2 @ appendVarint len @ rest"
  have "take_bit 3 (2 :: u64) = 2" by simp
  note key = readKey_append [OF assms(1) this, of "[]" "appendVarint len @ rest"]
  have v: "readVarint ?data (length (appendKey f 2)) = Inr (len, length (appendKey f 2) + length (appendVarint len))"
    using after_key(1) [of "[]" "appendKey f 2" len rest] by simp
  have "length (appendKey f 2) + length (appendVarint len) \<le> 20"
    using appendVarint_size [of len] appendVarint_size [of "push_bit 3 f OR 2"] by (simp add: appendKey_def)
  from int_end_negative [OF this assms(2)]
  have "readLengthDelimited ?data (length (appendKey f 2)) = Inl SlicePanic"
    by (simp add: readLengthDelimited_def v Let_def)
  then have "payload_field ?data 0 p = Inl SlicePanic" for p
    using key by (cases "f = 2") (simp_all add: payload_field_def skipField_def)
  then show ?thesis by (simp add: DecodePayload_def decode_payload_loop.simps [of ?data])
qed

theorem huge_length_panics_witness:
  "DecodePayload (appendKey 2 2 @ appendVarint (- 1) @ []) = Inl SlicePanic"
  by (rule huge_length_panics) simp_all

end
