(* ===== verification/SparkplugOffice.thy ===== *)
theory SparkplugOffice
  imports Sparkplug
begin

text \<open>
  Model of the Sparkplug codec of the office web application, \<^verbatim>\<open>src/office/src/sparkplug-protocol.ts\<close>, and of its
  reading of device reports, \<^verbatim>\<open>src/office/src/sparkplug-device-redcon.ts\<close>, composed with the codec of the rig.
  JavaScript's bitwise operators work on 32-bit integers and mask the shift count to five bits.  The encoder
  and decoder of texts (\<^verbatim>\<open>TextEncoder\<close>, \<^verbatim>\<open>TextDecoder\<close>) are parameters of the definitions that use them.
\<close>

section \<open>JavaScript\<close>

text \<open>A number, as far as \<^verbatim>\<open>Number.isInteger\<close> and the integer operations see it.\<close>

datatype js_number = Integral int | NotIntegral

datatype js_error =
  VarintValue js_number
| MissingValue string
| VarintTooLarge
| EndOfPayload string
| UnsupportedWireType int
| RedconRange js_number

section \<open>Encoding\<close>

text \<open>
  The loop of \<^verbatim>\<open>appendVarint\<close>: \<^verbatim>\<open>remaining & 0x7f\<close> are the lowest seven bits, \<^verbatim>\<open>remaining >>>= 7\<close> first reduces
  the number to 32 bits.
\<close>

fun varint_loop :: "nat \<Rightarrow> bytes" where
  "varint_loop remaining = (let nextByte = word_of_nat (remaining mod 128); r = (remaining mod 2 ^ 32) div 128 in
     if 0 < r then (nextByte OR 0x80) # varint_loop r else [nextByte])"

declare varint_loop.simps [simp del]

definition js_appendVarint :: "js_number \<Rightarrow> js_error + bytes" where
  "js_appendVarint v = (case v of NotIntegral \<Rightarrow> Inl (VarintValue v)
     | Integral n \<Rightarrow> if n < 0 then Inl (VarintValue v) else Inr (varint_loop (nat n)))"

definition js_appendKey :: "nat \<Rightarrow> nat \<Rightarrow> bytes" where
  "js_appendKey fieldNumber wireType = varint_loop (push_bit 3 fieldNumber OR wireType)"

definition js_appendBytesField :: "nat \<Rightarrow> bytes \<Rightarrow> bytes" where
  "js_appendBytesField fieldNumber v = js_appendKey fieldNumber 2 @ varint_loop (length v) @ v"

definition js_appendVarintField :: "nat \<Rightarrow> js_number \<Rightarrow> js_error + bytes" where
  "js_appendVarintField fieldNumber v = (case js_appendVarint v of Inl e \<Rightarrow> Inl e
     | Inr bs \<Rightarrow> Inr (js_appendKey fieldNumber 0 @ bs))"

text \<open>A floating-point number is given by the bits that \<^verbatim>\<open>setFloat32\<close> or \<^verbatim>\<open>setFloat64\<close> stores, lowest byte first.\<close>

definition js_appendFixed32Field :: "nat \<Rightarrow> u32 \<Rightarrow> bytes" where
  "js_appendFixed32Field fieldNumber v =
     js_appendKey fieldNumber 5 @ map (\<lambda>i. ucast (drop_bit (8 * i) v)) [0..<4]"

definition js_appendFixed64Field :: "nat \<Rightarrow> u64 \<Rightarrow> bytes" where
  "js_appendFixed64Field fieldNumber v = js_appendKey fieldNumber 1 @ PutUint64 v"

record metric_input =
  in_name :: string
  in_datatype :: nat
  in_int :: "js_number option"
  in_long :: "js_number option"
  in_float :: "u32 option"
  in_double :: "u64 option"
  in_bool :: "bool option"
  in_string :: "string option"
  in_timestamp :: "js_number option"

fun js_concat :: "(js_error + bytes) list \<Rightarrow> js_error + bytes" where
  "js_concat [] = Inr []"
| "js_concat (Inl e # rs) = Inl e"
| "js_concat (Inr bs # rs) = (case js_concat rs of Inl e \<Rightarrow> Inl e | Inr cs \<Rightarrow> Inr (bs @ cs))"

definition metric_input_value :: "(string \<Rightarrow> bytes) \<Rightarrow> metric_input \<Rightarrow> js_error + bytes" where
  "metric_input_value encode m = (case in_int m of Some n \<Rightarrow> js_appendVarintField 10 n | None \<Rightarrow>
     case in_long m of Some n \<Rightarrow> js_appendVarintField 11 n | None \<Rightarrow>
     case in_float m of Some f \<Rightarrow> Inr (js_appendFixed32Field 12 f) | None \<Rightarrow>
     case in_double m of Some d \<Rightarrow> Inr (js_appendFixed64Field 13 d) | None \<Rightarrow>
     case in_bool m of Some b \<Rightarrow> js_appendVarintField 14 (Integral (if b then 1 else 0)) | None \<Rightarrow>
     case in_string m of Some t \<Rightarrow> Inr (js_appendBytesField 15 (encode t)) | None \<Rightarrow>
     Inl (MissingValue (in_name m)))"

definition encodeSparkplugMetric :: "(string \<Rightarrow> bytes) \<Rightarrow> metric_input \<Rightarrow> js_error + bytes" where
  "encodeSparkplugMetric encode m = js_concat
     [Inr (js_appendBytesField 1 (encode (in_name m))),
      (case in_timestamp m of Some t \<Rightarrow> js_appendVarintField 3 t | None \<Rightarrow> Inr []),
      js_appendVarintField 4 (Integral (int (in_datatype m))),
      metric_input_value encode m]"

definition encodeSparkplugPayload :: "(string \<Rightarrow> bytes) \<Rightarrow> js_number \<Rightarrow> js_number \<Rightarrow> metric_input list \<Rightarrow> js_error + bytes" where
  "encodeSparkplugPayload encode ts n ms = js_concat (
     [js_appendVarintField 1 ts] @
     map (\<lambda>m. case encodeSparkplugMetric encode m of Inl e \<Rightarrow> Inl e | Inr bs \<Rightarrow> Inr (js_appendBytesField 2 bs)) ms @
     [js_appendVarintField 3 n])"

record publish_packet =
  topicName :: string
  packet_payload :: bytes

definition redcon_packet :: "(string \<Rightarrow> bytes) \<Rightarrow> string \<Rightarrow> js_number \<Rightarrow> js_number \<Rightarrow> js_number \<Rightarrow> js_error + publish_packet" where
  "redcon_packet encode topic redcon n ts = (case redcon of NotIntegral \<Rightarrow> Inl (RedconRange redcon)
     | Integral r \<Rightarrow> if r < 1 \<or> r > 4 then Inl (RedconRange redcon)
       else case encodeSparkplugPayload encode ts n [\<lparr>in_name = ''redcon'', in_datatype = 3, in_int = Some redcon,
           in_long = None, in_float = None, in_double = None, in_bool = None, in_string = None, in_timestamp = None\<rparr>] of
         Inl e \<Rightarrow> Inl e | Inr bs \<Rightarrow> Inr \<lparr>topicName = topic, packet_payload = bs\<rparr>)"

record sparkplug_topics =
  nbirth :: string
  ndata :: string
  ncmd :: string
  dcmd :: string
  dbirth :: string
  ddata :: string
  ddeath :: string

definition buildSparkplugTopics :: "string \<Rightarrow> string \<Rightarrow> string \<Rightarrow> sparkplug_topics" where
  "buildSparkplugTopics groupId edgeNodeId deviceId =
    (let ns = ''spBv1.0''; node = (\<lambda>t. ns @ ''/'' @ groupId @ ''/'' @ t @ ''/'' @ edgeNodeId);
       device = (\<lambda>t. ns @ ''/'' @ groupId @ ''/'' @ t @ ''/'' @ edgeNodeId @ ''/'' @ deviceId) in
     \<lparr>nbirth = node ''NBIRTH'', ndata = node ''NDATA'', ncmd = node ''NCMD'', dcmd = device ''DCMD'',
      dbirth = device ''DBIRTH'', ddata = device ''DDATA'', ddeath = device ''DDEATH''\<rparr>)"

definition buildSparkplugRedconCommandPacket :: "(string \<Rightarrow> bytes) \<Rightarrow> sparkplug_topics \<Rightarrow> js_number \<Rightarrow> js_number \<Rightarrow> js_number
    \<Rightarrow> js_error + publish_packet" where
  "buildSparkplugRedconCommandPacket encode topics redcon n ts = redcon_packet encode (dcmd topics) redcon n ts"

definition buildSparkplugNodeRedconCommandPacket :: "(string \<Rightarrow> bytes) \<Rightarrow> sparkplug_topics \<Rightarrow> js_number \<Rightarrow> js_number \<Rightarrow> js_number
    \<Rightarrow> js_error + publish_packet" where
  "buildSparkplugNodeRedconCommandPacket encode topics redcon n ts = redcon_packet encode (ncmd topics) redcon n ts"

section \<open>Decoding\<close>

text \<open>
  Reading a \<^verbatim>\<open>Uint8Array\<close> at an index out of range gives \<^verbatim>\<open>undefined\<close>, which the bitwise operators take as 0.
  Offsets are integers, since a negative length moves them back.
\<close>

definition js_at :: "bytes \<Rightarrow> int \<Rightarrow> u8" where
  "js_at bytes i = (if 0 \<le> i \<and> i < int (length bytes) then bytes ! nat i else 0)"

function js_varint_loop :: "bytes \<Rightarrow> u32 \<Rightarrow> nat \<Rightarrow> int \<Rightarrow> js_error + (int \<times> int)" where
  "js_varint_loop bytes acc shift offset = (if offset < int (length bytes) then
       let byte = js_at bytes offset; offset = offset + 1;
         acc = acc OR push_bit (shift mod 32) (ucast (byte AND 0x7f)) in
       if byte AND 0x80 = 0 then Inr (sint acc, offset)
       else let shift = shift + 7 in
         if shift > 63 then Inl VarintTooLarge else js_varint_loop bytes acc shift offset
     else Inl (EndOfPayload ''varint''))"
  by pat_completeness auto

termination
  by (relation "measure (\<lambda>(bytes, _, _, offset). nat (int (length bytes) - offset))") auto

declare js_varint_loop.simps [simp del]

definition js_readVarint :: "bytes \<Rightarrow> int \<Rightarrow> js_error + (int \<times> int)" where
  "js_readVarint bytes startOffset = js_varint_loop bytes 0 0 startOffset"

definition js_index :: "int \<Rightarrow> int \<Rightarrow> int" where
  "js_index len i = (if i < 0 then max (len + i) 0 else min i len)"

definition subarray :: "bytes \<Rightarrow> int \<Rightarrow> int \<Rightarrow> bytes" where
  "subarray bytes b e = (let len = int (length bytes); first = js_index len b; last = js_index len e in
     take (nat (last - first)) (drop (nat first) bytes))"

definition js_readLengthDelimited :: "bytes \<Rightarrow> int \<Rightarrow> js_error + (bytes \<times> int)" where
  "js_readLengthDelimited bytes startOffset = (case js_readVarint bytes startOffset of Inl e \<Rightarrow> Inl e
     | Inr (len, next) \<Rightarrow> let endOffset = next + len in
       if endOffset > int (length bytes) then Inl (EndOfPayload ''bytes field'')
       else Inr (subarray bytes next endOffset, endOffset))"

definition js_readFixed :: "nat \<Rightarrow> string \<Rightarrow> bytes \<Rightarrow> int \<Rightarrow> js_error + (u64 \<times> int)" where
  "js_readFixed n field bytes startOffset = (let endOffset = startOffset + int n in
     if endOffset > int (length bytes) then Inl (EndOfPayload field)
     else Inr (Uint64 (map (\<lambda>i. js_at bytes (startOffset + int i)) [0..<n]), endOffset))"

definition js_skipField :: "bytes \<Rightarrow> int \<Rightarrow> int \<Rightarrow> js_error + int" where
  "js_skipField bytes startOffset wireType =
    (if wireType = 0 then map_sum id snd (js_readVarint bytes startOffset)
     else if wireType = 1 then Inr (startOffset + 8)
     else if wireType = 2 then map_sum id snd (js_readLengthDelimited bytes startOffset)
     else if wireType = 5 then Inr (startOffset + 4)
     else Inl (UnsupportedWireType wireType))"

record js_metric =
  jm_name :: string
  jm_datatype :: int
  jm_int :: "int option"
  jm_long :: "int option"
  jm_float :: "u32 option"
  jm_double :: "u64 option"
  jm_bool :: "bool option"
  jm_string :: "string option"
  jm_timestamp :: "int option"

text \<open>One turn of the loop of \<^verbatim>\<open>decodeSparkplugMetric\<close>.\<close>

definition js_metric_field :: "(bytes \<Rightarrow> string) \<Rightarrow> bytes \<Rightarrow> int \<Rightarrow> js_metric \<Rightarrow> js_error + (js_metric \<times> int)" where
  "js_metric_field decode bytes offset m = res_bind (js_readVarint bytes offset) (\<lambda>(key, offset).
     let fieldNumber = drop_bit 3 key; wireType = key AND 0x07 in
     if fieldNumber = 1 \<and> wireType = 2 then
       res_bind (js_readLengthDelimited bytes offset) (\<lambda>(v, next). Inr (m\<lparr>jm_name := decode v\<rparr>, next))
     else if fieldNumber = 3 \<and> wireType = 0 then
       res_bind (js_readVarint bytes offset) (\<lambda>(v, next). Inr (m\<lparr>jm_timestamp := Some v\<rparr>, next))
     else if fieldNumber = 4 \<and> wireType = 0 then
       res_bind (js_readVarint bytes offset) (\<lambda>(v, next). Inr (m\<lparr>jm_datatype := v\<rparr>, next))
     else if fieldNumber = 10 \<and> wireType = 0 then
       res_bind (js_readVarint bytes offset) (\<lambda>(v, next). Inr (m\<lparr>jm_int := Some v\<rparr>, next))
     else if fieldNumber = 11 \<and> wireType = 0 then
       res_bind (js_readVarint bytes offset) (\<lambda>(v, next). Inr (m\<lparr>jm_long := Some v\<rparr>, next))
     else if fieldNumber = 12 \<and> wireType = 5 then
       res_bind (js_readFixed 4 ''fixed32 field'' bytes offset) (\<lambda>(v, next). Inr (m\<lparr>jm_float := Some (ucast v)\<rparr>, next))
     else if fieldNumber = 13 \<and> wireType = 1 then
       res_bind (js_readFixed 8 ''fixed64 field'' bytes offset) (\<lambda>(v, next). Inr (m\<lparr>jm_double := Some v\<rparr>, next))
     else if fieldNumber = 12 \<and> wireType = 0 then
       res_bind (js_readVarint bytes offset) (\<lambda>(v, next). Inr (m\<lparr>jm_bool := Some (v \<noteq> 0)\<rparr>, next))
     else if fieldNumber = 13 \<and> wireType = 2 then
       res_bind (js_readLengthDelimited bytes offset) (\<lambda>(v, next). Inr (m\<lparr>jm_string := Some (decode v)\<rparr>, next))
     else if fieldNumber = 14 \<and> wireType = 0 then
       res_bind (js_readVarint bytes offset) (\<lambda>(v, next). Inr (m\<lparr>jm_bool := Some (v \<noteq> 0)\<rparr>, next))
     else if fieldNumber = 15 \<and> wireType = 2 then
       res_bind (js_readLengthDelimited bytes offset) (\<lambda>(v, next). Inr (m\<lparr>jm_string := Some (decode v)\<rparr>, next))
     else res_bind (js_skipField bytes offset wireType) (\<lambda>next. Inr (m, next)))"

text \<open>The loop may run forever; it then has no value.\<close>

partial_function (option) js_metric_loop :: "(bytes \<Rightarrow> string) \<Rightarrow> bytes \<Rightarrow> int \<Rightarrow> js_metric \<Rightarrow> (js_error + js_metric) option" where
  "js_metric_loop decode bytes offset m = (if offset < int (length bytes) then
       case js_metric_field decode bytes offset m of Inl e \<Rightarrow> Some (Inl e)
       | Inr (m, next) \<Rightarrow> js_metric_loop decode bytes next m
     else Some (Inr m))"

definition js_no_metric :: js_metric where
  "js_no_metric = \<lparr>jm_name = [], jm_datatype = 3, jm_int = None, jm_long = None, jm_float = None, jm_double = None,
     jm_bool = None, jm_string = None, jm_timestamp = None\<rparr>"

definition decodeSparkplugMetric :: "(bytes \<Rightarrow> string) \<Rightarrow> bytes \<Rightarrow> (js_error + js_metric) option" where
  "decodeSparkplugMetric decode bytes = js_metric_loop decode bytes 0 js_no_metric"

record js_payload =
  jp_timestamp :: "int option"
  jp_seq :: "int option"
  jp_metrics :: "js_metric list"

text \<open>One turn of the loop of \<^verbatim>\<open>decodeSparkplugPayload\<close>.\<close>

definition js_payload_field :: "(bytes \<Rightarrow> string) \<Rightarrow> bytes \<Rightarrow> int \<Rightarrow> js_payload \<Rightarrow> (js_error + (js_payload \<times> int)) option" where
  "js_payload_field decode payload offset p = (case js_readVarint payload offset of Inl e \<Rightarrow> Some (Inl e)
     | Inr (key, offset) \<Rightarrow> let fieldNumber = drop_bit 3 key; wireType = key AND 0x07 in
     if fieldNumber = 1 \<and> wireType = 0 then
       Some (res_bind (js_readVarint payload offset) (\<lambda>(v, next). Inr (p\<lparr>jp_timestamp := Some v\<rparr>, next)))
     else if fieldNumber = 2 \<and> wireType = 2 then
       (case js_readLengthDelimited payload offset of Inl e \<Rightarrow> Some (Inl e)
        | Inr (v, next) \<Rightarrow> map_option (\<lambda>r. res_bind r (\<lambda>m. Inr (p\<lparr>jp_metrics := jp_metrics p @ [m]\<rparr>, next)))
            (decodeSparkplugMetric decode v))
     else if fieldNumber = 3 \<and> wireType = 0 then
       Some (res_bind (js_readVarint payload offset) (\<lambda>(v, next). Inr (p\<lparr>jp_seq := Some v\<rparr>, next)))
     else Some (res_bind (js_skipField payload offset wireType) (\<lambda>next. Inr (p, next))))"

partial_function (option) js_payload_loop :: "(bytes \<Rightarrow> string) \<Rightarrow> bytes \<Rightarrow> int \<Rightarrow> js_payload \<Rightarrow> (js_error + js_payload) option" where
  "js_payload_loop decode payload offset p = (if offset < int (length payload) then
       case js_payload_field decode payload offset p of None \<Rightarrow> None
       | Some r \<Rightarrow> (case r of Inl e \<Rightarrow> Some (Inl e) | Inr (p, next) \<Rightarrow> js_payload_loop decode payload next p)
     else Some (Inr p))"

definition decodeSparkplugPayload :: "(bytes \<Rightarrow> string) \<Rightarrow> bytes \<Rightarrow> (js_error + js_payload) option" where
  "decodeSparkplugPayload decode payload =
     js_payload_loop decode payload 0 \<lparr>jp_timestamp = None, jp_seq = None, jp_metrics = []\<rparr>"

section \<open>Device reports\<close>

datatype redcon_source = SourceDbirth | SourceDdata

record redcon_update =
  update_redcon :: int
  update_source :: redcon_source

definition extractMetricRedcon :: "js_metric option \<Rightarrow> int option" where
  "extractMetricRedcon m = (case m of None \<Rightarrow> None | Some m \<Rightarrow>
     case (case jm_int m of Some v \<Rightarrow> Some v | None \<Rightarrow> jm_long m) of None \<Rightarrow> None
     | Some v \<Rightarrow> if 1 \<le> v \<and> v \<le> 4 then Some v else None)"

definition decodeSparkplugDeviceMetrics :: "(bytes \<Rightarrow> string) \<Rightarrow> string \<Rightarrow> bytes \<Rightarrow> sparkplug_topics \<Rightarrow> js_metric list option option" where
  "decodeSparkplugDeviceMetrics decode topic payload topics =
    (if topic \<noteq> dbirth topics \<and> topic \<noteq> ddata topics then Some None
     else map_option (\<lambda>r. case r of Inl e \<Rightarrow> None | Inr p \<Rightarrow> Some (jp_metrics p)) (decodeSparkplugPayload decode payload))"

definition extractSparkplugDeviceRedconUpdate :: "(bytes \<Rightarrow> string) \<Rightarrow> string \<Rightarrow> bytes \<Rightarrow> sparkplug_topics \<Rightarrow> redcon_update option option" where
  "extractSparkplugDeviceRedconUpdate decode topic payload topics =
    (if topic = ddeath topics then Some None
     else if topic \<noteq> dbirth topics \<and> topic \<noteq> ddata topics then Some None
     else map_option (\<lambda>ms. case ms of None \<Rightarrow> None | Some ms \<Rightarrow>
         map_option (\<lambda>r. \<lparr>update_redcon = r, update_source = (if topic = dbirth topics then SourceDbirth else SourceDdata)\<rparr>)
           (extractMetricRedcon (find (\<lambda>m. jm_name m = ''redcon'') ms)))
       (decodeSparkplugDeviceMetrics decode topic payload topics))"

section \<open>What the encoder writes\<close>

lemma unat_word_nat: "m < 2 ^ 64 \<Longrightarrow> unat (word_of_nat m :: u64) = m"
  by (simp add: unat_of_nat)

lemma varint_loop_appendVarint: "varint_loop n = appendVarint (word_of_nat (n mod 2 ^ 32))"
proof (induction n rule: varint_loop.induct)
  case (1 n)
  define m where "m = n mod 2 ^ 32"
  define w :: u64 where "w = word_of_nat m"
  have m: "m < 2 ^ 32" by (simp add: m_def)
  then have w: "unat w = m" by (simp add: w_def unat_word_nat)
  have drop: "drop_bit 7 w = word_of_nat (m div 128)"
    by (rule unsigned_word_eqI [where ?'a = nat]) (use m in \<open>simp add: unat_drop_7 w unat_word_nat\<close>)
  have "unat (w AND 0x7f) = m mod 128"
    by (simp only: masks take_bit_eq_mask [symmetric] unsigned_take_bit_eq w) (simp add: take_bit_eq_mod)
  moreover have "m mod 128 = n mod 128" by (simp add: m_def mod_mod_cancel)
  ultimately have byte: "ucast (w AND 0x7f) = (word_of_nat (n mod 128) :: u8)"
    by (intro unsigned_word_eqI [where ?'a = nat]) (simp add: unat_ucast_mod unat_of_nat)
  have nz: "drop_bit 7 w \<noteq> 0 \<longleftrightarrow> 0 < m div 128"
    using m by (simp only: drop) (simp add: unat_word_nat flip: unat_gt_0)
  have "m div 128 mod 2 ^ 32 = m div 128" using m by simp
  with 1 [OF refl refl] have "varint_loop (m div 128) = appendVarint (drop_bit 7 w)" if "0 < m div 128"
    using that by (simp only: drop) (simp add: m_def)
  then show ?case
    unfolding varint_loop.simps [of n] m_def [symmetric] w_def [symmetric]
    by (subst appendVarint.simps) (simp add: byte nz Let_def)
qed

lemma js_fields:
  "js_appendBytesField 1 bs = appendKey 1 2 @ varint_loop (length bs) @ bs"
  "js_appendBytesField 2 bs = appendKey 2 2 @ varint_loop (length bs) @ bs"
  "js_appendKey 1 0 = appendKey 1 0" "js_appendKey 3 0 = appendKey 3 0" "js_appendKey 4 0 = appendKey 4 0"
  "js_appendKey 10 0 = appendKey 10 0"
  by (simp_all add: js_appendBytesField_def js_appendKey_def appendKey_def varint_loop_appendVarint)

lemmas js_fields_Suc = js_fields [unfolded One_nat_def]

lemma small_varint: "n < 2 ^ 32 \<Longrightarrow> varint_loop n = appendVarint (word_of_nat n)"
  by (simp add: varint_loop_appendVarint)

text \<open>A command packet carries the bytes that the rig would write for the 32-bit remainders.\<close>

lemma redcon_packet_rig:
  assumes "encode ''redcon'' = map byte_of_char ''redcon''" "1 \<le> r" "r \<le> 4" "0 \<le> n" "0 \<le> ts"
  shows "\<exists>bs. redcon_packet encode topic (Integral r) (Integral n) (Integral ts) = Inr \<lparr>topicName = topic, packet_payload = bs\<rparr> \<and>
    BuildRedconPayload (word_of_int r) (word_of_nat (nat n mod 2 ^ 32)) (word_of_nat (nat ts mod 2 ^ 32)) = Inr bs"
proof -
  have r: "r = 1 \<or> r = 2 \<or> r = 3 \<or> r = 4" using assms(2,3) by arith
  then have v: "varint_loop (nat r) = appendVarint (scast (ucast (word_of_int r :: u8) :: u32))"
    by (auto simp: small_varint)
  have ok: "\<not> ((word_of_int r :: u8) < 1 \<or> (word_of_int r :: u8) > 4)" using r by auto
  have t: "varint_loop (nat 3) = appendVarint 3" by (simp add: small_varint)
  let ?m = "appendStringField 1 ''redcon'' @ appendVarintField 4 3 @ appendVarintField 10 (scast (ucast (word_of_int r :: u8) :: u32))"
  have "encodeSparkplugMetric encode \<lparr>in_name = ''redcon'', in_datatype = 3, in_int = Some (Integral r),
           in_long = None, in_float = None, in_double = None, in_bool = None, in_string = None, in_timestamp = None\<rparr> = Inr ?m"
    using assms(1,2) by (simp add: encodeSparkplugMetric_def metric_input_value_def js_appendVarintField_def js_appendVarint_def
      js_fields js_fields_Suc v t small_varint appendStringField_def appendBytesField_def appendVarintField_def)
  moreover have "length ?m < 2 ^ 32"
    using field_sizes(3) [of 1 "''redcon''"] field_sizes(1) [of 4 3] field_sizes(1) [of 10 "scast (ucast (word_of_int r :: u8) :: u32)"]
    by simp
  ultimately show ?thesis using assms(2-5) ok
    by (simp add: redcon_packet_def encodeSparkplugPayload_def js_appendVarintField_def js_appendVarint_def js_fields js_fields_Suc
      varint_loop_appendVarint [of "nat n"] varint_loop_appendVarint [of "nat ts"] small_varint
      BuildRedconPayload_def build_validated_def ValidateRedcon_def EncodePayload_def NewInt32Metric_def EncodeMetric_def
      metric_value_fields_def appendBytesField_def appendVarintField_def)
qed

text \<open>
  C37. Commands of the office reach the rig.  A packet is built exactly for an integral level from 1 to 4,
  and the rig decodes it as that level; the sequence number and the timestamp arrive reduced to 32 bits.
\<close>

theorem office_commands_reach_rig:
  assumes "encode ''redcon'' = map byte_of_char ''redcon''" "0 \<le> n" "0 \<le> ts"
  shows "if 1 \<le> r \<and> r \<le> 4 then \<exists>bs. buildSparkplugRedconCommandPacket encode topics (Integral r) (Integral n) (Integral ts) =
        Inr \<lparr>topicName = dcmd topics, packet_payload = bs\<rparr> \<and>
      DecodeRedconCommand bs = Inr (Some \<lparr>command_metric = ''redcon'', command_value = word_of_int r,
        command_seq = Some (word_of_int (n mod 2 ^ 32)), command_timestamp = Some (word_of_int (ts mod 2 ^ 32))\<rparr>)
    else buildSparkplugRedconCommandPacket encode topics (Integral r) (Integral n) (Integral ts) = Inl (RedconRange (Integral r))"
proof (cases "1 \<le> r \<and> r \<le> 4")
  case True
  then have "r = 1 \<or> r = 2 \<or> r = 3 \<or> r = 4" by arith
  then have ok: "\<not> ((word_of_int r :: u8) < 1 \<or> (word_of_int r :: u8) > 4)" by auto
  have nat: "word_of_nat (nat k mod 2 ^ 32) = (word_of_int (k mod 2 ^ 32) :: u64)" if "0 \<le> k" for k
  proof -
    have "nat k mod 2 ^ 32 = nat (k mod 2 ^ 32)" using that by (simp add: nat_mod_distrib)
    moreover have "int (nat (k mod 2 ^ 32)) = k mod 2 ^ 32" by simp
    ultimately show ?thesis by (metis of_int_of_nat_eq)
  qed
  from True redcon_packet_rig [of encode r n ts "dcmd topics"] assms
    redcon_round_trip [OF ok, of "word_of_nat (nat n mod 2 ^ 32)" "word_of_nat (nat ts mod 2 ^ 32)"]
  show ?thesis
    unfolding buildSparkplugRedconCommandPacket_def nat [OF assms(2), symmetric] nat [OF assms(3), symmetric] by auto
next
  case False
  then show ?thesis by (auto simp: buildSparkplugRedconCommandPacket_def redcon_packet_def)
qed

theorem office_commands_reach_rig_witness:
  "\<exists>bs. buildSparkplugRedconCommandPacket (map byte_of_char) (buildSparkplugTopics ''t'' ''r'' ''d'') (Integral 3)
       (Integral 5) (Integral 1700000000000) = Inr \<lparr>topicName = ''spBv1.0/t/DCMD/r/d'', packet_payload = bs\<rparr> \<and>
     DecodeRedconCommand bs = Inr (Some \<lparr>command_metric = ''redcon'', command_value = 3, command_seq = Some 5,
       command_timestamp = Some 3487918080\<rparr>)"
  using office_commands_reach_rig [of "map byte_of_char" 5 1700000000000 3 "buildSparkplugTopics ''t'' ''r'' ''d''"]
  by (simp add: buildSparkplugTopics_def)

section \<open>What the decoder reads\<close>

text \<open>The seven-bit groups of a number, put together with 32-bit shifts.\<close>

function js_collect :: "u32 \<Rightarrow> nat \<Rightarrow> u64 \<Rightarrow> u32" where
  "js_collect acc shift v = (let acc = acc OR push_bit (shift mod 32) (ucast (v AND 0x7f)) in
     if drop_bit 7 v \<noteq> 0 then js_collect acc (shift + 7) (drop_bit 7 v) else acc)"
  by pat_completeness auto

termination
  by (relation "measure (\<lambda>(_, _, v). unat v)") (auto simp: drop_bit_7_less)

declare js_collect.simps [simp del]

definition js_int :: "u64 \<Rightarrow> int" where
  "js_int v = sint (js_collect 0 0 v)"

lemma js_at_append [simp]: "js_at (pre @ b # rest) (int (length pre)) = b"
  by (simp add: js_at_def nth_append)

lemma low_byte_32:
  fixes v :: u64
  shows "ucast (((ucast (v AND 0x7f) :: u8) OR 0x80) AND 0x7f) = (ucast (v AND 0x7f) :: u32)"
    "ucast ((ucast (v AND 0x7f) :: u8) AND 0x7f) = (ucast (v AND 0x7f) :: u32)"
  unfolding masks by (rule bit_word_eqI; auto simp: bit_simps bit_0x80)+

lemma js_varint_loop_append:
  assumes "s \<le> 63" "unat v < 2 ^ (64 - s)"
  shows "js_varint_loop (pre @ appendVarint v @ rest) acc s (int (length pre)) =
    Inr (sint (js_collect acc s v), int (length pre + length (appendVarint v)))"
  using assms
proof (induction v arbitrary: pre acc s rule: appendVarint.induct)
  case (1 v)
  define b where "b = (ucast (v AND 0x7f) :: u8)"
  note low = low_byte [of v, folded b_def] low_byte_32 [of v, folded b_def]
  show ?case
  proof (cases "drop_bit 7 v = 0")
    case True
    then have "appendVarint v = [b]" by (simp add: appendVarint.simps [of v] b_def Let_def)
    then show ?thesis using True
      by (simp add: js_varint_loop.simps [of _ _ s] js_collect.simps [of _ _ v] low)
  next
    case False
    then have a: "appendVarint v = (b OR 0x80) # appendVarint (drop_bit 7 v)"
      by (subst appendVarint.simps) (simp add: b_def Let_def)
    note s = varint_shift [OF 1(2,3) False]
    let ?acc = "acc OR push_bit (s mod 32) (ucast (v AND 0x7f))"
    have "js_varint_loop (pre @ appendVarint v @ rest) acc s (int (length pre)) =
        js_varint_loop ((pre @ [b OR 0x80]) @ appendVarint (drop_bit 7 v) @ rest) ?acc (s + 7) (int (length (pre @ [b OR 0x80])))"
      unfolding a using s(1) low by (subst js_varint_loop.simps) (simp add: Let_def add.commute)
    also have "\<dots> = Inr (sint (js_collect ?acc (s + 7) (drop_bit 7 v)),
        int (length (pre @ [b OR 0x80]) + length (appendVarint (drop_bit 7 v))))"
      by (rule 1(1) [OF refl refl False s])
    also have "js_collect ?acc (s + 7) (drop_bit 7 v) = js_collect acc s v"
      using False by (subst (2) js_collect.simps) (simp add: Let_def)
    finally show ?thesis by (simp only: a) simp
  qed
qed

lemma js_readVarint_append [simp]:
  "js_readVarint (pre @ appendVarint v @ rest) (int (length pre)) =
     Inr (js_int v, int (length pre) + int (length (appendVarint v)))"
  using js_varint_loop_append [of 0 v pre rest 0] unsigned_less [of v, where ?'a = nat]
  by (simp add: js_readVarint_def js_int_def)

text \<open>Numbers below $2^{31}$ are read as they are.\<close>

lemma split_low_32: "push_bit s (ucast (v :: u64)) = push_bit s (ucast (v AND 0x7f)) OR push_bit (s + 7) (ucast (drop_bit 7 v) :: u32)"
  unfolding masks
proof (rule bit_word_eqI)
  fix n assume "n < LENGTH(32)"
  moreover have "7 + (n - (s + 7)) = n - s" if "s + 7 \<le> n" using that by simp
  ultimately show "bit (push_bit s (ucast v :: u32)) n =
      bit (push_bit s (ucast (v AND mask 7)) OR push_bit (s + 7) (ucast (drop_bit 7 v) :: u32)) n"
    by (cases "s + 7 \<le> n") (auto simp: bit_simps)
qed

lemma js_collect_small:
  "s \<le> 31 \<Longrightarrow> unat v < 2 ^ (32 - s) \<Longrightarrow> js_collect acc s v = acc OR push_bit s (ucast v)"
proof (induction acc s v rule: js_collect.induct)
  case (1 acc s v)
  show ?case
  proof (cases "drop_bit 7 v = 0")
    case True
    then show ?thesis using 1(2) split_low_32 [of s v] by (simp add: js_collect.simps [of acc s v] Let_def)
  next
    case False
    have "0 < unat v div 128" using False unat_drop_7 [of v] by (metis gr0I unat_eq_0)
    then have "128 \<le> unat v" by (simp add: div_greater_zero_iff)
    then have "(2::nat) ^ 7 < 2 ^ (32 - s)" using 1(3) by simp
    then have less: "7 < 32 - s" by (rule power_less_imp_less_exp [rotated]) simp
    have "2 ^ (32 - s) = 2 ^ (32 - (s + 7)) * (128::nat)" using less power_add [of "2::nat" "32 - (s + 7)" 7] by simp
    then have small: "unat (drop_bit 7 v) < 2 ^ (32 - (s + 7))"
      using 1(3) by (simp only: unat_drop_7 less_mult_imp_div_less)
    have "s mod 32 = s" using 1(2) by simp
    with 1(1) [OF refl False _ small] less False have
      "js_collect acc s v = (acc OR push_bit s (ucast (v AND 0x7f))) OR push_bit (s + 7) (ucast (drop_bit 7 v))"
      by (subst js_collect.simps) (simp add: Let_def)
    also have "\<dots> = acc OR push_bit s (ucast v)" unfolding or.assoc by (rule arg_cong [OF split_low_32 [symmetric]])
    finally show ?thesis .
  qed
qed

lemma js_int_small:
  assumes "n < 2 ^ 31"
  shows "js_int (word_of_nat n) = int n"
proof -
  have "unat (word_of_nat n :: u64) = n" using assms by (intro unat_word_nat) simp
  moreover have "ucast (word_of_nat n :: u64) = (word_of_nat n :: u32)" by (rule bit_word_eqI) (simp add: bit_simps)
  ultimately have "js_collect 0 0 (word_of_nat n) = word_of_nat n"
    using js_collect_small [of 0 "word_of_nat n" 0] assms by simp
  then show ?thesis using assms by (simp add: js_int_def signed_of_nat signed_take_bit_int_eq_self)
qed

lemma js_int_numeral: "js_int 0 = 0" "js_int 1 = 1"
  using js_int_small [of 0] js_int_small [of 1] by simp_all

lemma js_after_key [simp]:
  "js_readVarint (pre @ k @ appendVarint v @ rest) (int (length pre) + int (length k)) =
     Inr (js_int v, int (length pre) + int (length k) + int (length (appendVarint v)))"
  using js_readVarint_append [of "pre @ k" v rest] by simp

lemma subarray_append: "subarray (pre @ v @ rest) (int (length pre)) (int (length pre) + int (length v)) = v"
  by (simp add: subarray_def js_index_def)

lemma js_bytes_after_key:
  assumes "length (pre @ k @ appendVarint (word_of_nat (length v)) @ v @ rest) < 2 ^ 31"
  shows "js_readLengthDelimited (pre @ k @ appendVarint (word_of_nat (length v)) @ v @ rest) (int (length pre) + int (length k)) =
    Inr (v, int (length pre) + int (length k) + int (length (appendVarint (word_of_nat (length v)))) + int (length v))"
proof -
  let ?n = "appendVarint (word_of_nat (length v))"
  have "js_int (word_of_nat (length v)) = int (length v)" using assms by (intro js_int_small) simp
  moreover have "subarray ((pre @ k @ ?n) @ v @ rest) (int (length (pre @ k @ ?n))) (int (length (pre @ k @ ?n)) + int (length v)) = v"
    by (rule subarray_append)
  ultimately show ?thesis by (simp add: js_readLengthDelimited_def add.assoc)
qed

lemma js_fixed_after_key:
  "js_readFixed 8 field (pre @ k @ PutUint64 d @ rest) (int (length pre) + int (length k)) =
     Inr (d, int (length pre) + int (length k) + 8)"
proof -
  have "js_at (pre @ k @ PutUint64 d @ rest) (int (length pre) + int (length k) + int i) = PutUint64 d ! i" if "i < 8" for i
  proof -
    have "js_at bs (int j) = (if j < length bs then bs ! j else 0)" for bs j by (simp add: js_at_def)
    from this [of _ "length pre + length k + i"] show ?thesis using that by (simp add: nth_append)
  qed
  then have "map (\<lambda>i. js_at (pre @ k @ PutUint64 d @ rest) (int (length pre) + int (length k) + int i)) [0..<8] = PutUint64 d"
    by (intro nth_equalityI) simp_all
  then show ?thesis by (simp add: js_readFixed_def)
qed

text \<open>The two loops, one field per turn.\<close>

definition js_reads :: "(bytes \<Rightarrow> int \<Rightarrow> 's \<Rightarrow> (js_error + ('s \<times> int)) option) \<Rightarrow> bytes \<Rightarrow> ('s \<Rightarrow> 's) \<Rightarrow> bool" where
  "js_reads field f upd \<longleftrightarrow> f \<noteq> [] \<and> (\<forall>pre rest st. length (pre @ f @ rest) < 2 ^ 31 \<longrightarrow>
     field (pre @ f @ rest) (int (length pre)) st = Some (Inr (upd st, int (length pre) + int (length f))))"

locale js_field_loop =
  fixes field :: "bytes \<Rightarrow> int \<Rightarrow> 's \<Rightarrow> (js_error + ('s \<times> int)) option"
    and loop :: "bytes \<Rightarrow> int \<Rightarrow> 's \<Rightarrow> (js_error + 's) option"
  assumes loop: "loop data offset st = (if offset < int (length data) then
      case field data offset st of None \<Rightarrow> None
      | Some r \<Rightarrow> (case r of Inl e \<Rightarrow> Some (Inl e) | Inr (st, next) \<Rightarrow> loop data next st)
    else Some (Inr st))"
begin

lemma loop_fields:
  assumes "\<forall>(f, upd) \<in> set fs. js_reads field f upd" "length (pre @ concat (map fst fs)) < 2 ^ 31"
  shows "loop (pre @ concat (map fst fs)) (int (length pre)) st = Some (Inr (fold snd fs st))"
  using assms
proof (induction fs arbitrary: pre st)
  case Nil
  then show ?case by (subst loop) simp
next
  case (Cons p fs)
  obtain f upd where p: "p = (f, upd)" by (cases p)
  have f: "js_reads field f upd" using Cons.prems(1) p by simp
  then have "0 < length f" by (simp add: js_reads_def)
  then have "int (length pre) < int (length (pre @ f @ concat (map fst fs)))" unfolding length_append by linarith
  with f have "loop (pre @ f @ concat (map fst fs)) (int (length pre)) st =
      loop (pre @ f @ concat (map fst fs)) (int (length pre) + int (length f)) (upd st)"
    using Cons.prems(2) p by (subst loop) (simp add: js_reads_def)
  with Cons.IH [of "pre @ f" "upd st"] Cons.prems show ?case by (simp add: p)
qed

lemma loop_all:
  assumes "\<forall>(f, upd) \<in> set fs. js_reads field f upd" "length (concat (map fst fs)) < 2 ^ 31"
  shows "loop (concat (map fst fs)) 0 st = Some (Inr (fold snd fs st))"
  using loop_fields [of fs "[]" st] assms by simp

end

interpretation js_metrics: js_field_loop "\<lambda>bytes offset m. Some (js_metric_field decode bytes offset m)" "js_metric_loop decode" for decode
  by unfold_locales (subst js_metric_loop.simps, simp)

interpretation js_payloads: js_field_loop "js_payload_field decode" "js_payload_loop decode" for decode
  by unfold_locales (rule js_payload_loop.simps)

lemma js_int_numeral_small [simp]: "(numeral k :: nat) < 2 ^ 31 \<Longrightarrow> js_int (numeral k) = numeral k"
  using js_int_small [of "numeral k"] by simp

lemma js_key_read [simp]:
  "js_readVarint (pre @ appendKey f w @ rest) (int (length pre)) =
     Inr (js_int (push_bit 3 f OR w), int (length pre) + int (length (appendKey f w)))"
  by (simp add: appendKey_def)

text \<open>What the office makes of a value, a metric and a payload of the rig.\<close>

fun js_view_value :: "(bytes \<Rightarrow> string) \<Rightarrow> metric_value \<Rightarrow> js_metric \<Rightarrow> js_metric" where
  "js_view_value decode (MetricInt32 i) m = m\<lparr>jm_datatype := 3, jm_int := Some (js_int (scast i))\<rparr>"
| "js_view_value decode (MetricUInt64 n) m = m\<lparr>jm_datatype := 8, jm_long := Some (js_int n)\<rparr>"
| "js_view_value decode (MetricDouble d) m = m\<lparr>jm_datatype := 10, jm_double := Some d\<rparr>"
| "js_view_value decode (MetricBoolean b) m = m\<lparr>jm_datatype := 11, jm_bool := Some b\<rparr>"
| "js_view_value decode (MetricString t) m = m\<lparr>jm_datatype := 12, jm_string := Some (decode (map byte_of_char t))\<rparr>"
| "js_view_value decode (MetricOther k) m = m"

definition js_view_metric :: "(bytes \<Rightarrow> string) \<Rightarrow> metric \<Rightarrow> js_metric" where
  "js_view_metric decode m =
     js_view_value decode (metric_val m) (js_no_metric\<lparr>jm_name := decode (map byte_of_char (metric_name m))\<rparr>)"

definition js_view :: "(bytes \<Rightarrow> string) \<Rightarrow> payload \<Rightarrow> js_payload" where
  "js_view decode p = \<lparr>jp_timestamp = Some (js_int (timestamp p)), jp_seq = map_option js_int (seq p),
     jp_metrics = map (js_view_metric decode) (metrics p)\<rparr>"

abbreviation js_metric_reads :: "(bytes \<Rightarrow> string) \<Rightarrow> bytes \<Rightarrow> (js_metric \<Rightarrow> js_metric) \<Rightarrow> bool" where
  "js_metric_reads decode \<equiv> js_reads (\<lambda>bytes offset m. Some (js_metric_field decode bytes offset m))"

lemma js_metric_fields:
  "js_metric_reads decode (appendStringField 1 name) (jm_name_update (\<lambda>_. decode (map byte_of_char name)))"
  "js_metric_reads decode (appendVarintField 4 t) (jm_datatype_update (\<lambda>_. js_int t))"
  "js_metric_reads decode (appendVarintField 10 n) (jm_int_update (\<lambda>_. Some (js_int n)))"
  "js_metric_reads decode (appendVarintField 11 n) (jm_long_update (\<lambda>_. Some (js_int n)))"
  "js_metric_reads decode (appendFixed64Field 13 d) (jm_double_update (\<lambda>_. Some d))"
  "js_metric_reads decode (appendVarintField 14 n) (jm_bool_update (\<lambda>_. Some (js_int n \<noteq> 0)))"
  "js_metric_reads decode (appendStringField 15 name) (jm_string_update (\<lambda>_. Some (decode (map byte_of_char name))))"
  by (simp_all add: js_reads_def js_metric_field_def appendStringField_def appendBytesField_def appendVarintField_def
    appendFixed64Field_def js_bytes_after_key [where ?v = "map byte_of_char _", simplified] js_fixed_after_key Let_def)

lemma js_metric_datatype:
  "(numeral k :: nat) < 2 ^ 31 \<Longrightarrow> js_metric_reads decode (appendVarintField 4 (numeral k)) (jm_datatype_update (\<lambda>_. numeral k))"
  using js_metric_fields(2) [of decode "numeral k"] by simp

lemma js_metric_round_trip:
  assumes "EncodeMetric m = Inr bs" "length bs < 2 ^ 31"
  shows "decodeSparkplugMetric decode bs = Some (Inr (js_view_metric decode m))"
proof -
  define name :: "bytes \<times> (js_metric \<Rightarrow> js_metric)" where
    "name = (appendStringField 1 (metric_name m), jm_name_update (\<lambda>_. decode (map byte_of_char (metric_name m))))"
  have whole: "decodeSparkplugMetric decode bs = Some (Inr (fold snd fs js_no_metric))"
    if "bs = concat (map fst fs)" "\<forall>(f, upd) \<in> set fs. js_metric_reads decode f upd" for fs
    using js_metrics.loop_all [OF that(2)] assms(2) that(1) by (simp add: decodeSparkplugMetric_def)
  have b: "js_int (if c then 1 else 0) \<noteq> 0 \<longleftrightarrow> c" for c by (simp add: js_int_numeral)
  show ?thesis
  proof (cases "metric_val m")
    case (MetricInt32 i)
    with assms(1) whole [of "[name, (appendVarintField 4 3, jm_datatype_update (\<lambda>_. 3)),
        (appendVarintField 10 (scast i), jm_int_update (\<lambda>_. Some (js_int (scast i))))]"]
    show ?thesis by (simp add: name_def js_metric_fields js_metric_datatype EncodeMetric_def metric_value_fields_def js_view_metric_def)
  next
    case (MetricUInt64 n)
    with assms(1) whole [of "[name, (appendVarintField 4 8, jm_datatype_update (\<lambda>_. 8)),
        (appendVarintField 11 n, jm_long_update (\<lambda>_. Some (js_int n)))]"]
    show ?thesis by (simp add: name_def js_metric_fields js_metric_datatype EncodeMetric_def metric_value_fields_def js_view_metric_def)
  next
    case (MetricDouble d)
    with assms(1) whole [of "[name, (appendVarintField 4 10, jm_datatype_update (\<lambda>_. 10)),
        (appendFixed64Field 13 d, jm_double_update (\<lambda>_. Some d))]"]
    show ?thesis by (simp add: name_def js_metric_fields js_metric_datatype EncodeMetric_def metric_value_fields_def js_view_metric_def)
  next
    case (MetricBoolean c)
    with assms(1) whole [of "[name, (appendVarintField 4 11, jm_datatype_update (\<lambda>_. 11)),
        (appendVarintField 14 (if c then 1 else 0), jm_bool_update (\<lambda>_. Some (js_int (if c then 1 else 0) \<noteq> 0)))]"]
    show ?thesis unfolding b by (simp add: name_def js_metric_fields(1) js_metric_datatype js_metric_fields(6) [of _ "if c then 1 else 0", unfolded b]
      EncodeMetric_def metric_value_fields_def js_view_metric_def)
  next
    case (MetricString t)
    with assms(1) whole [of "[name, (appendVarintField 4 12, jm_datatype_update (\<lambda>_. 12)),
        (appendStringField 15 t, jm_string_update (\<lambda>_. Some (decode (map byte_of_char t))))]"]
    show ?thesis by (simp add: name_def js_metric_fields js_metric_datatype EncodeMetric_def metric_value_fields_def js_view_metric_def)
  next
    case (MetricOther k)
    with assms(1) show ?thesis by (simp add: EncodeMetric_def metric_value_fields_def)
  qed
qed

lemma js_payload_fields:
  "js_reads (js_payload_field decode) (appendVarintField 1 n) (jp_timestamp_update (\<lambda>_. Some (js_int n)))"
  "js_reads (js_payload_field decode) (appendVarintField 3 n) (jp_seq_update (\<lambda>_. Some (js_int n)))"
  "decodeSparkplugMetric decode bs = Some (Inr m) \<Longrightarrow>
     js_reads (js_payload_field decode) (appendBytesField 2 bs) (jp_metrics_update (\<lambda>ms. ms @ [m]))"
  by (simp_all add: js_reads_def js_payload_field_def appendBytesField_def appendVarintField_def js_bytes_after_key Let_def)

lemma js_metrics_parts:
  assumes "encode_metrics ms = Inr bs" "length bs < 2 ^ 31"
  shows "\<exists>fs. bs = concat (map fst fs) \<and> (\<forall>(f, upd) \<in> set fs. js_reads (js_payload_field decode) f upd) \<and>
    (\<forall>p. fold snd fs p = p\<lparr>jp_metrics := jp_metrics p @ map (js_view_metric decode) ms\<rparr>)"
  using assms
proof (induction ms arbitrary: bs)
  case (Cons m ms)
  from Cons.prems(1) obtain e rest where e: "EncodeMetric m = Inr e" "encode_metrics ms = Inr rest"
    "bs = appendBytesField 2 e @ rest" by (auto simp: res_bind_Inr)
  have "length rest < 2 ^ 31" "length e < 2 ^ 31" using Cons.prems(2) e(3) by (simp_all add: appendBytesField_def)
  with Cons.IH [OF e(2)] obtain fs where fs: "rest = concat (map fst fs)"
    "\<forall>(f, upd) \<in> set fs. js_reads (js_payload_field decode) f upd"
    "\<forall>p. fold snd fs p = p\<lparr>jp_metrics := jp_metrics p @ map (js_view_metric decode) ms\<rparr>" by blast
  have "decodeSparkplugMetric decode e = Some (Inr (js_view_metric decode m))"
    by (rule js_metric_round_trip [OF e(1)]) fact
  then show ?case using e(3) fs
    by (intro exI [of _ "(appendBytesField 2 e, jp_metrics_update (\<lambda>xs. xs @ [js_view_metric decode m])) # fs"])
      (simp add: js_payload_fields)
qed (auto intro: exI [of _ "[]"])

text \<open>Every payload of the rig is read to the end.\<close>

lemma js_view_payload:
  assumes "EncodePayload p = Inr bs" "length bs < 2 ^ 31"
  shows "decodeSparkplugPayload decode bs = Some (Inr (js_view decode p))"
proof -
  define last :: "(bytes \<times> (js_payload \<Rightarrow> js_payload)) list" where
    "last = (case seq p of Some n \<Rightarrow> [(appendVarintField 3 n, jp_seq_update (\<lambda>_. Some (js_int n)))] | None \<Rightarrow> [])"
  from assms(1) obtain ms where ms: "encode_metrics (metrics p) = Inr ms"
    "bs = appendVarintField 1 (timestamp p) @ ms @ concat (map fst last)"
    by (auto simp: EncodePayload_def res_bind_Inr last_def split: option.splits)
  then have "length ms < 2 ^ 31" using assms(2) by simp
  with js_metrics_parts [OF ms(1), where ?decode = decode] obtain fs where fs: "ms = concat (map fst fs)"
    "\<forall>(f, upd) \<in> set fs. js_reads (js_payload_field decode) f upd"
    "\<forall>q. fold snd fs q = q\<lparr>jp_metrics := jp_metrics q @ map (js_view_metric decode) (metrics p)\<rparr>" by blast
  define all where "all = (appendVarintField 1 (timestamp p), jp_timestamp_update (\<lambda>_. Some (js_int (timestamp p)))) # fs @ last"
  have bs: "bs = concat (map fst all)" by (simp add: all_def ms(2) fs(1))
  have "\<forall>(f, upd) \<in> set all. js_reads (js_payload_field decode) f upd"
    using fs(2) by (cases "seq p") (simp_all add: all_def last_def js_payload_fields ball_Un)
  from js_payloads.loop_all [OF this] assms(2) bs
  have "decodeSparkplugPayload decode bs = Some (Inr (fold snd all \<lparr>jp_timestamp = None, jp_seq = None, jp_metrics = []\<rparr>))"
    by (simp add: decodeSparkplugPayload_def)
  then show ?thesis by (cases "seq p") (simp_all add: all_def last_def fs(3) js_view_def)
qed

section \<open>Properties of the reader\<close>

lemma report_metrics:
  assumes "BuildDeviceReportPayload r n ts ms = Inr bs"
  shows "\<not> (r < 1 \<or> r > 4)"
    "EncodePayload \<lparr>timestamp = ts, metrics = NewInt32Metric ''redcon'' (ucast r) # ms, seq = Some n\<rparr> = Inr bs"
  using assms by (auto simp: BuildDeviceReportPayload_def build_validated_def ValidateRedcon_def split: option.splits if_splits)

lemma js_view_redcon:
  fixes r :: u8
  assumes "\<not> (r < 1 \<or> r > 4)" "decode (map byte_of_char ''redcon'') = ''redcon''"
  shows "extractMetricRedcon (find (\<lambda>m. jm_name m = ''redcon'') (jp_metrics (js_view decode
    \<lparr>timestamp = ts, metrics = NewInt32Metric ''redcon'' (ucast r) # ms, seq = n\<rparr>))) = Some (uint r)"
  using level_cases [OF assms(1)] assms(2)
  by (auto simp: js_view_def js_view_metric_def NewInt32Metric_def extractMetricRedcon_def js_no_metric_def js_int_numeral)

text \<open>
  C38. Reports of the rig reach the office.  A report that the rig encodes for a device, with any further
  metrics, sequence number and timestamp, is read by the office on the birth and the data topic of that
  device as the level of the report: the decoder ends and the other fields do not disturb it.
\<close>

theorem office_reads_reports:
  assumes "BuildDeviceReportPayload r n ts ms = Inr bs" "length bs < 2 ^ 31"
    and "decode (map byte_of_char ''redcon'') = ''redcon''"
  shows "extractSparkplugDeviceRedconUpdate decode (BuildDeviceTopic g ''DBIRTH'' e d) bs (buildSparkplugTopics g e d) =
      Some (Some \<lparr>update_redcon = uint r, update_source = SourceDbirth\<rparr>) \<and>
    extractSparkplugDeviceRedconUpdate decode (BuildDeviceTopic g ''DDATA'' e d) bs (buildSparkplugTopics g e d) =
      Some (Some \<lparr>update_redcon = uint r, update_source = SourceDdata\<rparr>)"
  using js_view_redcon [of r decode ts ms "Some n", OF report_metrics(1) [OF assms(1)] assms(3)]
    js_view_payload [OF report_metrics(2) [OF assms(1)] assms(2), of decode]
  by (simp add: extractSparkplugDeviceRedconUpdate_def decodeSparkplugDeviceMetrics_def BuildDeviceTopic_def
    buildSparkplugTopics_def Let_def)

theorem office_reads_reports_witness:
  "\<exists>bs. BuildDeviceReportPayload 3 1 1700000000000 [] = Inr bs \<and>
     extractSparkplugDeviceRedconUpdate (map char_of_byte) ''spBv1.0/t/DDATA/r/d'' bs (buildSparkplugTopics ''t'' ''r'' ''d'') =
       Some (Some \<lparr>update_redcon = 3, update_source = SourceDdata\<rparr>)"
proof -
  let ?p = "\<lparr>timestamp = 1700000000000, metrics = [NewInt32Metric ''redcon'' 3], seq = Some 1\<rparr>"
  obtain bs where bs: "EncodePayload ?p = Inr bs"
    by (simp add: EncodePayload_def NewInt32Metric_def EncodeMetric_def metric_value_fields_def)
  then have b: "BuildDeviceReportPayload 3 1 1700000000000 [] = Inr bs"
    by (simp add: BuildDeviceReportPayload_def build_validated_def ValidateRedcon_def)
  have "length bs < 2 ^ 31" using redcon_payload_size [OF bs] by simp
  from office_reads_reports [OF b this, of "map char_of_byte" "''t''" "''r''" "''d''"] b show ?thesis
    by (simp add: BuildDeviceTopic_def)
qed

text \<open>
  Integers outside 0 to $2^{31}-1$ are misread: the groups above bit 31 are shifted back to the low bits.
\<close>

lemma misread_examples: "js_int (scast (- 60 :: u32)) = - 4" "js_int 1700000000000 \<noteq> 1700000000000 mod 2 ^ 32"
  by (simp_all add: js_int_def js_collect.simps [of _ _ "numeral _"] js_collect.simps [of _ _ "- numeral _"]
    js_collect.simps [of _ _ 1] Let_def)

definition endless :: bytes where
  "endless = [0x1a, 0xfa, 0xff, 0xff, 0xff, 0x0f]"

lemma endless_field: "js_payload_field decode endless 0 p = Some (Inr (p, 0))"
proof -
  have key: "js_readVarint endless 0 = Inr (26, 1)"
    by (simp add: js_readVarint_def js_varint_loop.simps [of _ 0] js_at_def endless_def Let_def)
  have len: "js_readVarint endless 1 = Inr (- 6, 6)"
    by (simp add: js_readVarint_def js_varint_loop.simps [of "_ # _"] js_at_def endless_def Let_def)
  show ?thesis
    by (simp add: js_payload_field_def key js_skipField_def js_readLengthDelimited_def len endless_def [symmetric])
qed

lemma endless_loop:
  assumes "js_payload_loop decode data offset p = Some r"
  shows "\<not> (data = endless \<and> offset = 0)"
proof (rule js_payload_loop.raw_induct [where P = "\<lambda>decode data offset p r. \<not> (data = endless \<and> offset = 0)", OF _ assms])
  fix loop :: "(bytes \<Rightarrow> string) \<Rightarrow> bytes \<Rightarrow> int \<Rightarrow> js_payload \<Rightarrow> (js_error + js_payload) option"
    and decode :: "bytes \<Rightarrow> string" and data :: bytes and offset :: int and p :: js_payload and r :: "js_error + js_payload"
  assume IH: "\<And>decode data offset p r. loop decode data offset p = Some r \<Longrightarrow> \<not> (data = endless \<and> offset = 0)"
    and body: "(if offset < int (length data) then case js_payload_field decode data offset p of None \<Rightarrow> None
       | Some r \<Rightarrow> (case r of Inl e \<Rightarrow> Some (Inl e) | Inr (p, next) \<Rightarrow> loop decode data next p)
     else Some (Inr p)) = Some r"
  have "0 < length endless" by (simp add: endless_def)
  with IH [of decode endless 0 p r] body show "\<not> (data = endless \<and> offset = 0)" by (auto simp: endless_field)
qed

text \<open>
  C40. A negative length makes the office read forever.  The six bytes below are a field of wire type 2 whose
  length is read as -6; after the field the loop of \<^verbatim>\<open>decodeSparkplugPayload\<close> is back where it started.
\<close>

theorem office_decoder_diverges:
  "decodeSparkplugPayload decode [0x1a, 0xfa, 0xff, 0xff, 0xff, 0x0f] = None"
proof (rule ccontr)
  assume "decodeSparkplugPayload decode [0x1a, 0xfa, 0xff, 0xff, 0xff, 0x0f] \<noteq> None"
  then show False unfolding decodeSparkplugPayload_def endless_def [symmetric] by (auto dest: endless_loop)
qed

end
