(* ===== verification/Cloud.thy ===== *)
theory Cloud
  imports Reconcile
begin

text \<open>
  Model of the launch requests and of the inventory in \<^verbatim>\<open>src/agent/src/cloud.cpp\<close>: \<^verbatim>\<open>make_cloud_request\<close>,
  \<^verbatim>\<open>parse_request\<close>, \<^verbatim>\<open>saved_launch_image\<close> and the pagination of \<^verbatim>\<open>for_each_page\<close>.  The JSON reader and writer of
  the AWS SDK and the MicroVM service are parameters.
\<close>

section \<open>Launch requests\<close>

record cloud_config =
  config_image :: string
  config_image_version :: string
  config_execution_role :: string
  config_log_group :: string
  config_region :: string

text \<open>A member of a JSON object, as far as \<^verbatim>\<open>JsonView\<close> is asked about it.\<close>

datatype json_member = JString string | JInteger int | JOther

type_synonym json_object = "(string \<times> json_member) list"

text \<open>
  \<open>parse\<close> stands for the SDK's parser: the members of the text when it is a JSON object.  \<open>render\<close> stands for
  \<^verbatim>\<open>WriteCompact\<close>.
\<close>

definition identifier_chars :: string where
  "identifier_chars = ''abcdefghijklmnopqrstuvwxyzABCDEFGHIJKLMNOPQRSTUVWXYZ0123456789_-:.''"

definition is_identifier :: "string \<Rightarrow> bool" where
  "is_identifier v \<longleftrightarrow> v \<noteq> [] \<and> length v \<le> 128 \<and> only_of identifier_chars v"

definition field :: "json_object \<Rightarrow> string \<Rightarrow> exn + string" where
  "field obj name = (case map_of obj name of
     Some (JString v) \<Rightarrow> if v = [] then Inl (RuntimeError (''invalid launch request field: '' @ name)) else Inr v
   | _ \<Rightarrow> Inl (RuntimeError (''invalid launch request field: '' @ name)))"

definition member_count :: "json_object \<Rightarrow> nat" where
  "member_count obj = length (remdups (map fst obj))"

record launch_request =
  client_token :: string
  image_identifier :: string
  image_version :: string
  execution_role_arn :: string
  run_hook_payload :: string
  maximum_duration :: int
  ingress_connectors :: "string list"
  egress_connectors :: "string list"
  log_group :: string

definition invalid :: "string \<Rightarrow> exn + 'a" where
  "invalid msg = Inl (InvalidArgument msg)"

definition parse_object :: "(string \<Rightarrow> json_object option) \<Rightarrow> nat \<Rightarrow> string \<Rightarrow> string \<Rightarrow> exn + json_object" where
  "parse_object parse members txt msg = (case parse txt of
     Some obj \<Rightarrow> if member_count obj \<noteq> members then invalid msg else Inr obj
   | None \<Rightarrow> invalid msg)"

text \<open>The chained conditions on the run hook; a missing field throws where it is read.\<close>

definition check_hook :: "json_object \<Rightarrow> string \<Rightarrow> string \<Rightarrow> exn + unit" where
  "check_hook hook token region =
    (let bad = invalid ''invalid run hook assignment'' in
     res_bind (field hook ''runId'') (\<lambda>v. if v \<noteq> token then bad else
     res_bind (field hook ''region'') (\<lambda>v. if v \<noteq> region then bad else
     res_bind (field hook ''thingId'') (\<lambda>v. if \<not> is_identifier v then bad else
     res_bind (field hook ''activationId'') (\<lambda>v. if \<not> is_identifier v then bad else
     res_bind (field hook ''deadline'') (\<lambda>v. if \<not> only_of digit_chars v \<or> length v > 18
       then invalid ''invalid run hook deadline'' else Inr ()))))))"

definition duration_of :: "json_object \<Rightarrow> exn + int" where
  "duration_of obj = (case map_of obj ''maximumDurationInSeconds'' of
     Some (JInteger d) \<Rightarrow> if d < 1 \<or> d > 3000 then invalid ''invalid MicroVM duration'' else Inr d
   | _ \<Rightarrow> invalid ''missing MicroVM duration'')"

definition connector_prefix :: "string \<Rightarrow> string" where
  "connector_prefix region = ''arn:aws:lambda:'' @ region @ '':aws:network-connector:aws-network-connector:''"

definition parse_request :: "(string \<Rightarrow> json_object option) \<Rightarrow> string \<Rightarrow> string \<Rightarrow> exn + launch_request" where
  "parse_request parse txt expected_run_id =
    (if txt = [] \<or> length txt > 2048 \<or> \<not> is_identifier expected_run_id then invalid ''invalid stored launch request'' else
     res_bind (parse_object parse 9 txt ''invalid stored launch request'') (\<lambda>obj.
     res_bind (field obj ''clientToken'') (\<lambda>token.
     if token \<noteq> expected_run_id then invalid ''launch token does not match reservation'' else
     res_bind (field obj ''format'') (\<lambda>format.
     if format \<noteq> ''txing.agent.launch.v1'' then invalid ''unsupported launch request format'' else
     res_bind (field obj ''region'') (\<lambda>region.
     if region \<noteq> ''eu-central-1'' then invalid ''invalid MicroVM region'' else
     res_bind (duration_of obj) (\<lambda>duration.
     res_bind (field obj ''imageIdentifier'') (\<lambda>image.
     res_bind (field obj ''imageVersion'') (\<lambda>version.
     res_bind (field obj ''executionRoleArn'') (\<lambda>role.
     res_bind (field obj ''logGroup'') (\<lambda>group.
     res_bind (field obj ''runHookPayload'') (\<lambda>hook.
     res_bind (parse_object parse 5 hook ''invalid run hook assignment'') (\<lambda>hook_value.
     res_bind (check_hook hook_value token region) (\<lambda>_.
     Inr \<lparr>client_token = token, image_identifier = image, image_version = version, execution_role_arn = role,
       run_hook_payload = hook, maximum_duration = duration,
       ingress_connectors = [connector_prefix region @ ''ALL_INGRESS''],
       egress_connectors = [connector_prefix region @ ''INTERNET_EGRESS''], log_group = group\<rparr>)))))))))))))"

definition hook_object :: "cloud_config \<Rightarrow> string \<Rightarrow> string \<Rightarrow> string \<Rightarrow> int \<Rightarrow> json_object" where
  "hook_object config thing rid aid dl =
    [(''thingId'', JString thing), (''region'', JString (config_region config)), (''runId'', JString rid),
     (''activationId'', JString aid), (''deadline'', JString (decimal_string (nat dl)))]"

definition request_object :: "cloud_config \<Rightarrow> string \<Rightarrow> string \<Rightarrow> int \<Rightarrow> json_object" where
  "request_object config rid hook duration =
    [(''clientToken'', JString rid), (''region'', JString (config_region config)),
     (''imageIdentifier'', JString (config_image config)), (''imageVersion'', JString (config_image_version config)),
     (''executionRoleArn'', JString (config_execution_role config)), (''logGroup'', JString (config_log_group config)),
     (''runHookPayload'', JString hook), (''maximumDurationInSeconds'', JInteger duration),
     (''format'', JString ''txing.agent.launch.v1'')]"

definition make_cloud_request ::
  "(string \<Rightarrow> json_object option) \<Rightarrow> (json_object \<Rightarrow> string) \<Rightarrow> cloud_config \<Rightarrow> string \<Rightarrow> string \<Rightarrow> string \<Rightarrow> int \<Rightarrow> int \<Rightarrow> exn + string"
where
  "make_cloud_request parse render config thing rid aid dl now =
    (if config_region config \<noteq> ''eu-central-1'' \<or> config_image config = [] \<or> config_image_version config = [] \<or>
        config_execution_role config = [] \<or> config_log_group config = [] \<or> \<not> is_identifier thing \<or>
        \<not> is_identifier rid \<or> \<not> is_identifier aid \<or> now < 0 \<or> dl \<le> now
     then invalid ''invalid MicroVM launch configuration or expired activation''
     else let hook = render (hook_object config thing rid aid dl);
         result = render (request_object config rid hook (min 3000 (dl - now))) in
       res_bind (parse_request parse result rid) (\<lambda>_. Inr result))"

definition scoped_image :: "string \<Rightarrow> bool" where
  "scoped_image img \<longleftrightarrow>
    (let prefix = ''arn:aws:lambda:eu-central-1:''; marker = '':microvm-image:''; n = length prefix + 12 in
     take (length prefix) img = prefix \<and> length img > n + length marker \<and>
     only_of digit_chars (take 12 (drop (length prefix) img)) \<and>
     take (length marker) (drop n img) = marker \<and>
     only_of ''abcdefghijklmnopqrstuvwxyzABCDEFGHIJKLMNOPQRSTUVWXYZ0123456789_-'' (drop (n + length marker) img))"

definition saved_launch_image ::
  "(string \<Rightarrow> json_object option) \<Rightarrow> string \<Rightarrow> string \<Rightarrow> string \<Rightarrow> string \<Rightarrow> exn + string" where
  "saved_launch_image parse txt rid thing aid =
    (if \<not> is_identifier thing \<or> \<not> is_identifier aid then invalid ''invalid saved assignment identity'' else
     res_bind (parse_request parse txt rid) (\<lambda>request.
       let bad = invalid ''saved launch does not match assignment'' in
       case parse (run_hook_payload request) of None \<Rightarrow> bad
       | Some hook \<Rightarrow>
         res_bind (field hook ''thingId'') (\<lambda>v. if v \<noteq> thing then bad else
         res_bind (field hook ''activationId'') (\<lambda>v. if v \<noteq> aid then bad else
         if \<not> scoped_image (image_identifier request)
         then invalid ''saved launch image is not a scoped Frankfurt image ARN''
         else Inr (image_identifier request)))))"

subsection \<open>Requests that were made are accepted\<close>

lemma decimal_string_only_digits: "only_of digit_chars (decimal_string n)"
proof (induction n rule: decimal_string.induct)
  case (1 n)
  have d: "char_of (48 + k) \<in> set digit_chars" if "k < 10" for k :: nat
  proof -
    have "list_all (\<lambda>k. char_of (48 + k) \<in> set digit_chars) [0..<10]"
      by (simp add: digit_chars_def upt_rec char_of_eq_iff)
    with that show ?thesis by (simp add: list_all_iff)
  qed
  show ?case
  proof (cases "n < 10")
    case True
    then show ?thesis using d [of n] by (simp add: decimal_string.simps [of n] only_of_def)
  next
    case False
    then show ?thesis using 1 d [of "n mod 10"] by (simp add: decimal_string.simps [of n] only_of_def)
  qed
qed

lemma decimal_string_nonempty: "decimal_string n \<noteq> []"
  by (simp add: decimal_string.simps [of n])

lemma decimal_string_length: "n < 10 ^ Suc k \<Longrightarrow> length (decimal_string n) \<le> Suc k"
proof (induction k arbitrary: n)
  case 0
  then show ?case by (simp add: decimal_string.simps [of n])
next
  case (Suc k)
  then have "n div 10 < 10 ^ Suc k" by simp
  from Suc.IH [OF this] show ?case by (simp add: decimal_string.simps [of n])
qed

lemma identifier_nonempty: "is_identifier v \<Longrightarrow> v \<noteq> []"
  by (simp add: is_identifier_def)

definition launchable :: "cloud_config \<Rightarrow> string \<Rightarrow> string \<Rightarrow> string \<Rightarrow> int \<Rightarrow> int \<Rightarrow> bool" where
  "launchable config thing rid aid dl now \<longleftrightarrow>
     config_region config = ''eu-central-1'' \<and> config_image config \<noteq> [] \<and> config_image_version config \<noteq> [] \<and>
     config_execution_role config \<noteq> [] \<and> config_log_group config \<noteq> [] \<and> is_identifier thing \<and> is_identifier rid \<and>
     is_identifier aid \<and> 0 \<le> now \<and> now < dl"

lemma hook_accepted:
  assumes "launchable config thing rid aid dl now" "dl < 10 ^ 18"
  shows "check_hook (hook_object config thing rid aid dl) rid ''eu-central-1'' = Inr ()"
proof -
  have "nat dl < 10 ^ Suc 17" using assms(2) by simp
  from decimal_string_length [OF this] have "length (decimal_string (nat dl)) \<le> 18" by simp
  then show ?thesis using assms(1) decimal_string_only_digits [of "nat dl"] decimal_string_nonempty [of "nat dl"]
    by (auto simp: check_hook_def hook_object_def field_def launchable_def dest: identifier_nonempty)
qed

lemma request_accepted:
  fixes render :: "json_object \<Rightarrow> string" and config :: cloud_config and thing rid aid :: string and dl now :: int
  defines "hook \<equiv> render (hook_object config thing rid aid dl)"
  defines "result \<equiv> render (request_object config rid hook (min 3000 (dl - now)))"
  assumes launch: "launchable config thing rid aid dl now" "dl < 10 ^ 18"
    and json: "\<forall>obj. parse (render obj) = Some obj" "hook \<noteq> []" "result \<noteq> []"
  shows "parse_request parse result rid = (if length result > 2048 then invalid ''invalid stored launch request''
    else Inr \<lparr>client_token = rid, image_identifier = config_image config, image_version = config_image_version config,
       execution_role_arn = config_execution_role config, run_hook_payload = hook,
       maximum_duration = min 3000 (dl - now),
       ingress_connectors = [connector_prefix ''eu-central-1'' @ ''ALL_INGRESS''],
       egress_connectors = [connector_prefix ''eu-central-1'' @ ''INTERNET_EGRESS''], log_group = config_log_group config\<rparr>)"
proof -
  have obj: "parse_object parse 9 result m = Inr (request_object config rid hook (min 3000 (dl - now)))" for m
    using json(1) by (simp add: parse_object_def result_def member_count_def request_object_def)
  have hk: "parse_object parse 5 hook m = Inr (hook_object config thing rid aid dl)" for m
    using json(1) by (simp add: parse_object_def hook_def member_count_def hook_object_def)
  have f: "field (request_object config rid hook d) ''clientToken'' = Inr rid"
    "field (request_object config rid hook d) ''format'' = Inr ''txing.agent.launch.v1''"
    "field (request_object config rid hook d) ''region'' = Inr ''eu-central-1''"
    "field (request_object config rid hook d) ''imageIdentifier'' = Inr (config_image config)"
    "field (request_object config rid hook d) ''imageVersion'' = Inr (config_image_version config)"
    "field (request_object config rid hook d) ''executionRoleArn'' = Inr (config_execution_role config)"
    "field (request_object config rid hook d) ''logGroup'' = Inr (config_log_group config)"
    "field (request_object config rid hook d) ''runHookPayload'' = Inr hook" for d
    using launch(1) json(2) identifier_nonempty by (auto simp: field_def request_object_def launchable_def)
  have dur: "duration_of (request_object config rid hook (min 3000 (dl - now))) = Inr (min 3000 (dl - now))"
  proof -
    have "\<not> min 3000 (dl - now) < 1" "\<not> min 3000 (dl - now) > 3000" using launch(1) by (auto simp: launchable_def min_def)
    then show ?thesis by (simp only: duration_of_def request_object_def) simp
  qed
  have "is_identifier rid" using launch(1) by (simp add: launchable_def)
  then show ?thesis using json(3) by (simp add: parse_request_def obj hk f dur hook_accepted [OF launch])
qed

lemma image_of_request:
  fixes render :: "json_object \<Rightarrow> string" and config :: cloud_config and thing rid aid :: string and dl now :: int
  defines "hook \<equiv> render (hook_object config thing rid aid dl)"
  defines "result \<equiv> render (request_object config rid hook (min 3000 (dl - now)))"
  assumes launch: "launchable config thing rid aid dl now" "dl < 10 ^ 18"
    and json: "\<forall>obj. parse (render obj) = Some obj" "hook \<noteq> []" "result \<noteq> []" and short: "length result \<le> 2048"
  shows "saved_launch_image parse result rid thing aid = (if scoped_image (config_image config) then Inr (config_image config)
    else invalid ''saved launch image is not a scoped Frankfurt image ARN'')"
proof -
  have req: "parse_request parse result rid = Inr \<lparr>client_token = rid, image_identifier = config_image config,
      image_version = config_image_version config, execution_role_arn = config_execution_role config, run_hook_payload = hook,
      maximum_duration = min 3000 (dl - now), ingress_connectors = [connector_prefix ''eu-central-1'' @ ''ALL_INGRESS''],
      egress_connectors = [connector_prefix ''eu-central-1'' @ ''INTERNET_EGRESS''], log_group = config_log_group config\<rparr>"
    using request_accepted [OF launch json(1), folded hook_def, folded result_def] json(2,3) short by simp
  have ids: "is_identifier thing" "is_identifier aid" "thing \<noteq> []" "aid \<noteq> []"
    using launch(1) identifier_nonempty by (auto simp: launchable_def)
  then have "field (hook_object config thing rid aid dl) ''thingId'' = Inr thing"
    "field (hook_object config thing rid aid dl) ''activationId'' = Inr aid"
    by (simp_all add: field_def hook_object_def)
  moreover have "parse hook = Some (hook_object config thing rid aid dl)" using json(1) by (simp add: hook_def)
  ultimately show ?thesis using ids by (simp add: saved_launch_image_def req)
qed


text \<open>A reader and a writer with that property, for the witness: every character is marked, every list ended.\<close>

fun put_text :: "string \<Rightarrow> string" where
  "put_text [] = ''.''"
| "put_text (c # cs) = CHR ''c'' # c # put_text cs"

fun get_text :: "string \<Rightarrow> (string \<times> string) option" where
  "get_text [] = None"
| "get_text (m # cs) = (if m = CHR ''.'' then Some ([], cs) else case cs of [] \<Rightarrow> None
     | c # cs \<Rightarrow> map_option (\<lambda>(t, rest). (c # t, rest)) (get_text cs))"

fun put_member :: "json_member \<Rightarrow> string" where
  "put_member (JString t) = CHR ''s'' # put_text t"
| "put_member (JInteger i) = CHR ''i'' # (if i < 0 then CHR ''-'' else CHR ''+'') # put_text (replicate (nat \<bar>i\<bar>) CHR ''1'')"
| "put_member JOther = ''o''"

fun get_member :: "string \<Rightarrow> (json_member \<times> string) option" where
  "get_member [] = None"
| "get_member (k # cs) = (if k = CHR ''o'' then Some (JOther, cs)
     else if k = CHR ''s'' then map_option (\<lambda>(t, rest). (JString t, rest)) (get_text cs)
     else case cs of [] \<Rightarrow> None | sign # cs \<Rightarrow> map_option (\<lambda>(t, rest).
       (JInteger (if sign = CHR ''-'' then - int (length t) else int (length t)), rest)) (get_text cs))"

fun toy_render :: "json_object \<Rightarrow> string" where
  "toy_render [] = ''.''"
| "toy_render ((n, m) # obj) = CHR ''m'' # put_text n @ put_member m @ toy_render obj"

fun toy_parse_from :: "nat \<Rightarrow> string \<Rightarrow> json_object option" where
  "toy_parse_from 0 cs = None"
| "toy_parse_from (Suc k) cs = (case cs of [] \<Rightarrow> None | c # cs \<Rightarrow> if c = CHR ''.'' then Some []
     else case get_text cs of None \<Rightarrow> None | Some (n, cs) \<Rightarrow>
       (case get_member cs of None \<Rightarrow> None | Some (m, cs) \<Rightarrow> map_option (\<lambda>obj. (n, m) # obj) (toy_parse_from k cs)))"

definition toy_parse :: "string \<Rightarrow> json_object option" where
  "toy_parse cs = toy_parse_from (length cs) cs"

lemma get_put_text [simp]: "get_text (put_text t @ rest) = Some (t, rest)"
  by (induction t) auto

lemma get_put_member [simp]: "get_member (put_member m @ rest) = Some (m, rest)"
  by (cases m) auto

lemma toy_parse_from: "length obj < k \<Longrightarrow> toy_parse_from k (toy_render obj) = Some obj"
proof (induction obj arbitrary: k)
  case Nil
  then show ?case by (cases k) auto
next
  case (Cons nm obj)
  then show ?case by (cases nm; cases k) auto
qed

lemma toy_json: "toy_parse (toy_render obj) = Some obj" "toy_render obj \<noteq> []"
proof -
  have "length obj < length (toy_render obj)" by (induction obj rule: toy_render.induct) auto
  then show "toy_parse (toy_render obj) = Some obj" by (simp add: toy_parse_def toy_parse_from)
  show "toy_render obj \<noteq> []" by (cases obj rule: toy_render.cases) auto
qed

definition toy_config :: cloud_config where
  "toy_config = \<lparr>config_image = ''arn:aws:lambda:eu-central-1:123456789012:microvm-image:agent'', config_image_version = ''1'',
     config_execution_role = ''r'', config_log_group = ''g'', config_region = ''eu-central-1''\<rparr>"


section \<open>Inventory\<close>

text \<open>
  \<^verbatim>\<open>for_each_page\<close>, over the calls of \<^verbatim>\<open>ListMicrovms\<close> with a continuation token (an unsuccessful call throws) and
  a visitor that may call on.  The counter of pages is the number that are left.
\<close>

primrec page_loop :: "nat \<Rightarrow> (string \<Rightarrow> ('w, cloud_run list \<times> string) io) \<Rightarrow> (cloud_run list \<Rightarrow> 'a \<Rightarrow> ('w, 'a) io) \<Rightarrow>
    string \<Rightarrow> string set \<Rightarrow> 'a \<Rightarrow> ('w, 'a) io" where
  "page_loop 0 list visit token seen acc = io_throw (RuntimeError ''lambda-microvms:ListMicrovms pagination limit exceeded'')"
| "page_loop (Suc n) list visit token seen acc = io_bind (list token) (\<lambda>(page, next).
     io_bind (visit page acc) (\<lambda>acc.
       if next \<noteq> [] \<and> next \<in> seen then io_throw (RuntimeError ''lambda-microvms:ListMicrovms pagination did not advance'')
       else if next = [] then io_return acc
       else page_loop n list visit next (insert next seen) acc))"

definition for_each_page :: "(string \<Rightarrow> ('w, cloud_run list \<times> string) io) \<Rightarrow> (cloud_run list \<Rightarrow> 'a \<Rightarrow> ('w, 'a) io) \<Rightarrow>
    string \<Rightarrow> 'a \<Rightarrow> ('w, 'a) io" where
  "for_each_page list visit image_id acc =
    (if image_id = [] then io_throw (InvalidArgument ''image identity required for MicroVM inventory'')
     else page_loop 1000 list visit [] {} acc)"

end
