(* ===== verification/Drain.thy ===== *)
theory Drain
  imports Cloud
begin

text \<open>
  Model of the shutdown paths of the controller in \<^verbatim>\<open>src/agent/src/reconcile.cpp\<close>: what is done with a MicroVM
  that no assignment accounts for, and the two drains that stop every host when the controller is disabled.
  The calls of \<^verbatim>\<open>DrainBackend\<close> and \<^verbatim>\<open>KnownDrainBackend\<close> are recorded with their outcomes, which are arbitrary
  functions of the calls made before.
\<close>

section \<open>Orphans\<close>

definition live_state :: "string \<Rightarrow> bool" where
  "live_state s \<longleftrightarrow> s = ''PENDING'' \<or> s = ''RUNNING'' \<or> s = ''SUSPENDING'' \<or> s = ''SUSPENDED''"

fun orphan_loop :: "cloud_run list \<Rightarrow> string set \<Rightarrow> string set \<Rightarrow> string list" where
  "orphan_loop [] assigned seen = []"
| "orphan_loop (r # rs) assigned seen =
    (if host_id r = [] \<or> host_id r \<in> assigned then orphan_loop rs assigned seen
     else if live_state (host_state r) \<and> host_id r \<notin> seen then host_id r # orphan_loop rs assigned (insert (host_id r) seen)
     else orphan_loop rs assigned seen)"

definition orphan_candidates :: "cloud_run list \<Rightarrow> string set \<Rightarrow> string list" where
  "orphan_candidates inventory assigned = orphan_loop inventory assigned {}"

text \<open>The function that makes identities is empty here; an inactive observation never calls it.\<close>

definition observe_orphan_inactive :: "controller_snapshot \<Rightarrow> projection_observation \<Rightarrow> int \<Rightarrow> ('w, bool \<times> controller_snapshot) io" where
  "observe_orphan_inactive snap obs now =
    (if run (state snap) = None \<or> obs_active obs \<noteq> Some False \<or> now \<le> 0 then io_return (False, snap)
     else io_bind (observe_activation (activation (state snap)) obs now 3000 None) (\<lambda>(change, act).
       let snap = snap\<lparr>state := (state snap)\<lparr>activation := act\<rparr>\<rparr> in
       if change = Unverified \<or> change = Stale then io_return (False, snap)
       else io_return (True, snap\<lparr>verified_at := now\<rparr>)))"

datatype orphan_action = Defer | FenceThenTerminate | Retain | TerminateOrphan

definition orphan_action_of :: "bool option \<Rightarrow> controller_snapshot option \<Rightarrow> bool \<Rightarrow> string \<Rightarrow> string \<Rightarrow> bool \<Rightarrow> int \<Rightarrow> orphan_action" where
  "orphan_action_of supported shadow shadow_missing rid vm runtime_stopped now =
    (case supported of None \<Rightarrow> Defer | Some known \<Rightarrow>
     if rid = [] \<or> vm = [] \<or> now \<le> 0 \<or> (shadow = None \<and> \<not> shadow_missing) then Defer
     else case shadow of None \<Rightarrow> TerminateOrphan | Some snap \<Rightarrow>
       (case run (state snap) of None \<Rightarrow> TerminateOrphan | Some r \<Rightarrow>
         if run_id r = rid \<and> (microvm_id r = [] \<or> microvm_id r = vm)
         then if \<not> known \<or> runtime_stopped \<or> phase r = Stopping \<or> \<not> activation_authorized (activation (state snap)) now \<or>
             map_option act_id (activation_of (activation (state snap))) \<noteq> Some (activation_id r)
           then FenceThenTerminate else Retain
         else TerminateOrphan))"

definition bind_stopping_orphan :: "controller_snapshot \<Rightarrow> string \<Rightarrow> string \<Rightarrow> bool \<times> controller_snapshot" where
  "bind_stopping_orphan snap rid vm = (case run (state snap) of None \<Rightarrow> (False, snap) | Some r \<Rightarrow>
     if rid = [] \<or> vm = [] \<or> run_id r \<noteq> rid \<or> (microvm_id r \<noteq> [] \<and> microvm_id r \<noteq> vm) then (False, snap)
     else (True, snap\<lparr>state := (state snap)\<lparr>run := Some (r\<lparr>microvm_id := vm, phase := Stopping\<rparr>)\<rparr>\<rparr>))"

section \<open>Calls of the drains\<close>

record cloud_run_details =
  details_run :: cloud_run
  details_image :: string

datatype drain_call =
  ListPage string "exn + (cloud_run list \<times> string)"
| Stop string "exn + unit"
| Things "exn + string list"
| Fence string "exn + bool"
| ReadThing string "exn + controller_snapshot option"
| Describe string "exn + cloud_run_details"
| FenceKnown string controller_snapshot "exn + bool"

type_synonym drain_history = "drain_call list"

record drain_backend =
  image_id :: string
  on_list :: "drain_history \<Rightarrow> string \<Rightarrow> exn + (cloud_run list \<times> string)"
  on_stop :: "drain_history \<Rightarrow> string \<Rightarrow> exn + unit"
  on_things :: "drain_history \<Rightarrow> exn + string list"
  on_fence :: "drain_history \<Rightarrow> string \<Rightarrow> exn + bool"
  on_read_thing :: "drain_history \<Rightarrow> string \<Rightarrow> exn + controller_snapshot option"
  on_describe :: "drain_history \<Rightarrow> string \<Rightarrow> exn + cloud_run_details"
  on_fence_known :: "drain_history \<Rightarrow> string \<Rightarrow> controller_snapshot \<Rightarrow> exn + bool"

definition call_list :: "drain_backend \<Rightarrow> string \<Rightarrow> (drain_history, cloud_run list \<times> string) io" where
  "call_list b token = io_call (\<lambda>h. on_list b h token) (ListPage token)"

definition call_stop :: "drain_backend \<Rightarrow> string \<Rightarrow> (drain_history, unit) io" where
  "call_stop b vm = io_call (\<lambda>h. on_stop b h vm) (Stop vm)"

definition call_things :: "drain_backend \<Rightarrow> (drain_history, string list) io" where
  "call_things b = io_call (on_things b) Things"

definition call_fence :: "drain_backend \<Rightarrow> string \<Rightarrow> (drain_history, bool) io" where
  "call_fence b thing = io_call (\<lambda>h. on_fence b h thing) (Fence thing)"

definition call_read_thing :: "drain_backend \<Rightarrow> string \<Rightarrow> (drain_history, controller_snapshot option) io" where
  "call_read_thing b thing = io_call (\<lambda>h. on_read_thing b h thing) (ReadThing thing)"

definition call_describe :: "drain_backend \<Rightarrow> string \<Rightarrow> (drain_history, cloud_run_details) io" where
  "call_describe b vm = io_call (\<lambda>h. on_describe b h vm) (Describe vm)"

definition call_fence_known :: "drain_backend \<Rightarrow> string \<Rightarrow> controller_snapshot \<Rightarrow> (drain_history, bool) io" where
  "call_fence_known b thing snap = io_call (\<lambda>h. on_fence_known b h thing snap) (FenceKnown thing snap)"

section \<open>Drain of a disabled controller\<close>

text \<open>The visitor of the inventory, with \<^verbatim>\<open>complete\<close> and \<^verbatim>\<open>seen\<close>.\<close>

fun visit_page :: "drain_backend \<Rightarrow> cloud_run list \<Rightarrow> bool \<times> string set \<Rightarrow> (drain_history, bool \<times> string set) io" where
  "visit_page b [] acc = io_return acc"
| "visit_page b (r # rs) (complete, seen) =
    (if host_id r = [] then visit_page b rs (False, seen)
     else if host_state r = ''TERMINATED'' then visit_page b rs (complete, seen)
     else if host_state r = ''TERMINATING'' \<or> \<not> live_state (host_state r) \<or> host_id r \<in> seen
     then visit_page b rs (False, seen)
     else io_bind (io_catch (call_stop b (host_id r)) (\<lambda>e. io_return ()))
       (\<lambda>_. visit_page b rs (False, insert (host_id r) seen)))"

fun fence_things :: "drain_backend \<Rightarrow> string list \<Rightarrow> bool \<Rightarrow> (drain_history, bool) io" where
  "fence_things b [] complete = io_return complete"
| "fence_things b (t # ts) complete =
    io_bind (io_catch (call_fence b t) (\<lambda>e. io_return False)) (\<lambda>ok. fence_things b ts (complete \<and> ok))"

definition drain_disabled :: "drain_backend \<Rightarrow> (drain_history, bool) io" where
  "drain_disabled b =
    io_bind (io_catch (io_bind (for_each_page (call_list b) (visit_page b) (image_id b) (True, {}))
        (\<lambda>(complete, seen). io_return complete)) (\<lambda>e. io_return False)) (\<lambda>complete.
    io_catch (io_bind (call_things b) (\<lambda>ts. fence_things b ts complete)) (\<lambda>e. io_return False))"

section \<open>Drain of the known assignments\<close>

definition drain_thing :: "(string \<Rightarrow> json_object option) \<Rightarrow> drain_backend \<Rightarrow> string \<Rightarrow> (drain_history, bool) io" where
  "drain_thing parse b thing = io_bind (call_read_thing b thing) (\<lambda>snap.
     case snap of None \<Rightarrow> io_return True | Some snap \<Rightarrow>
     case run (state snap) of None \<Rightarrow> io_return True | Some r \<Rightarrow>
     if microvm_id r = [] then io_return False else
     case saved_launch_image parse (request r) (run_id r) thing (activation_id r) of Inl e \<Rightarrow> io_throw e
     | Inr expected \<Rightarrow>
       io_bind (call_describe b (microvm_id r)) (\<lambda>host.
       if host_id (details_run host) \<noteq> microvm_id r \<or> details_image host \<noteq> expected then io_return False else
       io_bind (call_fence_known b thing snap) (\<lambda>ok.
       if \<not> ok then io_return False
       else if host_state (details_run host) = ''TERMINATED'' then io_return True
       else if live_state (host_state (details_run host))
       then io_bind (call_stop b (microvm_id r)) (\<lambda>_. io_return False)
       else io_return False)))"

fun drain_things :: "(string \<Rightarrow> json_object option) \<Rightarrow> drain_backend \<Rightarrow> string list \<Rightarrow> bool \<Rightarrow> (drain_history, bool) io" where
  "drain_things parse b [] complete = io_return complete"
| "drain_things parse b (t # ts) complete =
    io_bind (io_catch (drain_thing parse b t) (\<lambda>e. io_return False)) (\<lambda>ok. drain_things parse b ts (complete \<and> ok))"

definition drain_known_assignments :: "(string \<Rightarrow> json_object option) \<Rightarrow> drain_backend \<Rightarrow> (drain_history, bool) io" where
  "drain_known_assignments parse b =
    io_catch (io_bind (call_things b) (\<lambda>ts. drain_things parse b ts True)) (\<lambda>e. io_return False)"

section \<open>Lemmas\<close>

lemmas drain_calls = call_list_def call_stop_def call_things_def call_fence_def call_read_thing_def call_describe_def
  call_fence_known_def

lemma orphan_loop_append:
  "orphan_loop (rs @ qs) asg seen = orphan_loop rs asg seen @ orphan_loop qs asg (seen \<union> set (orphan_loop rs asg seen))"
  by (induction rs asg seen rule: orphan_loop.induct) auto

lemma orphan_loop_set:
  "set (orphan_loop rs asg seen) = {host_id r | r. r \<in> set rs \<and> host_id r \<noteq> [] \<and> host_id r \<notin> asg \<and> live_state (host_state r)} - seen"
  by (induction rs asg seen rule: orphan_loop.induct) (auto simp: insert_Diff_if)

lemma orphan_loop_distinct: "distinct (orphan_loop rs asg seen)"
  by (induction rs asg seen rule: orphan_loop.induct) (auto simp: orphan_loop_set)

text \<open>What a history says: the hosts that were listed and the hosts that were asked to stop, in order.\<close>

fun listed :: "drain_history \<Rightarrow> cloud_run list" where
  "listed [] = []"
| "listed (ListPage t (Inr (page, next)) # h) = page @ listed h"
| "listed (_ # h) = listed h"

fun stops :: "drain_history \<Rightarrow> string list" where
  "stops [] = []"
| "stops (Stop vm r # h) = vm # stops h"
| "stops (_ # h) = stops h"

fun pages :: "drain_history \<Rightarrow> nat" where
  "pages [] = 0"
| "pages (ListPage t r # h) = Suc (pages h)"
| "pages (_ # h) = pages h"

lemma listed_append [simp]: "listed (h @ g) = listed h @ listed g"
  by (induction h rule: listed.induct) auto

lemma stops_append [simp]: "stops (h @ g) = stops h @ stops g"
  by (induction h rule: stops.induct) auto

lemma pages_append [simp]: "pages (h @ g) = pages h + pages g"
  by (induction h rule: pages.induct) auto

definition host_down :: "cloud_run \<Rightarrow> bool" where
  "host_down r \<longleftrightarrow> host_id r \<noteq> [] \<and> host_state r = ''TERMINATED''"

lemma terminated_not_live: "\<not> live_state ''TERMINATED''" "\<not> live_state ''TERMINATING''"
  by (simp_all add: live_state_def)

text \<open>A page is visited by stop calls for exactly the new live hosts on it.\<close>

lemma visit_page_run:
  "\<exists>g. visit_page b rs (c, seen) h = (Inr (c \<and> list_all host_down rs, seen \<union> set (orphan_loop rs {} seen)), h @ g) \<and>
     listed g = [] \<and> pages g = 0 \<and> stops g = orphan_loop rs {} seen \<and> (\<forall>e \<in> set g. \<exists>vm r. e = Stop vm r)"
proof (induction rs arbitrary: c seen h)
  case (Cons r rs)
  consider (empty) "host_id r = []" | (down) "host_id r \<noteq> []" "host_state r = ''TERMINATED''"
    | (skip) "host_id r \<noteq> []" "host_state r \<noteq> ''TERMINATED''"
        "host_state r = ''TERMINATING'' \<or> \<not> live_state (host_state r) \<or> host_id r \<in> seen"
    | (stop) "host_id r \<noteq> []" "live_state (host_state r)" "host_id r \<notin> seen"
    by (auto simp: live_state_def)
  then show ?case
  proof cases
    case empty
    then show ?thesis using Cons [of False seen h] by (simp add: host_down_def)
  next
    case down
    then show ?thesis using Cons [of c seen h] by (simp add: host_down_def terminated_not_live)
  next
    case skip
    then have "orphan_loop (r # rs) {} seen = orphan_loop rs {} seen" by (auto simp: terminated_not_live)
    then show ?thesis using skip Cons [of False seen h] by (simp add: host_down_def)
  next
    case stop
    let ?e = "Stop (host_id r) (on_stop b h (host_id r))"
    obtain g where g: "visit_page b rs (False, insert (host_id r) seen) (h @ [?e]) =
        (Inr (False, insert (host_id r) seen \<union> set (orphan_loop rs {} (insert (host_id r) seen))), (h @ [?e]) @ g)"
      "listed g = []" "pages g = 0" "stops g = orphan_loop rs {} (insert (host_id r) seen)" "\<forall>e \<in> set g. \<exists>vm r. e = Stop vm r"
      using Cons [of False "insert (host_id r) seen" "h @ [?e]"] by auto
    have nt: "host_state r \<noteq> ''TERMINATED''" "host_state r \<noteq> ''TERMINATING''" using stop(2) by (auto simp: live_state_def)
    have "visit_page b (r # rs) (c, seen) h = visit_page b rs (False, insert (host_id r) seen) (h @ [?e])"
      using stop nt by (simp add: io_bind_def io_catch_def call_stop_def io_call_def io_return_def split: sum.split)
    then show ?thesis using g stop nt by (intro exI [of _ "?e # g"]) (simp add: host_down_def)
  qed
qed (auto simp: io_return_def)

text \<open>The whole inventory.\<close>

lemma page_loop_run:
  "\<exists>g r. page_loop n (call_list b) (visit_page b) tok seen_tokens (c, seen) h = (r, h @ g) \<and> pages g \<le> n \<and>
     stops g = orphan_loop (listed g) {} seen \<and>
     (\<forall>e \<in> set g. (\<exists>vm a. e = Stop vm a) \<or> (\<exists>t a. e = ListPage t a)) \<and>
     (case r of Inl _ \<Rightarrow> True
      | Inr (c', _) \<Rightarrow> c' = (c \<and> list_all host_down (listed g)) \<and> (\<forall>t e. ListPage t (Inl e) \<notin> set g) \<and>
          (\<exists>t page. ListPage t (Inr (page, [])) \<in> set g))"
proof (induction n arbitrary: tok seen_tokens c seen h)
  case 0
  show ?case by (simp add: io_throw_def)
next
  case (Suc n)
  show ?case
  proof (cases "on_list b h tok")
    case (Inl e)
    then show ?thesis
      by (intro exI [of _ "[ListPage tok (Inl e)]"] exI [of _ "Inl e"])
        (simp add: io_bind_def call_list_def io_call_def)
  next
    case (Inr res)
    obtain page tk where res: "res = (page, tk)" by (cases res)
    let ?e = "ListPage tok (Inr (page, tk))"
    obtain g1 where g1: "visit_page b page (c, seen) (h @ [?e]) =
        (Inr (c \<and> list_all host_down page, seen \<union> set (orphan_loop page {} seen)), (h @ [?e]) @ g1)"
      "listed g1 = []" "pages g1 = 0" "stops g1 = orphan_loop page {} seen" "\<forall>e \<in> set g1. \<exists>vm r. e = Stop vm r"
      using visit_page_run [of b page c seen "h @ [?e]"] by auto
    let ?h = "h @ ?e # g1"
    have first: "page_loop (Suc n) (call_list b) (visit_page b) tok seen_tokens (c, seen) h =
       (if tk \<noteq> [] \<and> tk \<in> seen_tokens then io_throw (RuntimeError ''lambda-microvms:ListMicrovms pagination did not advance'')
        else if tk = [] then io_return (c \<and> list_all host_down page, seen \<union> set (orphan_loop page {} seen))
        else page_loop n (call_list b) (visit_page b) tk (insert tk seen_tokens)
          (c \<and> list_all host_down page, seen \<union> set (orphan_loop page {} seen))) ?h"
      using Inr res g1(1) by (simp add: io_bind_def call_list_def io_call_def)
    have no: "ListPage t a \<notin> set g1" for t a using g1(5) by auto
    consider (stuck) "tk \<noteq> []" "tk \<in> seen_tokens" | (last) "tk = []" | (more) "tk \<noteq> []" "tk \<notin> seen_tokens" by blast
    then show ?thesis
    proof cases
      case stuck
      then show ?thesis unfolding first using g1
        by (intro exI [of _ "?e # g1"] exI [of _ "Inl (RuntimeError ''lambda-microvms:ListMicrovms pagination did not advance'')"])
          (auto simp: io_throw_def)
    next
      case last
      then show ?thesis unfolding first using g1 no
        by (intro exI [of _ "?e # g1"] exI [of _ "Inr (c \<and> list_all host_down page, seen \<union> set (orphan_loop page {} seen))"])
          (auto simp: io_return_def)
    next
      case more
      obtain g r where g: "page_loop n (call_list b) (visit_page b) tk (insert tk seen_tokens)
          (c \<and> list_all host_down page, seen \<union> set (orphan_loop page {} seen)) ?h = (r, ?h @ g)" "pages g \<le> n"
        "stops g = orphan_loop (listed g) {} (seen \<union> set (orphan_loop page {} seen))"
        "\<forall>e \<in> set g. (\<exists>vm a. e = Stop vm a) \<or> (\<exists>t a. e = ListPage t a)"
        "case r of Inl _ \<Rightarrow> True
         | Inr (c', _) \<Rightarrow> c' = ((c \<and> list_all host_down page) \<and> list_all host_down (listed g)) \<and> (\<forall>t e. ListPage t (Inl e) \<notin> set g) \<and>
          (\<exists>t page. ListPage t (Inr (page, [])) \<in> set g)"
        using Suc [of tk "insert tk seen_tokens" "c \<and> list_all host_down page" "seen \<union> set (orphan_loop page {} seen)" ?h] by blast
      have "case r of Inl _ \<Rightarrow> True | Inr (c', _) \<Rightarrow> c' = (c \<and> list_all host_down (listed (?e # g1 @ g))) \<and>
          (\<forall>t e. ListPage t (Inl e) \<notin> set (?e # g1 @ g)) \<and> (\<exists>t page. ListPage t (Inr (page, [])) \<in> set (?e # g1 @ g))"
        using g(5) g1(2) no by (auto split: sum.splits prod.splits)
      moreover have "stops (?e # g1 @ g) = orphan_loop (listed (?e # g1 @ g)) {} seen"
        using g(3) g1(2,4) by (simp add: orphan_loop_append)
      moreover have "\<forall>e \<in> set (?e # g1 @ g). (\<exists>vm a. e = Stop vm a) \<or> (\<exists>t a. e = ListPage t a)"
        using g(4) g1(5) by auto
      moreover have "pages (?e # g1 @ g) \<le> Suc n" using g(2) g1(3) by simp
      ultimately show ?thesis unfolding first using more g(1) by (intro exI [of _ "?e # g1 @ g"] exI [of _ r]) simp
    qed
  qed
qed

lemma fence_things_run:
  "\<exists>g c'. fence_things b ts c h = (Inr c', h @ g) \<and> (\<forall>e \<in> set g. \<exists>t a. e = Fence t a) \<and>
     (c' \<longrightarrow> c \<and> (\<forall>t \<in> set ts. Fence t (Inr True) \<in> set g)) \<and> (\<forall>t \<in> set ts. \<exists>a. Fence t a \<in> set g)"
proof (induction ts arbitrary: c h)
  case (Cons t ts)
  let ?e = "Fence t (on_fence b h t)" and ?ok = "on_fence b h t = Inr True"
  obtain g c' where g: "fence_things b ts (c \<and> ?ok) (h @ [?e]) = (Inr c', (h @ [?e]) @ g)" "\<forall>e \<in> set g. \<exists>t a. e = Fence t a"
    "c' \<longrightarrow> (c \<and> ?ok) \<and> (\<forall>t \<in> set ts. Fence t (Inr True) \<in> set g)" "\<forall>t \<in> set ts. \<exists>a. Fence t a \<in> set g"
    using Cons [of "c \<and> ?ok" "h @ [?e]"] by blast
  have "fence_things b (t # ts) c h = fence_things b ts (c \<and> ?ok) (h @ [?e])"
    by (cases "on_fence b h t") (simp_all add: io_bind_def io_catch_def call_fence_def io_call_def io_return_def)
  then show ?case using g by (intro exI [of _ "?e # g"] exI [of _ c']) auto
qed (simp add: io_return_def)

lemma no_drain_calls:
  "\<forall>e \<in> set g. \<exists>t a. e = Fence t a \<Longrightarrow> listed g = [] \<and> stops g = [] \<and> pages g = 0"
  by (induction g) auto

lemma inventory_run:
  "\<exists>g c. io_catch (io_bind (for_each_page (call_list b) (visit_page b) (image_id b) (True, {}))
        (\<lambda>(complete, seen). io_return complete)) (\<lambda>e. io_return False) h = (Inr c, h @ g) \<and> pages g \<le> 1000 \<and>
     stops g = orphan_loop (listed g) {} {} \<and>
     (c \<longrightarrow> list_all host_down (listed g) \<and> (\<forall>t e. ListPage t (Inl e) \<notin> set g) \<and>
        (\<exists>t page. ListPage t (Inr (page, [])) \<in> set g))"
proof (cases "image_id b = []")
  case True
  then show ?thesis
    by (intro exI [of _ "[]"] exI [of _ False]) (simp add: for_each_page_def io_bind_def io_catch_def io_throw_def io_return_def)
next
  case False
  obtain g r where g: "page_loop 1000 (call_list b) (visit_page b) [] {} (True, {}) h = (r, h @ g)" "pages g \<le> 1000"
    "stops g = orphan_loop (listed g) {} {}"
    "case r of Inl _ \<Rightarrow> True
      | Inr (c', _) \<Rightarrow> c' = (True \<and> list_all host_down (listed g)) \<and> (\<forall>t e. ListPage t (Inl e) \<notin> set g) \<and>
          (\<exists>t page. ListPage t (Inr (page, [])) \<in> set g)"
    using page_loop_run [of 1000 b "[]" "{}" True "{}" h] by blast
  show ?thesis
  proof (cases r)
    case (Inl e)
    with g False show ?thesis
      by (intro exI [of _ g] exI [of _ False]) (simp add: for_each_page_def io_bind_def io_catch_def io_return_def)
  next
    case (Inr a)
    obtain c' seen where "a = (c', seen)" by (cases a)
    with g False Inr show ?thesis
      by (intro exI [of _ g] exI [of _ c']) (simp add: for_each_page_def io_bind_def io_catch_def io_return_def)
  qed
qed

section \<open>Properties\<close>

text \<open>A thing with one running assignment and its host, in a state of choice; termination succeeds.\<close>

definition demo_request :: run_reservation where
  "demo_request = \<lparr>run_id = ''r'', activation_id = ''a'', release = ''1.0.0'', request = ''q'', microvm_id = ''v'', phase = Running\<rparr>"

definition demo_snapshot :: controller_snapshot where
  "demo_snapshot = sample_snapshot (initial_controller_state\<lparr>run := Some demo_request\<rparr>)"

definition demo_host :: "string \<Rightarrow> cloud_run" where
  "demo_host st = \<lparr>host_id = ''v'', host_state = st, host_endpoint = []\<rparr>"

definition demo_drain :: "string \<Rightarrow> drain_backend" where
  "demo_drain st = \<lparr>image_id = config_image toy_config, on_list = (\<lambda>h t. Inr ([demo_host st], [])),
     on_stop = (\<lambda>h vm. Inr ()), on_things = (\<lambda>h. Inr [''u'']), on_fence = (\<lambda>h t. Inr True),
     on_read_thing = (\<lambda>h t. Inr (Some demo_snapshot)),
     on_describe = (\<lambda>h vm. Inr \<lparr>details_run = demo_host st, details_image = config_image toy_config\<rparr>),
     on_fence_known = (\<lambda>h t sn. Inr True)\<rparr>"

definition demo_parse :: "string \<Rightarrow> json_object option" where
  "demo_parse txt = (if txt = ''q'' then Some (request_object toy_config ''r'' ''h'' 60)
     else if txt = ''h'' then Some (hook_object toy_config ''u'' ''r'' ''a'' 9) else None)"

lemma demo_drain_run:
  "drain_disabled (demo_drain ''TERMINATED'') [] = (Inr True, [ListPage [] (Inr ([demo_host ''TERMINATED''], [])),
     Things (Inr [''u'']), Fence ''u'' (Inr True)])"
  "drain_disabled (demo_drain ''RUNNING'') [] = (Inr False, [ListPage [] (Inr ([demo_host ''RUNNING''], [])),
     Stop ''v'' (Inr ()), Things (Inr [''u'']), Fence ''u'' (Inr True)])"
proof -
  have n: "page_loop 1000 = page_loop (Suc 999)" by simp
  show "drain_disabled (demo_drain ''TERMINATED'') [] = (Inr True, [ListPage [] (Inr ([demo_host ''TERMINATED''], [])),
     Things (Inr [''u'']), Fence ''u'' (Inr True)])"
    "drain_disabled (demo_drain ''RUNNING'') [] = (Inr False, [ListPage [] (Inr ([demo_host ''RUNNING''], [])),
     Stop ''v'' (Inr ()), Things (Inr [''u'']), Fence ''u'' (Inr True)])"
    unfolding drain_disabled_def for_each_page_def n page_loop.simps
    by (simp_all add: io_bind_def io_catch_def io_return_def drain_calls io_call_def demo_drain_def toy_config_def demo_host_def
      live_state_def)
qed

lemma demo_known_run:
  "drain_known_assignments demo_parse (demo_drain ''RUNNING'') [] = (Inr False, [Things (Inr [''u'']),
     ReadThing ''u'' (Inr (Some demo_snapshot)),
     Describe ''v'' (Inr \<lparr>details_run = demo_host ''RUNNING'', details_image = config_image toy_config\<rparr>),
     FenceKnown ''u'' demo_snapshot (Inr True), Stop ''v'' (Inr ())])"
proof -
  have "saved_launch_image demo_parse ''q'' ''r'' ''u'' ''a'' = Inr (config_image toy_config)" by code_simp
  moreover have "run (state demo_snapshot) = Some demo_request"
    by (simp add: demo_snapshot_def sample_snapshot_def)
  ultimately show ?thesis
    by (simp add: drain_known_assignments_def drain_thing_def io_bind_def io_catch_def io_return_def drain_calls io_call_def
      demo_drain_def demo_host_def live_state_def demo_request_def)
qed

text \<open>
  Orphans.  The candidates are exactly the identities, each once, of the listed MicroVMs that are
  pending, running, suspending or suspended and not assigned.  A candidate whose run is the recorded one is
  kept only while support is known, its runtime has not stopped and its own activation is authorized; and a
  record that is bound to a candidate names it as stopping and changes nothing else.
\<close>

theorem orphans_handled:
  "distinct (orphan_candidates inventory assigned) \<and>
   set (orphan_candidates inventory assigned) =
     {host_id r | r. r \<in> set inventory \<and> host_id r \<noteq> [] \<and> host_id r \<notin> assigned \<and> live_state (host_state r)} \<and>
   (orphan_action_of supported shadow missing rid vm stopped now = Retain \<longleftrightarrow>
     supported = Some True \<and> rid \<noteq> [] \<and> vm \<noteq> [] \<and> 0 < now \<and> \<not> stopped \<and>
     (\<exists>snap r. shadow = Some snap \<and> run (state snap) = Some r \<and> run_id r = rid \<and> (microvm_id r = [] \<or> microvm_id r = vm) \<and>
        phase r \<noteq> Stopping \<and> activation_authorized (activation (state snap)) now \<and>
        map_option act_id (activation_of (activation (state snap))) = Some (activation_id r))) \<and>
   (orphan_action_of supported shadow missing rid vm stopped now = FenceThenTerminate \<longrightarrow>
     (\<exists>snap r. shadow = Some snap \<and> run (state snap) = Some r \<and>
        bind_stopping_orphan snap rid vm =
          (True, snap\<lparr>state := (state snap)\<lparr>run := Some (r\<lparr>microvm_id := vm, phase := Stopping\<rparr>)\<rparr>\<rparr>)))"
proof -
  have "orphan_action_of supported shadow missing rid vm stopped now = FenceThenTerminate \<longrightarrow>
     (\<exists>snap r. shadow = Some snap \<and> run (state snap) = Some r \<and>
        bind_stopping_orphan snap rid vm =
          (True, snap\<lparr>state := (state snap)\<lparr>run := Some (r\<lparr>microvm_id := vm, phase := Stopping\<rparr>)\<rparr>\<rparr>))"
    by (auto simp: orphan_action_of_def bind_stopping_orphan_def split: option.splits if_splits)
  moreover have "orphan_action_of supported shadow missing rid vm stopped now = Retain \<longleftrightarrow>
     supported = Some True \<and> rid \<noteq> [] \<and> vm \<noteq> [] \<and> 0 < now \<and> \<not> stopped \<and>
     (\<exists>snap r. shadow = Some snap \<and> run (state snap) = Some r \<and> run_id r = rid \<and> (microvm_id r = [] \<or> microvm_id r = vm) \<and>
        phase r \<noteq> Stopping \<and> activation_authorized (activation (state snap)) now \<and>
        map_option act_id (activation_of (activation (state snap))) = Some (activation_id r))"
    by (auto simp: orphan_action_of_def split: option.splits if_splits)
  ultimately show ?thesis by (simp add: orphan_candidates_def orphan_loop_set orphan_loop_distinct)
qed

theorem orphans_handled_witness:
  "orphan_candidates [demo_host ''RUNNING'', demo_host ''PENDING''] {} = [''v''] \<and>
   (\<exists>snap r. Some demo_snapshot = Some snap \<and> run (state snap) = Some r \<and> bind_stopping_orphan snap ''r'' ''v'' =
      (True, snap\<lparr>state := (state snap)\<lparr>run := Some (r\<lparr>microvm_id := ''v'', phase := Stopping\<rparr>)\<rparr>\<rparr>))"
proof -
  have "orphan_action_of (Some False) (Some demo_snapshot) False ''r'' ''v'' False 5 = FenceThenTerminate"
    by (simp add: orphan_action_of_def demo_snapshot_def sample_snapshot_def demo_request_def)
  with orphans_handled [of "[]" "{}" "Some False" "Some demo_snapshot" False "''r''" "''v''" False 5]
  have "\<exists>snap r. Some demo_snapshot = Some snap \<and> run (state snap) = Some r \<and> bind_stopping_orphan snap ''r'' ''v'' =
      (True, snap\<lparr>state := (state snap)\<lparr>run := Some (r\<lparr>microvm_id := ''v'', phase := Stopping\<rparr>)\<rparr>\<rparr>)" by blast
  then show ?thesis by (simp add: orphan_candidates_def demo_host_def live_state_def)
qed

text \<open>
  C12. The drain of a disabled controller.  Whatever the cloud answers, the drain returns after at most 1000
  pages; every pending, running, suspending or suspended host on a page that was delivered has been asked
  to stop, once, in the order of the pages and even when other calls failed.  It reports completion only
  when the last page was reached without a failure, every listed host is terminated and every registered
  thing was fenced.
\<close>

theorem drain_stops_everything:
  "case drain_disabled b [] of (r, h) \<Rightarrow>
     (\<exists>c. r = Inr c \<and> (c \<longrightarrow> list_all host_down (listed h) \<and> (\<forall>t e. ListPage t (Inl e) \<notin> set h) \<and>
        (\<exists>t page. ListPage t (Inr (page, [])) \<in> set h) \<and>
        (\<exists>ts. Things (Inr ts) \<in> set h \<and> (\<forall>t \<in> set ts. Fence t (Inr True) \<in> set h)))) \<and>
     pages h \<le> 1000 \<and> stops h = orphan_candidates (listed h) {}"
proof -
  obtain g c where g: "io_catch (io_bind (for_each_page (call_list b) (visit_page b) (image_id b) (True, {}))
        (\<lambda>(complete, seen). io_return complete)) (\<lambda>e. io_return False) [] = (Inr c, [] @ g)" "pages g \<le> 1000"
     "stops g = orphan_loop (listed g) {} {}"
     "c \<longrightarrow> list_all host_down (listed g) \<and> (\<forall>t e. ListPage t (Inl e) \<notin> set g) \<and> (\<exists>t page. ListPage t (Inr (page, [])) \<in> set g)"
    using inventory_run [of b "[]"] by blast
  let ?e = "Things (on_things b g)"
  have step: "drain_disabled b [] = io_catch (io_bind (call_things b) (\<lambda>ts. fence_things b ts c)) (\<lambda>e. io_return False) g"
    using g(1) by (simp add: drain_disabled_def io_bind_def)
  show ?thesis
  proof (cases "on_things b g")
    case (Inl e)
    then have "drain_disabled b [] = (Inr False, g @ [?e])"
      unfolding step by (simp add: io_catch_def io_bind_def call_things_def io_call_def io_return_def)
    then show ?thesis using g(2,3) by (auto simp: orphan_candidates_def)
  next
    case (Inr ts)
    obtain k c' where k: "fence_things b ts c (g @ [?e]) = (Inr c', (g @ [?e]) @ k)" "\<forall>e \<in> set k. \<exists>t a. e = Fence t a"
      "c' \<longrightarrow> c \<and> (\<forall>t \<in> set ts. Fence t (Inr True) \<in> set k)"
      using fence_things_run [of b ts c "g @ [?e]"] by blast
    have run: "drain_disabled b [] = (Inr c', g @ ?e # k)"
      unfolding step using Inr k(1) by (simp add: io_catch_def io_bind_def call_things_def io_call_def)
    have no: "ListPage t a \<notin> set k" for t a using k(2) by auto
    have ev: "listed (g @ ?e # k) = listed g" "stops (g @ ?e # k) = stops g" "pages (g @ ?e # k) = pages g"
      using no_drain_calls [OF k(2)] by simp_all
    have fenced: "\<exists>ts. Things (Inr ts) \<in> set (g @ ?e # k) \<and> (\<forall>t \<in> set ts. Fence t (Inr True) \<in> set (g @ ?e # k))" if c'
      using that k(3) Inr by (intro exI [of _ ts]) auto
    show ?thesis unfolding run using ev g(2-4) k(3) fenced no by (auto simp: orphan_candidates_def)
  qed
qed

theorem drain_stops_everything_witness:
  "stops (snd (drain_disabled (demo_drain ''RUNNING'') [])) = orphan_candidates [demo_host ''RUNNING''] {} \<and>
   (\<exists>c. fst (drain_disabled (demo_drain ''TERMINATED'') []) = Inr c \<and> c \<and> host_down (demo_host ''TERMINATED''))"
  using drain_stops_everything [of "demo_drain ''RUNNING''"] drain_stops_everything [of "demo_drain ''TERMINATED''"]
  by (auto simp: demo_drain_run)

text \<open>
  What precedes a termination in the drain of the known assignments: the record of a thing that was read, the
  description of its host with the image of its saved launch, and a successful fence with that record.
\<close>

definition known_stop :: "(string \<Rightarrow> json_object option) \<Rightarrow> drain_history \<Rightarrow> drain_call \<Rightarrow> bool" where
  "known_stop parse h e \<longleftrightarrow> (case e of
     Stop vm a \<Rightarrow> \<exists>h1 thing snap r host. h = h1 @ [ReadThing thing (Inr (Some snap)), Describe vm (Inr host),
         FenceKnown thing snap (Inr True)] \<and> run (state snap) = Some r \<and> microvm_id r = vm \<and> vm \<noteq> [] \<and>
       saved_launch_image parse (request r) (run_id r) thing (activation_id r) = Inr (details_image host) \<and>
       host_id (details_run host) = vm \<and> live_state (host_state (details_run host))
   | _ \<Rightarrow> True)"

lemma checked_more:
  "checked chk (h @ [a, c]) \<longleftrightarrow> checked chk (h @ [a]) \<and> chk (h @ [a]) c"
  "checked chk (h @ [a, c, d]) \<longleftrightarrow> checked chk (h @ [a, c]) \<and> chk (h @ [a, c]) d"
  "checked chk (h @ [a, c, d, e]) \<longleftrightarrow> checked chk (h @ [a, c, d]) \<and> chk (h @ [a, c, d]) e"
  using checked_snoc [of chk "h @ [a]" c] checked_snoc [of chk "h @ [a, c]" d] checked_snoc [of chk "h @ [a, c, d]" e]
  by simp_all

lemma known_stop_other [simp]:
  "known_stop parse h (ReadThing t x)" "known_stop parse h (Describe vm y)" "known_stop parse h (FenceKnown t sn z)"
  "known_stop parse h (Things u)"
  by (simp_all add: known_stop_def)

lemma known_stop_after:
  assumes "run (state snap) = Some r" "microvm_id r \<noteq> []"
    "saved_launch_image parse (request r) (run_id r) thing (activation_id r) = Inr (details_image host)"
    "host_id (details_run host) = microvm_id r" "live_state (host_state (details_run host))"
  shows "known_stop parse (h @ [ReadThing thing (Inr (Some snap)), Describe (microvm_id r) (Inr host),
    FenceKnown thing snap (Inr True)]) (Stop (microvm_id r) a)"
  using assms unfolding known_stop_def by auto

lemma drain_thing_checked:
  assumes "checked (known_stop parse) h"
  shows "checked (known_stop parse) (snd (drain_thing parse b thing h))"
proof (cases "on_read_thing b h thing")
  case (Inl e)
  then show ?thesis using assms
    by (simp add: drain_thing_def io_bind_def call_read_thing_def io_call_def known_stop_def)
next
  case (Inr snap)
  let ?h1 = "h @ [ReadThing thing (Inr snap)]"
  have h1: "checked (known_stop parse) ?h1" using assms by (simp add: known_stop_def)
  show ?thesis
  proof (cases snap)
    case None
    with Inr h1 show ?thesis by (simp add: drain_thing_def io_bind_def call_read_thing_def io_call_def io_return_def)
  next
    case (Some sn)
    have "checked (known_stop parse) (snd ((case run (state sn) of None \<Rightarrow> io_return True | Some r \<Rightarrow>
       if microvm_id r = [] then io_return False else
       case saved_launch_image parse (request r) (run_id r) thing (activation_id r) of Inl e \<Rightarrow> io_throw e
       | Inr expected \<Rightarrow>
         io_bind (call_describe b (microvm_id r)) (\<lambda>host.
         if host_id (details_run host) \<noteq> microvm_id r \<or> details_image host \<noteq> expected then io_return False else
         io_bind (call_fence_known b thing sn) (\<lambda>ok.
         if \<not> ok then io_return False
         else if host_state (details_run host) = ''TERMINATED'' then io_return True
         else if live_state (host_state (details_run host))
         then io_bind (call_stop b (microvm_id r)) (\<lambda>_. io_return False)
         else io_return False))) ?h1))"
      using h1 unfolding Some
      by (auto simp: io_bind_def io_return_def io_throw_def call_describe_def call_fence_known_def call_stop_def io_call_def
        checked_more known_stop_after split: option.split sum.split)
    with Inr Some show ?thesis by (simp add: drain_thing_def io_bind_def call_read_thing_def io_call_def)
  qed
qed

lemma drain_things_checked:
  "checked (known_stop parse) h \<Longrightarrow> checked (known_stop parse) (snd (drain_things parse b ts c h)) \<and>
     (\<exists>c'. fst (drain_things parse b ts c h) = Inr c')"
proof (induction ts arbitrary: c h)
  case (Cons t ts)
  obtain r h' where run: "drain_thing parse b t h = (r, h')" by fastforce
  have "checked (known_stop parse) h'" using drain_thing_checked [OF Cons.prems, of b t] run by simp
  with Cons.IH show ?case using run
    by (cases r) (simp_all add: io_bind_def io_catch_def io_return_def)
qed (simp add: io_return_def)

text \<open>What a thing that counts as drained has in the history.\<close>

definition known_down :: "drain_history \<Rightarrow> string \<Rightarrow> bool" where
  "known_down h thing \<longleftrightarrow> (\<exists>snap. ReadThing thing (Inr snap) \<in> set h \<and>
     (\<forall>sn r. snap = Some sn \<and> run (state sn) = Some r \<longrightarrow> FenceKnown thing sn (Inr True) \<in> set h \<and>
        (\<exists>host. Describe (microvm_id r) (Inr host) \<in> set h \<and> host_down (details_run host) \<and>
           host_id (details_run host) = microvm_id r)))"

lemma known_down_mono: "known_down h thing \<Longrightarrow> set h \<subseteq> set h' \<Longrightarrow> known_down h' thing"
  unfolding known_down_def by blast

lemma known_down_after:
  assumes "run (state sn) = Some r" "host_down (details_run host)" "host_id (details_run host) = microvm_id r"
  shows "known_down (h @ [ReadThing thing (Inr (Some sn)), Describe (microvm_id r) (Inr host), FenceKnown thing sn (Inr True)]) thing"
  unfolding known_down_def by (rule exI [of _ "Some sn"]) (use assms in auto)

lemma drain_thing_down:
  "set h \<subseteq> set (snd (drain_thing parse b thing h)) \<and>
   (fst (drain_thing parse b thing h) = Inr True \<longrightarrow> known_down (snd (drain_thing parse b thing h)) thing)"
proof (cases "on_read_thing b h thing")
  case (Inl e)
  then show ?thesis by (auto simp: drain_thing_def io_bind_def call_read_thing_def io_call_def)
next
  case (Inr snap)
  consider (none) "\<forall>sn. snap = Some sn \<longrightarrow> run (state sn) = None"
    | (some) sn r where "snap = Some sn" "run (state sn) = Some r" by fastforce
  then show ?thesis
  proof cases
    case none
    then have "drain_thing parse b thing h = (Inr True, h @ [ReadThing thing (Inr snap)])"
      using Inr by (cases snap) (simp_all add: drain_thing_def io_bind_def call_read_thing_def io_call_def io_return_def)
    then show ?thesis using none by (auto simp: known_down_def)
  next
    case some
    then show ?thesis using Inr
      by (auto simp: drain_thing_def io_bind_def call_read_thing_def io_call_def io_return_def io_throw_def call_describe_def
        call_fence_known_def call_stop_def host_down_def intro!: known_down_after split: sum.splits if_splits)
  qed
qed

lemma drain_things_down:
  "set h \<subseteq> set (snd (drain_things parse b ts c h)) \<and>
   (fst (drain_things parse b ts c h) = Inr True \<longrightarrow> c \<and> (\<forall>t \<in> set ts. known_down (snd (drain_things parse b ts c h)) t))"
proof (induction ts arbitrary: c h)
  case (Cons t ts)
  obtain r h' where run: "drain_thing parse b t h = (r, h')" by fastforce
  let ?c = "c \<and> r = Inr True"
  have step: "drain_things parse b (t # ts) c h = drain_things parse b ts ?c h'"
    using run by (cases r) (simp_all add: io_bind_def io_catch_def io_return_def)
  have t: "set h \<subseteq> set h'" "r = Inr True \<longrightarrow> known_down h' t" using drain_thing_down [of h parse b t] run by simp_all
  have rest: "set h' \<subseteq> set (snd (drain_things parse b ts ?c h'))"
    "fst (drain_things parse b ts ?c h') = Inr True \<longrightarrow> ?c \<and> (\<forall>t \<in> set ts. known_down (snd (drain_things parse b ts ?c h')) t)"
    using Cons [of h' ?c] by blast+
  have "known_down (snd (drain_things parse b ts ?c h')) t" if "r = Inr True"
    using t(2) that rest(1) known_down_mono by blast
  with t(1) rest show ?case unfolding step by auto
qed (simp add: io_return_def)

text \<open>
  C13. The drain of the known assignments is guarded.  Whatever the backend answers, the drain returns, and it
  terminates a MicroVM only directly after reading a record that names it, describing it with its own
  identity and the image of the saved launch of that very assignment, and fencing the thing with that
  record.  It reports completion only when every registered thing has no run, or a fenced one whose host is
  terminated.
\<close>

theorem known_drain_guarded:
  "case drain_known_assignments parse b [] of (r, h) \<Rightarrow> checked (known_stop parse) h \<and>
     (\<exists>c. r = Inr c \<and> (c \<longrightarrow> (\<exists>ts. Things (Inr ts) \<in> set h \<and> (\<forall>t \<in> set ts. known_down h t))))"
proof (cases "on_things b []")
  case (Inl e)
  then have "drain_known_assignments parse b [] = (Inr False, [Things (Inl e)])"
    by (simp add: drain_known_assignments_def io_catch_def io_bind_def call_things_def io_call_def io_return_def)
  moreover have "checked (known_stop parse) ([] @ [Things (Inl e)])" unfolding checked_snoc by simp
  ultimately show ?thesis by auto
next
  case (Inr ts)
  let ?h = "[] @ [Things (Inr ts)]"
  have "checked (known_stop parse) ?h" unfolding checked_snoc by simp
  from drain_things_checked [OF this, of b ts True] obtain c h where
    run: "drain_things parse b ts True ?h = (Inr c, h)" and ok: "checked (known_stop parse) h"
    by (metis prod.collapse)
  have "drain_known_assignments parse b [] = (Inr c, h)"
    using Inr run by (simp add: drain_known_assignments_def io_catch_def io_bind_def call_things_def io_call_def)
  moreover have "c \<longrightarrow> Things (Inr ts) \<in> set h \<and> (\<forall>t \<in> set ts. known_down h t)"
    using drain_things_down [of ?h parse b ts True] run by auto
  ultimately show ?thesis using ok by auto
qed

theorem known_drain_guarded_witness:
  "\<exists>r h. drain_known_assignments demo_parse (demo_drain ''RUNNING'') [] = (r, h) \<and> Stop ''v'' (Inr ()) \<in> set h \<and>
     checked (known_stop demo_parse) h"
  using known_drain_guarded [of demo_parse "demo_drain ''RUNNING''"] by (simp add: demo_known_run)

end
