(* ===== verification/Spec2Isabelle.thy ===== *)
theory Spec2Isabelle
  imports Reconcile Weather ThreadDevice PowerSiProps MotorProps HwCli Factory Scheduler SparkplugOffice Drain
begin

text \<open>
  Verification of txing, a fleet of small devices (\<^emph>\<open>things\<close>) that are woken, watched and driven over
  Bluetooth, Thread and MQTT.  A device reports a readiness level, its REDCON, from 1 to 4; a rig next to the
  devices collects the reports and hands out commands as Sparkplug messages; an office web application shows
  them; an agent in the cloud starts and stops one MicroVM per active device; boards drive motors.  The parts
  below are modelled by definitions that follow the sources under \<^verbatim>\<open>src/\<close> function by function, and the lemmas
  are proved about those definitions.

  \<^bold>\<open>Common vocabulary.\<close>  \<^verbatim>\<open>Prelude\<close> has the machine types as words, C++ exceptions and Go errors as values of a sum
  type, the computations that call an outside world and record every call with its answer, their
  weakest-precondition rules, state machines with finite runs, and two contracts as locales: \<^verbatim>\<open>event_system\<close> for
  invariants and \<^verbatim>\<open>latching_system\<close> for properties that last.  \<^verbatim>\<open>Firmware\<close> has the same for C code over a record of
  static variables, in the state monad.

  \<^bold>\<open>The agent\<close> (\<^verbatim>\<open>src/agent\<close>).  \<^verbatim>\<open>Activation\<close> models \<^verbatim>\<open>activation.cpp\<close>: the persisted record of what was observed of a
  device, the edge that starts an activation, the authority it gives and the deadline on two clocks.
  \<^verbatim>\<open>Controller\<close> models \<^verbatim>\<open>controller.cpp\<close>: the reservation of a run and its phases.  \<^verbatim>\<open>Reconcile\<close> models the pass of
  \<^verbatim>\<open>reconcile.cpp\<close>, \<^verbatim>\<open>Cloud\<close> the launch requests and the inventory of \<^verbatim>\<open>cloud.cpp\<close>, \<^verbatim>\<open>Drain\<close> the orphans and the
  two drains of \<^verbatim>\<open>reconcile.cpp\<close>.  The backends answer arbitrarily, as functions of the calls made so far, and may
  throw at any point.  Shown: authority goes back to a verified inactive and then active observation; a run is
  running only after an accepted launch, and stopping is final; a MicroVM is launched only for a reservation
  that was saved before and terminated only after its release was saved; a pass makes a bounded number of
  calls; the drains stop every live host they are told about, exactly once, and never report completion too
  early; a saved launch request is accepted again and yields its image.

  \<^bold>\<open>The firmware.\<close>  \<^verbatim>\<open>Redcon\<close> models \<^verbatim>\<open>redcon.c\<close> of the Bluetooth devices with the power and unit applications,
  \<^verbatim>\<open>Weather\<close> the weather application with its BME280 driver, \<^verbatim>\<open>ThreadBase\<close> and \<^verbatim>\<open>ThreadDevice\<close> the Thread firmware
  \<^verbatim>\<open>thread_device.c\<close> of the nRF54LM20A, \<^verbatim>\<open>PowerSi\<close>, \<^verbatim>\<open>PowerSiLife\<close> and \<^verbatim>\<open>PowerSiProps\<close> the firmware of the XIAO MG24.
  Zephyr, OpenThread and the drivers are a parameter that answers every call; interrupts, work items and
  attribute accesses interleave as a step relation.  Shown: the state payload and the pins follow the level,
  malformed commands are refused with the right error and no effect, a sleepy device without registration
  keeps its recovery armed, polling ends, and the 32-bit compensation equals the formula over the integers in
  the range stated.  Hypotheses on the kernel (working GPIO ports, a clock that advances while the thread
  sleeps) are named in the statements and met by the witnesses.

  \<^bold>\<open>The hardware worker\<close> (\<^verbatim>\<open>src/devices/common/board/hardware_worker\<close>).  \<^verbatim>\<open>Binary64\<close> has doubles with rounding to
  nearest, \<^verbatim>\<open>HwConfig\<close> and \<^verbatim>\<open>HwCli\<close> the configuration, \<^verbatim>\<open>Motor\<close>, \<^verbatim>\<open>MotorDriver\<close>, \<^verbatim>\<open>MotorControl\<close> and \<^verbatim>\<open>MotorProps\<close> the motor
  controller.  Shown: the watchdog bounds motion, velocity requests have the stated outcome, errors latch,
  and every parsed configuration is within its types.

  \<^bold>\<open>Factory data.\<close>  \<^verbatim>\<open>IntelHex\<close> and \<^verbatim>\<open>Factory\<close> model the scripts that write names and network data into flash, and
  compose them with the readers in the firmware: what is written is what the device loads.

  \<^bold>\<open>The rig and the office.\<close>  \<^verbatim>\<open>Scheduler\<close> models \<^verbatim>\<open>scheduler.go\<close> of the rig: each section under its lock is a step, and
  workers, callers and maintenance interleave freely.  Shown: one worker per device and one left for commands,
  commands of a device in order, workers that finish, one maintenance cycle at a time, cancellation of polls.
  \<^verbatim>\<open>Sparkplug\<close> models the codec \<^verbatim>\<open>sparkplug.go\<close>, \<^verbatim>\<open>SparkplugOffice\<close> the codec and the reader of the office.  Shown:
  payloads survive the wire, and commands and reports pass between office and rig; two statements record that
  malformed lengths make the rig panic and the office loop.

  \<^bold>\<open>Bounds.\<close>  Loops are recursive functions with a termination proof, except the office decoder and the wait for a
  directory of the motor driver, which are partial functions since they may not end.  The poll loop of the
  sensor takes a number of rounds that is proved sufficient.  The inventory of the cloud has the limit of 1000
  pages of the source.  Round trips over Sparkplug assume messages shorter than $2^{63}$ bytes (the rig) or
  $2^{31}$ bytes (the office), Intel HEX addresses are below 4 GiB, and the deadline of a launch request is below
  $10^{18}$ seconds, which is where the code itself stops.

  \<^bold>\<open>Not modelled.\<close>  The record of the controller as a JSON document (\<^verbatim>\<open>controller_shadow.cpp\<close>) and the adapters of the
  agent to AWS, HTTP and WebRTC; the Bluetooth, CoAP and MQTT runtimes, the manager and the registry of the rig;
  the witness and cloud-mcu lambdas; the board, video and Mac daemons; the user interface of the office; the
  gRPC server and signals of the hardware worker; deployment scripts, generated code and vendor libraries.
  They are input and output around third-party services; where a modelled part calls them, they are parameters.
  Log output is left out everywhere.
\<close>

end
